(* ===== verification/Prelude.thy ===== *)
theory Prelude
  imports Main "HOL-Library.Word" "HOL-Library.Sublist"
begin

text \<open>
  Shared vocabulary of the development: the machine integers of the crate at their width
  (\<open>usize\<close> is 64 bits, the width the constants of \<open>src/src/network/resource_id.rs\<close> are written
  for), byte buffers, Rust's \<open>Result\<close> as a sum, panics as values, the error kinds of
  \<open>std::io\<close> the crate distinguishes, and the generic lemmas on lists, sums and words that the
  component theories share.
\<close>

unbundle bit_operations_syntax

section \<open>Types\<close>

type_synonym u8 = "8 word"
type_synonym u16 = "16 word"
type_synonym u32 = "32 word"
type_synonym u64 = "64 word"
type_synonym usize = "64 word"
type_synonym bytes = "u8 list"

text \<open>The \<open>std::io::ErrorKind\<close> values the crate tests for; every other kind is \<open>OtherKind\<close>.\<close>

datatype io_error =
    Interrupted | WouldBlock | ConnectionReset | ConnectionRefused | ConnectionAborted
  | NotConnected | InvalidInput | UnexpectedEof | NotFound | AddrNotAvailable | InProgress
  | OtherKind

text \<open>\<open>Result<T, E>\<close> is \<open>'e + 'a\<close>; \<open>rbind\<close> is the \<open>?\<close> operator.\<close>

abbreviation Ok :: "'a \<Rightarrow> 'e + 'a" where "Ok x \<equiv> Inr x"
abbreviation Err :: "'e \<Rightarrow> 'e + 'a" where "Err e \<equiv> Inl e"

definition rbind :: "'e + 'a \<Rightarrow> ('a \<Rightarrow> 'e + 'b) \<Rightarrow> 'e + 'b" where
  "rbind r f = (case r of Inl e \<Rightarrow> Inl e | Inr x \<Rightarrow> f x)"

text \<open>
  A computation that may panic: \<open>Done\<close> of its value, or \<open>Panic\<close> (a failed assertion,
  \<open>unwrap\<close>, \<open>unreachable!\<close>, an out-of-range index or a checked subtraction that underflows).
\<close>

datatype 'a exec = Done 'a | Panic

definition xbind :: "'a exec \<Rightarrow> ('a \<Rightarrow> 'b exec) \<Rightarrow> 'b exec" where
  "xbind m f = (case m of Done x \<Rightarrow> f x | Panic \<Rightarrow> Panic)"

definition unwrap :: "'e + 'a \<Rightarrow> 'a exec" where
  "unwrap r = (case r of Inl _ \<Rightarrow> Panic | Inr x \<Rightarrow> Done x)"

definition assert_that :: "bool \<Rightarrow> unit exec" where
  "assert_that b = (if b then Done () else Panic)"

text \<open>A computation that may also fail to return (\<open>None\<close>).\<close>

definition obind :: "'a exec option \<Rightarrow> ('a \<Rightarrow> 'b exec option) \<Rightarrow> 'b exec option" where
  "obind m f = (case m of None \<Rightarrow> None | Some Panic \<Rightarrow> Some Panic | Some (Done x) \<Rightarrow> f x)"

section \<open>Collections of facts\<close>

named_theorems result_simps \<open>rewriting of the result and panic combinators\<close>
named_theorems word_consts \<open>unfolding of the bit-layout constants\<close>

section \<open>Sums, options and panics\<close>

lemma rbind_simps [simp, result_simps]:
  "rbind (Inl e) f = Inl e"
  "rbind (Inr x) f = f x"
  by (simp_all add: rbind_def)

lemma rbind_eq_Inr [result_simps]: "rbind r f = Inr y \<longleftrightarrow> (\<exists>x. r = Inr x \<and> f x = Inr y)"
  by (cases r) simp_all

lemma rbind_eq_Inl [result_simps]:
  "rbind r f = Inl e \<longleftrightarrow> r = Inl e \<or> (\<exists>x. r = Inr x \<and> f x = Inl e)"
  by (cases r) simp_all

lemma xbind_simps [simp, result_simps]:
  "xbind (Done x) f = f x"
  "xbind Panic f = Panic"
  by (simp_all add: xbind_def)

lemma xbind_eq_Done [result_simps]: "xbind m f = Done y \<longleftrightarrow> (\<exists>x. m = Done x \<and> f x = Done y)"
  by (cases m) simp_all

lemma xbind_eq_Panic [result_simps]:
  "xbind m f = Panic \<longleftrightarrow> m = Panic \<or> (\<exists>x. m = Done x \<and> f x = Panic)"
  by (cases m) simp_all

lemma obind_simps [simp, result_simps]:
  "obind None f = None"
  "obind (Some Panic) f = Some Panic"
  "obind (Some (Done x)) f = f x"
  by (simp_all add: obind_def)

lemma obind_eq_Done [result_simps]:
  "obind m f = Some (Done y) \<longleftrightarrow> (\<exists>x. m = Some (Done x) \<and> f x = Some (Done y))"
  by (auto simp: obind_def split: option.splits exec.splits)

lemma unwrap_eq_Done [result_simps]: "unwrap r = Done x \<longleftrightarrow> r = Inr x"
  by (cases r) (simp_all add: unwrap_def)

lemma unwrap_simps [simp, result_simps]:
  "unwrap (Inr x) = Done x"
  "unwrap (Inl e) = Panic"
  by (simp_all add: unwrap_def)

lemma assert_that_simps [simp, result_simps]:
  "assert_that True = Done ()"
  "assert_that False = Panic"
  by (simp_all add: assert_that_def)

section \<open>Words\<close>

lemma word_eq_bitI:
  fixes a b :: "'a::len word"
  assumes "\<And>n. n < LENGTH('a) \<Longrightarrow> bit a n = bit b n"
  shows "a = b"
  using assms by (rule bit_word_eqI)

lemma bit_word_ge [simp]: "LENGTH('a) \<le> n \<Longrightarrow> \<not> bit (w :: 'a::len word) n"
  using bit_imp_le_length not_less by blast

lemma unat_less_pow_bit:
  fixes w :: "'a::len word"
  assumes "unat w < 2 ^ k" and "k \<le> n"
  shows "\<not> bit w n"
proof -
  have "unat w < 2 ^ n"
    using assms by (meson less_le_trans one_le_numeral power_increasing)
  then have "drop_bit n (unat w) = 0"
    by (simp add: drop_bit_eq_div)
  then have "drop_bit n w = 0"
    by (metis drop_bit_of_nat of_nat_0 unat_drop_bit_eq unsigned_eq_0_iff)
  then have "\<not> bit (drop_bit n w) 0" by simp
  then show ?thesis by (simp add: bit_drop_bit_eq)
qed

section \<open>Prefixes of a byte stream\<close>

lemma prefix_append_short:
  assumes "prefix p (xs @ ys)" and "length p \<le> length xs"
  shows "prefix p xs"
  using assms by (rule prefix_length_prefix [OF _ prefixI [OF refl]])

lemma prefix_append_long:
  assumes "prefix p (xs @ ys)" and "length xs \<le> length p"
  obtains q where "p = xs @ q" and "prefix q ys"
proof -
  have "prefix xs p" by (rule prefix_length_prefix [OF prefixI [OF refl] assms])
  then obtain q where "p = xs @ q" by (rule prefixE)
  with assms(1) show thesis by (intro that) simp_all
qed

section \<open>Answers of a loop\<close>

text \<open>What a loop over the answers \<open>f n\<close>, \<open>f (n + 1)\<close>, \<dots> collects: one more turn at the front.\<close>

lemma concat_map_upt_Suc:
  "concat (map (\<lambda>j. g (f (n + j))) [0..<Suc k]) = g (f n) @ concat (map (\<lambda>j. g (f (Suc (n + j)))) [0..<k])"
proof -
  have "[0..<Suc k] = 0 # map Suc [0..<k]" by (simp add: upt_conv_Cons map_Suc_upt del: upt_Suc)
  then show ?thesis by (simp add: comp_def del: upt_Suc)
qed

section \<open>Printing\<close>

fun show_nat :: "nat \<Rightarrow> string" where
  "show_nat n =
     (if n < 10 then [char_of (48 + n)] else show_nat (n div 10) @ [char_of (48 + n mod 10)])"

declare show_nat.simps [simp del]

end
