(* ===== verification/Encoding.thy ===== *)
theory Encoding
  imports Prelude
begin

text \<open>
  \<open>src/src/util/encoding.rs\<close>: length-prefixed framing over a byte stream. The variable-length
  integer codec is the external crate \<open>integer-encoding\<close>; its two functions are the parameters
  \<open>enc\<close> and \<open>dec\<close> of the definitions, and what the framing relies on is the locale
  \<open>varint_codec\<close>. The main result is that the decoder reassembles the messages of a stream
  whatever the chunks the stream arrives in.
\<close>

section \<open>The model\<close>

definition MAX_ENCODED_SIZE :: nat where "MAX_ENCODED_SIZE = 10"

text \<open>\<open>encode_size\<close>: the header bytes of a message.\<close>

definition encode_size :: "(nat \<Rightarrow> bytes) \<Rightarrow> bytes \<Rightarrow> bytes" where
  "encode_size enc message = enc (length message)"

definition decode_size :: "(bytes \<Rightarrow> (nat \<times> nat) option) \<Rightarrow> bytes \<Rightarrow> (nat \<times> nat) option" where
  "decode_size dec data = dec data"

text \<open>A checked subtraction: it panics in a debug build and wraps around in a release build.\<close>

definition usize_sub :: "bool \<Rightarrow> nat \<Rightarrow> nat \<Rightarrow> nat exec" where
  "usize_sub debug a b =
     (if b \<le> a then Done (a - b) else if debug then Panic else Done (2 ^ 64 + a - b))"

text \<open>
  The loop of \<open>Decoder::try_decode\<close>: the messages passed to the callback so far and the bytes to
  be appended to \<open>stored\<close>. \<open>None\<close> is a loop that does not return.
\<close>

partial_function (option) try_decode_loop ::
  "(bytes \<Rightarrow> (nat \<times> nat) option) \<Rightarrow> bytes \<Rightarrow> bytes list \<Rightarrow> (bytes list \<times> bytes) exec option" where
  "try_decode_loop dec next_data acc =
     (case decode_size dec next_data of
        Some (expected_size, used_bytes) \<Rightarrow>
          (if length next_data < used_bytes then Some Panic
           else let remaining = drop used_bytes next_data in
             (if expected_size \<le> length remaining
              then let decoded = take expected_size remaining;
                       not_decoded = drop expected_size remaining in
                (if not_decoded \<noteq> [] then try_decode_loop dec not_decoded (acc @ [decoded])
                 else Some (Done (acc @ [decoded], [])))
              else Some (Done (acc, next_data))))
      | None \<Rightarrow> Some (Done (acc, next_data)))"

text \<open>\<open>Decoder\<close> is the vector \<open>stored\<close>. An operation returns the messages of the callback.\<close>

definition try_decode ::
  "(bytes \<Rightarrow> (nat \<times> nat) option) \<Rightarrow> bytes \<Rightarrow> bytes \<Rightarrow> (bytes list \<times> bytes) exec option" where
  "try_decode dec stored data =
     map_option (\<lambda>r. xbind r (\<lambda>(ms, rest). Done (ms, stored @ rest))) (try_decode_loop dec data [])"

text \<open>
  \<open>Decoder::store_and_decoded_data\<close>: the decoded message and the bytes after it, if the message
  is complete, and the new \<open>stored\<close>.
\<close>

definition store_and_decoded_data ::
  "bool \<Rightarrow> (bytes \<Rightarrow> (nat \<times> nat) option) \<Rightarrow> bytes \<Rightarrow> bytes \<Rightarrow> ((bytes \<times> bytes) option \<times> bytes) exec" where
  "store_and_decoded_data debug dec stored data =
     xbind
       (case decode_size dec stored of
          Some size_info \<Rightarrow> Done (Some (size_info, data), stored)
        | None \<Rightarrow>
            xbind (usize_sub debug MAX_ENCODED_SIZE (length stored)) (\<lambda>room.
            let max_remaining = min room (length data);
                stored' = stored @ take max_remaining data in
            (case decode_size dec stored' of
               Some x \<Rightarrow> Done (Some (x, drop max_remaining data), stored')
             | None \<Rightarrow> Done (None, stored'))))
       (\<lambda>(header, stored).
         case header of
           None \<Rightarrow> Done (None, stored)
         | Some ((expected_size, used_bytes), data) \<Rightarrow>
             xbind (usize_sub debug (length stored) used_bytes) (\<lambda>got.
             xbind (usize_sub debug expected_size got) (\<lambda>remaining.
             if length data < remaining then Done (None, stored @ data)
             else let stored' = stored @ take remaining data in
               if length stored' < used_bytes then Panic
               else Done (Some (drop used_bytes stored', drop remaining data), stored'))))"

definition decode ::
  "bool \<Rightarrow> (bytes \<Rightarrow> (nat \<times> nat) option) \<Rightarrow> bytes \<Rightarrow> bytes \<Rightarrow> (bytes list \<times> bytes) exec option" where
  "decode debug dec stored data =
     (if stored = [] then try_decode dec stored data
      else case store_and_decoded_data debug dec stored data of
        Panic \<Rightarrow> Some Panic
      | Done (None, stored') \<Rightarrow> Some (Done ([], stored'))
      | Done (Some (decoded_data, remaining), stored') \<Rightarrow>
          map_option (\<lambda>r. xbind r (\<lambda>(ms, st). Done (decoded_data # ms, st)))
            (try_decode dec [] remaining))"

definition stored_size :: "bytes \<Rightarrow> nat" where
  "stored_size stored = length stored"

text \<open>The user's loop: one \<open>decode\<close> per chunk of the stream.\<close>

fun decode_chunks ::
  "bool \<Rightarrow> (bytes \<Rightarrow> (nat \<times> nat) option) \<Rightarrow> bytes \<Rightarrow> bytes list \<Rightarrow> (bytes list \<times> bytes) exec option" where
  "decode_chunks debug dec stored [] = Some (Done ([], stored))"
| "decode_chunks debug dec stored (c # cs) =
     (case decode debug dec stored c of
        Some (Done (ms, st)) \<Rightarrow>
          map_option (\<lambda>r. xbind r (\<lambda>(ms', st'). Done (ms @ ms', st'))) (decode_chunks debug dec st cs)
      | Some Panic \<Rightarrow> Some Panic
      | None \<Rightarrow> None)"

text \<open>The sender's side: header and message, as the tests' \<open>encode_message\<close> writes them.\<close>

definition frame :: "(nat \<Rightarrow> bytes) \<Rightarrow> bytes \<Rightarrow> bytes" where
  "frame enc m = encode_size enc m @ m"

abbreviation wire :: "(nat \<Rightarrow> bytes) \<Rightarrow> bytes list \<Rightarrow> bytes" where
  "wire enc ms \<equiv> concat (map (frame enc) ms)"

section \<open>Positions in a stream of frames\<close>

text \<open>Where a stream of frames may be cut: between frames, in a header or in a message.\<close>

definition between :: "(nat \<Rightarrow> bytes) \<Rightarrow> bytes list \<Rightarrow> bytes \<Rightarrow> bool" where
  "between enc rest stored \<longleftrightarrow>
     stored = [] \<or> (\<exists>m rest'. rest = m # rest' \<and> strict_prefix stored (frame enc m))"

definition sized :: "bytes list \<Rightarrow> bool" where
  "sized ms \<longleftrightarrow> (\<forall>m \<in> set ms. length m < 2 ^ 64)"

text \<open>The outcome of an operation that consumes \<open>data\<close> when \<open>rest\<close> is still to come.\<close>

definition consumes ::
  "(nat \<Rightarrow> bytes) \<Rightarrow> bytes list \<Rightarrow> bytes \<Rightarrow> (bytes list \<times> bytes) exec option \<Rightarrow> bool" where
  "consumes enc rest data r \<longleftrightarrow>
     (\<exists>out rest' stored. r = Some (Done (out, stored)) \<and> rest = out @ rest' \<and>
        data = wire enc out @ stored \<and> between enc rest' stored)"

section \<open>The codec interface\<close>

locale varint_codec =
  fixes enc :: "nat \<Rightarrow> bytes" and dec :: "bytes \<Rightarrow> (nat \<times> nat) option"
  assumes dec_enc: "n < 2 ^ 64 \<Longrightarrow> dec (enc n @ xs) = Some (n, length (enc n))"
    and dec_partial: "n < 2 ^ 64 \<Longrightarrow> strict_prefix p (enc n) \<Longrightarrow> dec p = None"
    and enc_nonempty: "n < 2 ^ 64 \<Longrightarrow> enc n \<noteq> []"
    and enc_bound: "n < 2 ^ 64 \<Longrightarrow> length (enc n) \<le> MAX_ENCODED_SIZE"
    and enc_short: "n < 128 \<Longrightarrow> length (enc n) = 1"
begin

lemma dec_Nil: "dec [] = None"
  using dec_partial [of 0 "[]"] enc_nonempty [of 0] by (auto simp: strict_prefix_def)

lemma strict_prefix_frame_cases:
  assumes "strict_prefix p (frame enc m)"
  obtains (header) "strict_prefix p (enc (length m))"
    | (body) q where "p = enc (length m) @ q" and "strict_prefix q m"
proof -
  have "prefix p (enc (length m) @ m)" and ne: "p \<noteq> enc (length m) @ m"
    using assms by (auto simp: frame_def encode_size_def strict_prefix_def)
  then consider "prefix p (enc (length m))" | q where "p = enc (length m) @ q" and "prefix q m"
    by (auto simp: prefix_append)
  then show thesis
  proof cases
    case 1
    show thesis
    proof (cases "p = enc (length m)")
      case True
      with ne have "strict_prefix [] m" by (auto simp: strict_prefix_def)
      with True show thesis by (intro body [of "[]"]) simp_all
    next
      case False
      with 1 show thesis by (intro header) (simp add: strict_prefix_def)
    qed
  next
    case 2
    with ne show thesis by (intro body) (auto simp: strict_prefix_def)
  qed
qed

text \<open>A cut inside a frame: the header is not readable yet, or the message is too short.\<close>

lemma dec_cut:
  assumes "strict_prefix p (frame enc m)" and "length m < 2 ^ 64"
  shows "dec p = None \<and> strict_prefix p (enc (length m)) \<or>
    (\<exists>q. p = enc (length m) @ q \<and> strict_prefix q m \<and> dec p = Some (length m, length (enc (length m))))"
  using assms(1)
proof (cases rule: strict_prefix_frame_cases)
  case header
  then show ?thesis using dec_partial assms(2) by blast
next
  case (body q)
  then show ?thesis using dec_enc assms(2) by blast
qed

lemma strict_prefix_length: "strict_prefix q m \<Longrightarrow> length q < length m"
  by (simp add: prefix_length_less)

lemma dec_frame: "length m < 2 ^ 64 \<Longrightarrow> dec (frame enc m @ xs) = Some (length m, length (enc (length m)))"
  by (simp add: frame_def encode_size_def dec_enc)

lemma prefix_wire_cases:
  assumes "prefix data (wire enc rest)"
  obtains (cut) "between enc rest data"
    | (whole) m rest' data' where "rest = m # rest'" and "data = frame enc m @ data'"
        and "prefix data' (wire enc rest')"
proof (cases rest)
  case Nil
  with assms show thesis by (intro cut) (simp add: between_def)
next
  case (Cons m rest')
  with assms have "prefix data (frame enc m) \<or> (\<exists>d. data = frame enc m @ d \<and> prefix d (wire enc rest'))"
    by (auto simp: prefix_append)
  then consider "data = frame enc m" | "strict_prefix data (frame enc m)"
    | d where "data = frame enc m @ d" and "prefix d (wire enc rest')"
    unfolding strict_prefix_def by blast
  then show thesis
  proof cases
    case 1
    with Cons show thesis by (intro whole [of m rest' "[]"]) simp_all
  next
    case 2
    with Cons show thesis by (intro cut) (auto simp: between_def)
  next
    case 3
    with Cons show thesis by (intro whole) simp_all
  qed
qed

lemma try_decode_loop_cut:
  assumes "between enc rest data" and "sized rest"
  shows "try_decode_loop dec data acc = Some (Done (acc, data))"
proof (cases "data = []")
  case True
  then show ?thesis by (simp add: try_decode_loop.simps decode_size_def dec_Nil)
next
  case False
  then obtain m rest' where m: "strict_prefix data (frame enc m)" "length m < 2 ^ 64"
    using assms by (auto simp: between_def sized_def)
  from dec_cut [OF this] show ?thesis
    using strict_prefix_length
    by (fastforce simp: try_decode_loop.simps decode_size_def Let_def)
qed

lemma try_decode_loop_whole:
  assumes "length m < 2 ^ 64"
  shows "try_decode_loop dec (frame enc m @ data) acc =
    (if data = [] then Some (Done (acc @ [m], [])) else try_decode_loop dec data (acc @ [m]))"
proof -
  have "frame enc m @ data = enc (length m) @ m @ data" by (simp add: frame_def encode_size_def)
  moreover have "dec (enc (length m) @ m @ data) = Some (length m, length (enc (length m)))"
    using assms by (rule dec_enc)
  ultimately show ?thesis
    by (cases data) (simp_all add: try_decode_loop.simps [of dec "enc (length m) @ m"]
        try_decode_loop.simps [of dec "enc (length m) @ m @ _ # _"] decode_size_def)
qed

lemma try_decode_loop_prefix:
  assumes "prefix data (wire enc rest)" and "sized rest"
  shows "\<exists>out rest' stored. try_decode_loop dec data acc = Some (Done (acc @ out, stored)) \<and>
    rest = out @ rest' \<and> data = wire enc out @ stored \<and> between enc rest' stored"
  using assms
proof (induction rest arbitrary: data acc)
  case Nil
  then show ?case
    by (simp add: try_decode_loop.simps decode_size_def dec_Nil between_def)
next
  case (Cons m rest)
  from Cons.prems(1) show ?case
  proof (cases rule: prefix_wire_cases)
    case cut
    with Cons.prems(2) show ?thesis
      by (intro exI [of _ "[]"] exI [of _ "m # rest"] exI [of _ data]) (simp add: try_decode_loop_cut)
  next
    case (whole m' rest' data')
    then have m: "length m < 2 ^ 64" "sized rest" "prefix data' (wire enc rest)"
      using Cons.prems(2) by (auto simp: sized_def)
    obtain out rest'' stored where IH: "try_decode_loop dec data' (acc @ [m]) = Some (Done ((acc @ [m]) @ out, stored))"
      "rest = out @ rest''" "data' = wire enc out @ stored" "between enc rest'' stored"
      using Cons.IH [OF m(3,2), of "acc @ [m]"] by blast
    show ?thesis
    proof (cases "data' = []")
      case True
      have "try_decode_loop dec data acc = Some (Done (acc @ [m], []))"
        using whole m True try_decode_loop_whole [of m "[]" acc] by simp
      with whole True show ?thesis
        by (intro exI [of _ "[m]"] exI [of _ rest] exI [of _ "[]"]) (simp add: between_def)
    next
      case False
      with whole m IH show ?thesis
        by (intro exI [of _ "m # out"] exI [of _ rest''] exI [of _ stored])
          (auto simp: try_decode_loop_whole)
    qed
  qed
qed

lemma try_decode_consumes:
  "prefix data (wire enc rest) \<Longrightarrow> sized rest \<Longrightarrow> consumes enc rest data (try_decode dec [] data)"
  using try_decode_loop_prefix [of data rest "[]"] by (fastforce simp: consumes_def try_decode_def)


text \<open>The header of the frame under reassembly is readable: the message is completed or grows.\<close>

lemma store_known:
  assumes "stored = enc (length m) @ q" and "prefix q m" and "dec stored = Some (length m, length (enc (length m)))"
    and "prefix (q @ data) (m @ wire enc rest)"
  shows "store_and_decoded_data debug dec stored data =
    (if length (q @ data) < length m then Done (None, stored @ data)
     else Done (Some (m, drop (length m - length q) data), frame enc m))"
proof -
  have le: "length q \<le> length m" using assms(2) by (rule prefix_length_le)
  have m: "q @ take (length m - length q) data = m" if "\<not> length (q @ data) < length m"
  proof -
    obtain zs where "m @ wire enc rest = (q @ data) @ zs" using assms(4) by (rule prefixE)
    then have "m = take (length m) ((q @ data) @ zs)" by (metis append_eq_conv_conj)
    then show ?thesis using that le by simp
  qed
  have "dec (enc (length m) @ q) = Some (length m, length (enc (length m)))"
    using assms(1,3) by simp
  then have step: "store_and_decoded_data debug dec stored data =
      (if length data < length m - length q then Done (None, stored @ data)
       else Done (Some (q @ take (length m - length q) data, drop (length m - length q) data),
         stored @ take (length m - length q) data))"
    using le by (simp add: store_and_decoded_data_def decode_size_def assms(1) usize_sub_def Let_def)
  show ?thesis
  proof (cases "length (q @ data) < length m")
    case True
    with step show ?thesis by simp
  next
    case False
    then have "\<not> length data < length m - length q" by simp
    with step m [OF False] False show ?thesis
      by (simp add: assms(1) frame_def encode_size_def)
  qed
qed

lemma store_header_completed:
  assumes "dec stored = None" and "length stored \<le> MAX_ENCODED_SIZE"
    and "t = min (MAX_ENCODED_SIZE - length stored) (length data)"
  shows "store_and_decoded_data debug dec stored data =
    (if dec (stored @ take t data) = None then Done (None, stored @ take t data)
     else store_and_decoded_data debug dec (stored @ take t data) (drop t data))"
  using assms
  by (auto simp: store_and_decoded_data_def decode_size_def usize_sub_def Let_def split: option.splits)

lemma decode_incomplete:
  assumes "stored \<noteq> []" and "store_and_decoded_data debug dec stored data = Done (None, stored @ data)"
    and "strict_prefix (stored @ data) (frame enc m)"
  shows "consumes enc (m # rest) (stored @ data) (decode debug dec stored data)"
  using assms by (auto simp: decode_def consumes_def between_def)

lemma decode_complete:
  assumes "stored \<noteq> []" and "store_and_decoded_data debug dec stored data = Done (Some (m, data'), st)"
    and "stored @ data = frame enc m @ data'" and "prefix data' (wire enc rest)" and "sized rest"
  shows "consumes enc (m # rest) (stored @ data) (decode debug dec stored data)"
proof -
  obtain out rest' st' where "try_decode dec [] data' = Some (Done (out, st'))"
    "rest = out @ rest'" "data' = wire enc out @ st'" "between enc rest' st'"
    using try_decode_consumes [OF assms(4,5)] by (auto simp: consumes_def)
  then show ?thesis
    using assms(1-3) unfolding consumes_def
    by (intro exI [of _ "m # out"] exI [of _ rest'] exI [of _ st']) (simp add: decode_def)
qed

text \<open>Once the header is readable the two cases above cover every chunk.\<close>

lemma decode_known:
  assumes "stored \<noteq> []"
    and store: "store_and_decoded_data debug dec stored data = store_and_decoded_data debug dec stored1 data1"
    and eq: "stored @ data = stored1 @ data1" and q: "stored1 = enc (length m) @ q" "prefix q m"
    and m: "length m < 2 ^ 64" and stream: "prefix (stored @ data) (frame enc m @ wire enc rest)" and "sized rest"
  shows "consumes enc (m # rest) (stored @ data) (decode debug dec stored data)"
proof -
  have body: "prefix (q @ data1) (m @ wire enc rest)"
    using stream by (simp add: eq q(1) frame_def encode_size_def)
  note known = store_known [OF q(1,2) dec_enc [OF m, of q, folded q(1)] body]
  show ?thesis
  proof (cases "length (q @ data1) < length m")
    case True
    then have "prefix (q @ data1) m" by (intro prefix_append_short [OF body]) simp
    with True have "strict_prefix (stored @ data) (frame enc m)"
      by (auto simp: eq q(1) frame_def encode_size_def strict_prefix_def)
    with True known store eq assms(1) show ?thesis by (intro decode_incomplete) simp_all
  next
    case False
    then obtain ys where ys: "q @ data1 = m @ ys" using prefix_append_long [OF body] by auto
    then have "ys = drop (length m - length q) data1"
      using q(2) by (metis append_eq_conv_conj append_take_drop_id drop_append drop_all prefix_length_le append_Nil)
    with ys body False known store eq assms show ?thesis
      by (intro decode_complete [of _ _ _ m ys "frame enc m"]) (simp_all add: frame_def encode_size_def)
  qed
qed

lemma decode_in_header:
  assumes "stored \<noteq> []" and none: "dec stored = None" and hd: "strict_prefix stored (enc (length m))"
    and m: "length m < 2 ^ 64" and stream: "prefix (stored @ data) (frame enc m @ wire enc rest)" and "sized rest"
  shows "consumes enc (m # rest) (stored @ data) (decode debug dec stored data)"
proof -
  let ?h = "enc (length m)"
  define t where "t = min (MAX_ENCODED_SIZE - length stored) (length data)"
  define stored1 where "stored1 = stored @ take t data"
  have lt: "length stored < length ?h" "length ?h \<le> MAX_ENCODED_SIZE"
    using strict_prefix_length [OF hd] enc_bound [OF m] by simp_all
  have eq: "stored @ data = stored1 @ drop t data" by (simp add: stored1_def)
  have p1: "prefix stored1 (?h @ m @ wire enc rest)"
    using stream unfolding eq by (auto simp: frame_def encode_size_def intro: append_prefixD)
  have store: "store_and_decoded_data debug dec stored data =
    (if dec stored1 = None then Done (None, stored1) else store_and_decoded_data debug dec stored1 (drop t data))"
    using store_header_completed [OF none _ t_def] lt by (simp add: stored1_def)
  show ?thesis
  proof (cases "length stored1 < length ?h")
    case True
    then have all: "take t data = data"
      using lt by (auto simp: stored1_def t_def min_def split: if_splits)
    have "prefix stored1 ?h" using True by (intro prefix_append_short [OF p1]) simp
    with True have "strict_prefix stored1 ?h" by (auto simp: strict_prefix_def)
    then have "dec stored1 = None" "strict_prefix stored1 (frame enc m)"
      using dec_partial [OF m] by (auto simp: frame_def encode_size_def strict_prefix_def prefix_append)
    with store all assms(1) show ?thesis
      by (intro decode_incomplete) (simp_all add: stored1_def)
  next
    case False
    then obtain q where q: "stored1 = ?h @ q" "prefix q (m @ wire enc rest)"
      using prefix_append_long [OF p1] by auto
    have "1 < length ?h" using lt(1) assms(1) by (cases stored) simp_all
    then have "128 \<le> length m" using enc_short [of "length m"] by (cases "length m < 128") simp_all
    moreover have "length stored1 \<le> MAX_ENCODED_SIZE" using lt by (auto simp: stored1_def t_def)
    ultimately have "length q \<le> length m" using q(1) by (simp add: MAX_ENCODED_SIZE_def)
    with q(2) have "prefix q m" by (rule prefix_append_short)
    with q store eq m stream assms(1,6) show ?thesis
      by (intro decode_known [of _ _ _ stored1 "drop t data" m q]) (simp_all add: dec_enc)
  qed
qed

lemma decode_consumes:
  assumes "between enc rest stored" and "prefix (stored @ data) (wire enc rest)" and "sized rest"
  shows "consumes enc rest (stored @ data) (decode debug dec stored data)"
proof (cases "stored = []")
  case True
  with assms show ?thesis by (simp add: decode_def try_decode_consumes)
next
  case False
  then obtain m rest' where rest: "rest = m # rest'" and cut: "strict_prefix stored (frame enc m)"
    using assms(1) by (auto simp: between_def)
  then have m: "length m < 2 ^ 64" "sized rest'"
    using assms(3) by (auto simp: sized_def)
  have stream: "prefix (stored @ data) (frame enc m @ wire enc rest')"
    using assms(2) by (simp add: rest)
  from dec_cut [OF cut m(1)] show ?thesis
  proof (elim disjE exE conjE)
    fix q
    assume "stored = enc (length m) @ q" "strict_prefix q m"
    with False m stream show ?thesis
      unfolding rest by (intro decode_known [of _ _ _ stored data m q]) simp_all
  next
    assume none: "dec stored = None" and hd: "strict_prefix stored (enc (length m))"
    show ?thesis
      unfolding rest by (rule decode_in_header [OF False none hd m(1) stream m(2)])
  qed
qed

lemma decode_chunks_consumes:
  assumes "between enc rest stored" and "prefix (stored @ concat cs) (wire enc rest)" and "sized rest"
  shows "consumes enc rest (stored @ concat cs) (decode_chunks debug dec stored cs)"
  using assms
proof (induction cs arbitrary: rest stored)
  case Nil
  then show ?case by (auto simp: consumes_def)
next
  case (Cons c cs)
  have "prefix (stored @ c) (wire enc rest)"
    using Cons.prems(2) by (metis append_assoc append_prefixD concat.simps(2))
  then obtain out rest' st where d: "decode debug dec stored c = Some (Done (out, st))"
    and r: "rest = out @ rest'" "stored @ c = wire enc out @ st" "between enc rest' st"
    using decode_consumes [OF Cons.prems(1) _ Cons.prems(3), of c debug] by (auto simp: consumes_def)
  have "prefix (st @ concat cs) (wire enc rest')"
    using Cons.prems(2) r(2) by (simp add: r(1) append_assoc [symmetric] del: append_assoc) simp
  moreover have "sized rest'" using Cons.prems(3) by (simp add: sized_def r(1))
  ultimately obtain out' rest'' st' where IH: "decode_chunks debug dec st cs = Some (Done (out', st'))"
    "rest' = out' @ rest''" "st @ concat cs = wire enc out' @ st'" "between enc rest'' st'"
    using Cons.IH [OF r(3)] by (auto simp: consumes_def)
  have "stored @ concat (c # cs) = wire enc (out @ out') @ st'"
    using r(2) IH(3) by (metis append_assoc concat.simps(2) concat_append map_append)
  then show ?case
    using d r(1) IH unfolding consumes_def
    by (intro exI [of _ "out @ out'"] exI [of _ rest''] exI [of _ st']) simp
qed

lemma wire_position_unique:
  assumes "wire enc rest = stored" and "between enc rest stored" and "sized rest"
  shows "rest = []"
proof (cases rest)
  case (Cons m rest')
  have "frame enc m \<noteq> []"
    using enc_nonempty [of "length m"] assms(3) by (simp add: Cons sized_def frame_def encode_size_def)
  with assms(1,2) Cons show ?thesis by (auto simp: between_def strict_prefix_def prefix_def)
qed simp

end

section \<open>A codec that satisfies the interface\<close>

text \<open>Base-128 groups, least significant first, the high bit set on all but the last byte.\<close>

fun leb_enc :: "nat \<Rightarrow> bytes" where
  "leb_enc n = (if n < 128 then [of_nat n] else of_nat (n mod 128 + 128) # leb_enc (n div 128))"

declare leb_enc.simps [simp del]

fun leb_dec_upto :: "nat \<Rightarrow> bytes \<Rightarrow> (nat \<times> nat) option" where
  "leb_dec_upto 0 bs = None"
| "leb_dec_upto (Suc k) [] = None"
| "leb_dec_upto (Suc k) (b # bs) =
     (if b < 128 then Some (unat b, 1)
      else map_option (\<lambda>(v, used). (unat b - 128 + 128 * v, Suc used)) (leb_dec_upto k bs))"

definition leb_dec :: "bytes \<Rightarrow> (nat \<times> nat) option" where
  "leb_dec = leb_dec_upto MAX_ENCODED_SIZE"

lemma leb_byte:
  fixes b :: u8
  shows "n < 128 \<Longrightarrow> b = of_nat n \<Longrightarrow> b < 128 \<and> unat b = n"
    and "n < 128 \<Longrightarrow> b = of_nat (n + 128) \<Longrightarrow> \<not> b < 128 \<and> unat b = n + 128"
  by (simp_all add: word_less_nat_alt unat_of_nat del: of_nat_add)

lemma leb_enc_length: "n < 128 ^ Suc k \<Longrightarrow> length (leb_enc n) \<le> Suc k"
proof (induction k arbitrary: n)
  case 0
  then show ?case by (subst leb_enc.simps) simp
next
  case (Suc k)
  then have "n div 128 < 128 ^ Suc k" by (simp add: less_mult_imp_div_less mult.commute)
  with Suc.IH show ?case by (subst leb_enc.simps) simp
qed

lemma leb_dec_enc: "n < 128 ^ Suc k \<Longrightarrow> leb_dec_upto (Suc k) (leb_enc n @ xs) = Some (n, length (leb_enc n))"
proof (induction k arbitrary: n)
  case 0
  with leb_byte(1) [of n, OF _ refl] show ?case by (simp add: leb_enc.simps [of n])
next
  case (Suc k)
  show ?case
  proof (cases "n < 128")
    case True
    with leb_byte(1) [OF True refl] show ?thesis by (simp add: leb_enc.simps [of n])
  next
    case False
    have "n div 128 < 128 ^ Suc k" using Suc.prems by (simp add: less_mult_imp_div_less mult.commute)
    with Suc.IH leb_byte(2) [of "n mod 128", OF _ refl] False show ?thesis
      by (simp add: leb_enc.simps [of n])
  qed
qed

lemma leb_dec_partial: "strict_prefix p (leb_enc n) \<Longrightarrow> leb_dec_upto k p = None"
proof (induction n arbitrary: p k rule: leb_enc.induct)
  case (1 n)
  show ?case
  proof (cases p)
    case Nil
    then show ?thesis by (cases k) simp_all
  next
    case (Cons b p')
    show ?thesis
    proof (cases "n < 128")
      case True
      with 1(2) Cons show ?thesis by (auto simp: leb_enc.simps [of n] strict_prefix_def)
    next
      case False
      with 1(2) Cons have "b = of_nat (n mod 128 + 128)" "strict_prefix p' (leb_enc (n div 128))"
        by (simp_all add: leb_enc.simps [of n] strict_prefix_def)
      with 1(1) [OF False] leb_byte(2) [of "n mod 128" b] Cons show ?thesis by (cases k) simp_all
    qed
  qed
qed

interpretation leb: varint_codec leb_enc leb_dec
proof unfold_locales
  fix n :: nat and xs p :: bytes
  show "leb_dec (leb_enc n @ xs) = Some (n, length (leb_enc n))" if "n < 2 ^ 64"
    using that leb_dec_enc [of n 9 xs] by (simp add: leb_dec_def MAX_ENCODED_SIZE_def)
  show "leb_dec p = None" if "strict_prefix p (leb_enc n)"
    using that by (simp add: leb_dec_def leb_dec_partial)
  show "leb_enc n \<noteq> []" by (subst leb_enc.simps) simp
  show "length (leb_enc n) \<le> MAX_ENCODED_SIZE" if "n < 2 ^ 64"
    using that leb_enc_length [of n 9] by (simp add: MAX_ENCODED_SIZE_def)
  show "length (leb_enc n) = 1" if "n < 128"
    using that by (subst leb_enc.simps) simp
qed

section \<open>Properties\<close>

text \<open>
  C4: Whatever the chunks a stream of framed messages arrives in, and however far it has
  arrived, the decoder neither panics nor loops: the messages passed to the callback are exactly
  the messages whose frames have arrived completely, in order, and \<open>stored\<close> holds exactly the
  bytes of the frame that is still incomplete.
\<close>
theorem decode_chunks_reassembles:
  assumes "varint_codec enc dec" and "\<forall>m \<in> set ms. length m < 2 ^ 64"
    and "prefix (concat chunks) (wire enc ms)"
  shows "\<exists>out rest stored. decode_chunks debug dec [] chunks = Some (Done (out, stored)) \<and>
    ms = out @ rest \<and> concat chunks = wire enc out @ stored \<and>
    (stored = [] \<or> (\<exists>m rest'. rest = m # rest' \<and> strict_prefix stored (frame enc m)))"
proof -
  have "consumes enc ms (concat chunks) (decode_chunks debug dec [] chunks)"
    using varint_codec.decode_chunks_consumes [OF assms(1), of ms "[]" chunks debug] assms(2,3)
    by (simp add: between_def sized_def)
  then show ?thesis by (auto simp: consumes_def between_def)
qed

theorem decode_chunks_reassembles_witness:
  "\<exists>out rest stored. decode_chunks True leb_dec [] [[2, 7], [8, 1], []] = Some (Done (out, stored)) \<and>
    [[7, 8], [9]] = out @ rest \<and> concat [[2, 7], [8, 1], []] = wire leb_enc out @ stored \<and>
    (stored = [] \<or> (\<exists>m rest'. rest = m # rest' \<and> strict_prefix stored (frame leb_enc m)))"
  by (rule decode_chunks_reassembles [OF leb.varint_codec_axioms])
    (simp_all add: frame_def encode_size_def leb_enc.simps)

text \<open>
  A completely received stream is decoded to exactly the messages sent, in order, and
  leaves nothing stored.
\<close>
theorem decode_chunks_complete:
  assumes "varint_codec enc dec" and "\<forall>m \<in> set ms. length m < 2 ^ 64" and "concat chunks = wire enc ms"
  shows "decode_chunks debug dec [] chunks = Some (Done (ms, []))"
proof -
  have sized: "sized ms" using assms(2) by (simp add: sized_def)
  have "consumes enc ms (concat chunks) (decode_chunks debug dec [] chunks)"
    using varint_codec.decode_chunks_consumes [OF assms(1), of ms "[]" chunks debug] sized assms(3)
    by (simp add: between_def)
  then obtain out rest stored where r: "decode_chunks debug dec [] chunks = Some (Done (out, stored))"
    "ms = out @ rest" "concat chunks = wire enc out @ stored" "between enc rest stored"
    by (auto simp: consumes_def)
  then have "wire enc rest = stored" using assms(3) by simp
  moreover have "sized rest" using sized by (simp add: sized_def r(2))
  ultimately have "rest = []"
    using varint_codec.wire_position_unique [OF assms(1)] r(4) by blast
  with r assms(3) show ?thesis by simp
qed

theorem decode_chunks_complete_witness:
  "decode_chunks False leb_dec [] [[2], [7, 8, 0, 1], [9]] = Some (Done ([[7, 8], [], [9]], []))"
  by (rule decode_chunks_complete [OF leb.varint_codec_axioms])
    (simp_all add: frame_def encode_size_def leb_enc.simps)

text \<open>
  C33: A header that stays undecodable is not bounded. A chunk whose first bytes are no complete header is stored whole; when it
  is longer than \<open>MAX_ENCODED_SIZE\<close>, the next call of \<open>decode\<close> underflows in the subtraction
  \<open>MAX_ENCODED_SIZE - stored.len()\<close>: a debug build panics, and a release build stores whatever arrives. The
  second subtraction underflows too: when a header that is split over two chunks turns out to announce a message
  shorter than the bytes already taken along with it, as an overlong header does, a debug build panics, and a release
  build keeps the bytes and reports no message.
\<close>
theorem decode_overlong_header:
  assumes "overlong \<noteq> []" and "dec overlong = None" and "length overlong < 2 ^ 64"
  shows "(MAX_ENCODED_SIZE < length overlong \<longrightarrow>
      decode_chunks True dec [] [overlong, more] = Some Panic \<and>
      (dec (overlong @ more) = None \<and> length (overlong @ more) < 2 ^ 64 \<longrightarrow>
        decode_chunks False dec [] [overlong, more] = Some (Done ([], overlong @ more)))) \<and>
    (length (overlong @ more) \<le> MAX_ENCODED_SIZE \<and> dec (overlong @ more) = Some (expected, used) \<and>
       used \<le> length (overlong @ more) \<and> expected < length (overlong @ more) - used \<longrightarrow>
      decode_chunks True dec [] [overlong, more] = Some Panic \<and>
      decode_chunks False dec [] [overlong, more] = Some (Done ([], overlong @ more)))"
proof -
  have first: "decode dbg dec [] overlong = Some (Done ([], overlong))" for dbg
    using assms(2) by (simp add: decode_def try_decode_def try_decode_loop.simps decode_size_def)
  show ?thesis
  proof (intro conjI impI)
    assume long: "MAX_ENCODED_SIZE < length overlong"
    then have "decode True dec overlong more = Some Panic"
      using assms by (simp add: decode_def store_and_decoded_data_def decode_size_def usize_sub_def)
    then show "decode_chunks True dec [] [overlong, more] = Some Panic" by (simp add: first)
    assume more: "dec (overlong @ more) = None \<and> length (overlong @ more) < 2 ^ 64"
    then have "length overlong + length more < 18446744073709551616" by simp
    then have "length more \<le> 2 ^ 64 + MAX_ENCODED_SIZE - length overlong" unfolding MAX_ENCODED_SIZE_def by simp
    then have "min (2 ^ 64 + MAX_ENCODED_SIZE - length overlong) (length more) = length more" by simp
    with long more assms have "decode False dec overlong more = Some (Done ([], overlong @ more))"
      by (simp add: decode_def store_and_decoded_data_def decode_size_def usize_sub_def)
    then show "decode_chunks False dec [] [overlong, more] = Some (Done ([], overlong @ more))" by (simp add: first)
  next
    assume short: "length (overlong @ more) \<le> MAX_ENCODED_SIZE \<and> dec (overlong @ more) = Some (expected, used) \<and>
       used \<le> length (overlong @ more) \<and> expected < length (overlong @ more) - used"
    then have "min (MAX_ENCODED_SIZE - length overlong) (length more) = length more" by (auto simp: min_def)
    with short assms(1,2) have "decode True dec overlong more = Some Panic"
      "decode False dec overlong more = Some (Done ([], overlong @ more))"
      by (simp_all add: decode_def store_and_decoded_data_def decode_size_def usize_sub_def MAX_ENCODED_SIZE_def)
    then show "decode_chunks True dec [] [overlong, more] = Some Panic"
      "decode_chunks False dec [] [overlong, more] = Some (Done ([], overlong @ more))" by (simp_all add: first)
  qed
qed

theorem decode_overlong_header_witness:
  "decode_chunks True leb_dec [] [replicate 11 0x80, [1]] = Some Panic \<and>
   decode_chunks True leb_dec [] [[0x81], [0, 7, 8, 9]] = Some Panic \<and>
   decode_chunks False leb_dec [] [[0x81], [0, 7, 8, 9]] = Some (Done ([], [0x81, 0, 7, 8, 9]))"
proof -
  have none: "leb_dec (replicate 11 0x80) = None" "leb_dec [0x81] = None" and some: "leb_dec [0x81, 0, 7, 8, 9] = Some (1, 2)"
    by code_simp+
  show ?thesis
    using decode_overlong_header [of "replicate 11 0x80" leb_dec "[1]" 0 0] decode_overlong_header [of "[0x81]" leb_dec "[0, 7, 8, 9]" 1 2]
      none some
    by (simp add: MAX_ENCODED_SIZE_def)
qed

end
