(* ===== verification/Resource_Id.thy ===== *)
theory Resource_Id
  imports Prelude
begin

text \<open>
  \<open>src/src/network/resource_id.rs\<close>: the packed 64-bit resource identifier, its constructor with
  the debug assertions, its field accessors and the id generator; and the token conversions of
  \<open>src/src/network/poll.rs\<close> built on the reserved byte.
\<close>

section \<open>Layout\<close>

datatype ResourceType = Local | Remote

datatype ResourceId = ResourceId (raw: usize)

definition RESERVED_BYTES_POS :: nat where [word_consts]: "RESERVED_BYTES_POS = 56"
definition RESERVED_BYTES_MASK :: usize where [word_consts]: "RESERVED_BYTES_MASK = 0xFF00000000000000"
definition RESOURCE_TYPE_POS :: nat where [word_consts]: "RESOURCE_TYPE_POS = 55"
definition ADAPTER_ID_POS :: nat where [word_consts]: "ADAPTER_ID_POS = 48"
definition BASE_VALUE_POS :: nat where [word_consts]: "BASE_VALUE_POS = 0"
definition ADAPTER_ID_MASK :: usize where [word_consts]: "ADAPTER_ID_MASK = 0x007F000000000000"
definition BASE_VALUE_MASK :: usize where [word_consts]: "BASE_VALUE_MASK = 0x0000FFFFFFFFFFFF"
definition MAX_BASE_VALUE :: usize where
  [word_consts]: "MAX_BASE_VALUE = drop_bit BASE_VALUE_POS BASE_VALUE_MASK"
definition MAX_ADAPTER_ID :: u8 where
  [word_consts]: "MAX_ADAPTER_ID = ucast (drop_bit ADAPTER_ID_POS ADAPTER_ID_MASK)"
definition MAX_ADAPTERS :: usize where [word_consts]: "MAX_ADAPTERS = ucast MAX_ADAPTER_ID + 1"

section \<open>Construction and accessors\<close>

definition pack :: "u8 \<Rightarrow> ResourceType \<Rightarrow> usize \<Rightarrow> ResourceId" where
  "pack adapter_id resource_type base_value =
     ResourceId ((case resource_type of Local \<Rightarrow> push_bit RESOURCE_TYPE_POS 1 | Remote \<Rightarrow> 0)
       OR push_bit ADAPTER_ID_POS (ucast adapter_id)
       OR push_bit BASE_VALUE_POS base_value)"

text \<open>
  \<open>ResourceId::new\<close>; \<open>debug\<close> says whether the crate is built with debug assertions.
\<close>

definition ResourceId_new :: "bool \<Rightarrow> u8 \<Rightarrow> ResourceType \<Rightarrow> usize \<Rightarrow> ResourceId exec" where
  "ResourceId_new debug adapter_id resource_type base_value =
     xbind (assert_that (debug \<longrightarrow> adapter_id \<le> MAX_ADAPTER_ID)) (\<lambda>_.
     xbind (assert_that (debug \<longrightarrow> base_value \<le> MAX_BASE_VALUE)) (\<lambda>_.
     Done (pack adapter_id resource_type base_value)))"

definition resource_type :: "ResourceId \<Rightarrow> ResourceType" where
  "resource_type r = (if raw r AND push_bit RESOURCE_TYPE_POS 1 \<noteq> 0 then Local else Remote)"

definition is_local :: "ResourceId \<Rightarrow> bool" where
  "is_local r \<longleftrightarrow> resource_type r = Local"

definition is_remote :: "ResourceId \<Rightarrow> bool" where
  "is_remote r \<longleftrightarrow> resource_type r = Remote"

definition adapter_id :: "ResourceId \<Rightarrow> u8" where
  "adapter_id r = ucast (drop_bit ADAPTER_ID_POS (raw r AND ADAPTER_ID_MASK))"

definition base_value :: "ResourceId \<Rightarrow> usize" where
  "base_value r = drop_bit BASE_VALUE_POS (raw r AND BASE_VALUE_MASK)"

section \<open>Generator\<close>

text \<open>\<open>fetch_add\<close> returns the old counter and wraps around at \<open>2 ^ 64\<close>.\<close>

record ResourceIdGenerator =
  last_id :: usize
  gen_type :: ResourceType

definition ResourceIdGenerator_new :: "ResourceType \<Rightarrow> ResourceIdGenerator" where
  "ResourceIdGenerator_new t = \<lparr>last_id = 1, gen_type = t\<rparr>"

definition generate ::
  "bool \<Rightarrow> ResourceIdGenerator \<Rightarrow> u8 \<Rightarrow> (ResourceId \<times> ResourceIdGenerator) exec" where
  "generate debug g a =
     xbind (ResourceId_new debug a (gen_type g) (last_id g))
       (\<lambda>r. Done (r, g\<lparr>last_id := last_id g + 1\<rparr>))"

text \<open>Several generations in a row, in the order the atomic counter serialises them.\<close>

fun generate_all ::
  "bool \<Rightarrow> ResourceIdGenerator \<Rightarrow> u8 list \<Rightarrow> (ResourceId list \<times> ResourceIdGenerator) exec" where
  "generate_all debug g [] = Done ([], g)"
| "generate_all debug g (a # as) =
     xbind (generate debug g a) (\<lambda>(r, g').
     xbind (generate_all debug g' as) (\<lambda>(rs, g''). Done (r # rs, g'')))"

section \<open>Poll tokens\<close>

datatype Token = Token (token_raw: usize)

definition WAKER_TOKEN :: Token where "WAKER_TOKEN = Token 0"

definition ResourceId_from_token :: "Token \<Rightarrow> ResourceId" where
  "ResourceId_from_token t = ResourceId (token_raw t AND NOT RESERVED_BYTES_MASK)"

definition Token_from_id :: "ResourceId \<Rightarrow> Token" where
  "Token_from_id r =
     Token ((raw r AND NOT RESERVED_BYTES_MASK) OR push_bit RESERVED_BYTES_POS 0x55)"

section \<open>Bit layout of the constants\<close>

lemma BASE_VALUE_MASK_eq: "BASE_VALUE_MASK = mask 48"
  by (simp add: BASE_VALUE_MASK_def mask_eq_exp_minus_1)

lemma ADAPTER_ID_MASK_eq: "ADAPTER_ID_MASK = push_bit 48 (mask 7)"
  by (simp add: ADAPTER_ID_MASK_def mask_eq_exp_minus_1 push_bit_eq_mult)

lemma RESERVED_BYTES_MASK_eq: "RESERVED_BYTES_MASK = push_bit 56 (mask 8)"
  by (simp add: RESERVED_BYTES_MASK_def mask_eq_exp_minus_1 push_bit_eq_mult)

lemma MAX_vals:
  "MAX_BASE_VALUE = mask 48" "MAX_ADAPTER_ID = 127" "MAX_ADAPTERS = 128"
  by (simp_all add: MAX_BASE_VALUE_def BASE_VALUE_POS_def BASE_VALUE_MASK_eq MAX_ADAPTERS_def
      MAX_ADAPTER_ID_def ADAPTER_ID_MASK_def ADAPTER_ID_POS_def drop_bit_eq_div)

section \<open>Fields of a packed identifier\<close>

lemma base_le_bit: "b \<le> MAX_BASE_VALUE \<Longrightarrow> 48 \<le> n \<Longrightarrow> \<not> bit b n"
proof -
  assume "b \<le> MAX_BASE_VALUE" and n: "48 \<le> n"
  then have "unat b \<le> unat (mask 48 :: usize)" by (simp add: MAX_vals word_le_nat_alt)
  then have "unat b < 2 ^ 48" by (simp add: mask_eq_exp_minus_1)
  then show ?thesis using n by (rule unat_less_pow_bit)
qed

lemma adapter_le_bit: "a \<le> MAX_ADAPTER_ID \<Longrightarrow> 7 \<le> n \<Longrightarrow> \<not> bit a n"
proof -
  assume "a \<le> MAX_ADAPTER_ID" and n: "7 \<le> n"
  then have "unat a < 2 ^ 7" by (simp add: MAX_vals word_le_nat_alt)
  then show ?thesis using n by (rule unat_less_pow_bit)
qed

lemma bit_type_flag: "bit (push_bit RESOURCE_TYPE_POS 1 :: usize) n \<longleftrightarrow> n = 55"
  unfolding bit_push_bit_iff by (auto simp: RESOURCE_TYPE_POS_def bit_1_iff)

lemmas bit_type_flags = bit_type_flag bit_type_flag [unfolded push_bit_of_1]

lemma bit_reserved_tag: "bit (push_bit RESERVED_BYTES_POS 0x55 :: usize) n \<Longrightarrow> 56 \<le> n"
  unfolding bit_push_bit_iff by (auto simp: RESERVED_BYTES_POS_def)

lemma bit_pack:
  assumes "a \<le> MAX_ADAPTER_ID" and "b \<le> MAX_BASE_VALUE" and "n < 64"
  shows "bit (raw (pack a t b)) n \<longleftrightarrow>
    (if n < 48 then bit b n else if n < 55 then bit a (n - 48) else n = 55 \<and> t = Local)"
  using base_le_bit [OF assms(2), of n] adapter_le_bit [OF assms(1), of "n - 48"] assms(3)
  by (cases t) (auto simp: pack_def ADAPTER_ID_POS_def BASE_VALUE_POS_def bit_type_flags bit_or_iff bit_push_bit_iff bit_ucast_iff)

lemma resource_type_bit: "resource_type r = (if bit (raw r) 55 then Local else Remote)"
proof -
  have "raw r AND push_bit RESOURCE_TYPE_POS 1 = 0 \<longleftrightarrow> \<not> bit (raw r) 55"
    by (auto simp: bit_eq_iff [of _ "0 :: usize"] bit_and_iff bit_type_flags dest!: spec [of _ 55])
  then show ?thesis by (simp add: resource_type_def)
qed

lemma bit_adapter_id: "bit (adapter_id r) n \<longleftrightarrow> n < 7 \<and> bit (raw r) (n + 48)"
  by (auto simp: adapter_id_def ADAPTER_ID_POS_def ADAPTER_ID_MASK_eq bit_simps add.commute)

lemma bit_base_value: "bit (base_value r) n \<longleftrightarrow> n < 48 \<and> bit (raw r) n"
  by (auto simp: base_value_def BASE_VALUE_POS_def BASE_VALUE_MASK_eq bit_simps)

lemma adapter_id_le: "adapter_id r \<le> MAX_ADAPTER_ID"
proof -
  have "adapter_id r = take_bit 7 (adapter_id r)"
    by (rule bit_word_eqI) (auto simp: bit_take_bit_iff bit_adapter_id)
  then have "unat (adapter_id r) < 2 ^ 7" by (metis unsigned_take_bit_eq take_bit_nat_less_exp)
  then show ?thesis by (simp add: MAX_vals word_le_nat_alt)
qed

lemma pack_fields:
  assumes "a \<le> MAX_ADAPTER_ID" and "b \<le> MAX_BASE_VALUE"
  shows "resource_type (pack a t b) = t"
    and "adapter_id (pack a t b) = a"
    and "base_value (pack a t b) = b"
    and "raw (pack a t b) AND RESERVED_BYTES_MASK = 0"
proof -
  show "resource_type (pack a t b) = t"
    using bit_pack [OF assms, of 55 t] by (cases t) (simp_all add: resource_type_bit)
  show "adapter_id (pack a t b) = a"
    by (rule bit_word_eqI)
      (use adapter_le_bit [OF assms(1)] in \<open>auto simp: bit_adapter_id bit_pack [OF assms] not_less\<close>)
  show "base_value (pack a t b) = b"
    by (rule bit_word_eqI)
      (use base_le_bit [OF assms(2)] in \<open>auto simp: bit_base_value bit_pack [OF assms] not_less\<close>)
  show "raw (pack a t b) AND RESERVED_BYTES_MASK = 0"
    by (rule bit_word_eqI) (auto simp: RESERVED_BYTES_MASK_eq bit_simps bit_pack [OF assms])
qed

lemma bit_RESERVED: "bit RESERVED_BYTES_MASK n \<longleftrightarrow> 56 \<le> n \<and> n < 64"
  by (auto simp: RESERVED_BYTES_MASK_eq bit_simps)

lemma token_roundtrip:
  "ResourceId_from_token (Token_from_id r) = ResourceId (raw r AND NOT RESERVED_BYTES_MASK)"
  by (auto simp: ResourceId_from_token_def Token_from_id_def bit_RESERVED bit_and_iff bit_or_iff
      bit_not_iff dest: bit_reserved_tag intro!: bit_word_eqI)

lemma token_not_waker: "Token_from_id r \<noteq> WAKER_TOKEN"
proof -
  have "bit (token_raw (Token_from_id r)) 56"
    by (simp add: Token_from_id_def bit_or_iff bit_push_bit_iff) (simp add: RESERVED_BYTES_POS_def)
  then show ?thesis by (auto simp: WAKER_TOKEN_def)
qed

lemma reserved_zero_iff: "raw r AND RESERVED_BYTES_MASK = 0 \<longleftrightarrow> raw r AND NOT RESERVED_BYTES_MASK = raw r"
  by (auto simp: bit_eq_iff bit_simps)

lemma Token_inj: "raw r AND RESERVED_BYTES_MASK = 0 \<Longrightarrow> raw s AND RESERVED_BYTES_MASK = 0 \<Longrightarrow>
  Token_from_id r = Token_from_id s \<longleftrightarrow> r = s"
  by (metis ResourceId.exhaust_sel reserved_zero_iff token_roundtrip)

lemma ResourceId_new_Done:
  "a \<le> MAX_ADAPTER_ID \<Longrightarrow> b \<le> MAX_BASE_VALUE \<Longrightarrow> ResourceId_new debug a t b = Done (pack a t b)"
  by (simp add: ResourceId_new_def)

lemma unat_le_MAX_BASE: "b \<le> MAX_BASE_VALUE \<longleftrightarrow> unat b < 2 ^ 48"
  by (simp add: MAX_vals word_le_nat_alt mask_eq_exp_minus_1) linarith

lemma generate_all_spec:
  assumes "unat (last_id g) + length as \<le> 2 ^ 48" and "\<forall>a \<in> set as. a \<le> MAX_ADAPTER_ID"
  shows "\<exists>rs g'. generate_all debug g as = Done (rs, g') \<and>
     rs = map2 (\<lambda>a n. pack a (gen_type g) (of_nat n)) as [unat (last_id g) ..< unat (last_id g) + length as]"
  using assms
proof (induction as arbitrary: g)
  case Nil
  then show ?case by simp
next
  case (Cons a as)
  let ?g = "g\<lparr>last_id := last_id g + 1\<rparr>"
  have lt: "unat (last_id g) < 2 ^ 48" using Cons.prems by simp
  then have le: "last_id g \<le> MAX_BASE_VALUE" by (simp add: unat_le_MAX_BASE)
  have suc: "unat (last_id g + 1) = Suc (unat (last_id g))"
    using lt by (simp add: unat_word_ariths)
  have "unat (last_id ?g) + length as \<le> 2 ^ 48" using Cons.prems suc by simp
  with Cons.prems obtain rs g' where IH: "generate_all debug ?g as = Done (rs, g')"
    "rs = map2 (\<lambda>a n. pack a (gen_type g) (of_nat n)) as [unat (last_id ?g) ..< unat (last_id ?g) + length as]"
    using Cons.IH [of ?g] by auto
  have "generate_all debug g (a # as) = Done (pack a (gen_type g) (last_id g) # rs, g')"
    using Cons.prems le IH(1) by (simp add: generate_def ResourceId_new_Done)
  moreover have "[unat (last_id g) ..< unat (last_id g) + length (a # as)] =
      unat (last_id g) # [unat (last_id ?g) ..< unat (last_id ?g) + length as]"
    using suc by (simp del: upt_Suc add: upt_rec [of "unat (last_id g)"])
  ultimately show ?case using IH(2) by simp
qed

lemma generate_all_ids:
  assumes "unat (last_id g) + length as \<le> 2 ^ 48" and "\<forall>a \<in> set as. a \<le> MAX_ADAPTER_ID"
  shows "\<exists>rs g'. generate_all debug g as = Done (rs, g') \<and> distinct rs \<and>
     map adapter_id rs = as \<and> (\<forall>r \<in> set rs. resource_type r = gen_type g) \<and>
     map (\<lambda>r. unat (base_value r)) rs = [unat (last_id g) ..< unat (last_id g) + length as]"
proof -
  let ?ns = "[unat (last_id g) ..< unat (last_id g) + length as]"
  obtain rs g' where gen: "generate_all debug g as = Done (rs, g')"
    and rs: "rs = map2 (\<lambda>a n. pack a (gen_type g) (of_nat n)) as ?ns"
    using generate_all_spec [OF assms] by blast
  have ok: "as ! i \<le> MAX_ADAPTER_ID \<and> of_nat (?ns ! i) \<le> MAX_BASE_VALUE \<and>
      unat (of_nat (?ns ! i) :: usize) = ?ns ! i" if "i < length as" for i
  proof -
    have "?ns ! i < 2 ^ 48" using that assms(1) by simp
    then have "unat (of_nat (?ns ! i) :: usize) = ?ns ! i" by (simp add: unat_of_nat)
    with \<open>?ns ! i < 2 ^ 48\<close> show ?thesis using that assms(2) by (simp add: unat_le_MAX_BASE)
  qed
  have len: "length rs = length as" by (simp add: rs)
  have nth: "rs ! i = pack (as ! i) (gen_type g) (of_nat (?ns ! i))" if "i < length as" for i
    using that by (simp add: rs)
  have base: "map (\<lambda>r. unat (base_value r)) rs = ?ns"
    by (rule nth_equalityI) (use len nth ok pack_fields(3) in \<open>auto simp del: upt_conv_Cons nth_upt\<close>)
  have "map adapter_id rs = as"
    by (rule nth_equalityI) (use len nth ok pack_fields(2) in \<open>auto simp del: nth_upt\<close>)
  moreover have "\<forall>r \<in> set rs. resource_type r = gen_type g"
    using len nth ok pack_fields(1) by (fastforce simp: in_set_conv_nth)
  moreover have "distinct rs"
    using base by (metis distinct_map distinct_upt)
  ultimately show ?thesis using gen base by blast
qed

text \<open>
  C32: The ids a generator hands out are pairwise distinct, carry the adapter id they were asked
  for and the generator's resource type, and number consecutively, in debug and in release
  builds alike, as long as the counter stays within the 48 bits of the base value.
\<close>
theorem generate_all_unique:
  assumes "unat (last_id g) + length as \<le> 2 ^ 48" and "\<forall>a \<in> set as. a \<le> MAX_ADAPTER_ID"
  shows "\<exists>rs g'. generate_all debug g as = Done (rs, g') \<and> distinct rs \<and>
     map adapter_id rs = as \<and> (\<forall>r \<in> set rs. resource_type r = gen_type g) \<and>
     map (\<lambda>r. unat (base_value r)) rs = [unat (last_id g) ..< unat (last_id g) + length as]"
  using assms by (rule generate_all_ids)

theorem generate_all_unique_witness:
  "\<exists>rs g'. generate_all True (ResourceIdGenerator_new Remote) [0, 2, 0] = Done (rs, g') \<and> distinct rs \<and>
     map adapter_id rs = [0, 2, 0] \<and> (\<forall>r \<in> set rs. resource_type r = Remote) \<and>
     map (\<lambda>r. unat (base_value r)) rs = [1 ..< 1 + length [0 :: u8, 2, 0]]"
  using generate_all_unique [of "ResourceIdGenerator_new Remote" "[0, 2, 0]" True]
  by (simp add: ResourceIdGenerator_new_def MAX_vals)

text \<open>
  An id built from an adapter id and a base value in range gives back its type, its adapter
  id and its base value, and leaves the reserved byte empty; out of range, the constructor of a
  debug build panics.
\<close>
theorem ResourceId_new_fields:
  "ResourceId_new True a t b = (if a \<le> MAX_ADAPTER_ID \<and> b \<le> MAX_BASE_VALUE then Done (pack a t b) else Panic) \<and>
   (a \<le> MAX_ADAPTER_ID \<and> b \<le> MAX_BASE_VALUE \<longrightarrow>
     resource_type (pack a t b) = t \<and> adapter_id (pack a t b) = a \<and> base_value (pack a t b) = b \<and>
     raw (pack a t b) AND RESERVED_BYTES_MASK = 0)"
  by (auto simp: ResourceId_new_def assert_that_def pack_fields)

theorem ResourceId_new_fields_witness:
  "ResourceId_new True 127 Local 5 = Done (pack 127 Local 5) \<and>
   resource_type (pack 127 Local 5) = Local \<and> adapter_id (pack 127 Local 5) = 127 \<and>
   base_value (pack 127 Local 5) = 5 \<and> raw (pack 127 Local 5) AND RESERVED_BYTES_MASK = 0"
proof -
  have "(127 :: u8) \<le> MAX_ADAPTER_ID \<and> (5 :: usize) \<le> MAX_BASE_VALUE"
    by (simp add: MAX_vals(2) unat_le_MAX_BASE)
  then show ?thesis using ResourceId_new_fields [of 127 Local 5] by simp
qed

text \<open>
  The token under which a resource is registered in the poll converts back to the resource's
  id exactly when the reserved byte of the id is empty, and never collides with the waker's token.
\<close>
theorem token_roundtrip_iff:
  "(ResourceId_from_token (Token_from_id r) = r \<longleftrightarrow> raw r AND RESERVED_BYTES_MASK = 0) \<and>
   Token_from_id r \<noteq> WAKER_TOKEN"
  using token_not_waker [of r]
  by (metis ResourceId.collapse ResourceId.sel reserved_zero_iff token_roundtrip)

end
