(* ===== verification/Net_Types.thy ===== *)
theory Net_Types
  imports Resource_Id
begin

text \<open>
  The plain data of the network layer: addresses (\<open>src/src/network/remote_addr.rs\<close>), endpoints
  (\<open>endpoint.rs\<close>), transports (\<open>transport.rs\<close>), connection settings (\<open>driver.rs\<close>), the statuses of
  the adapter interface (\<open>adapter.rs\<close>) and the events shown to the user (\<open>net_event.rs\<close>).
  All three transports are compiled in (features \<open>tcp\<close>, \<open>ssl\<close>, \<open>websocket\<close>).
\<close>

section \<open>Addresses\<close>

datatype SocketAddr = V4 u32 u16 | V6 "128 word" u16

datatype RemoteAddr = Socket SocketAddr | Str string

definition is_socket_addr :: "RemoteAddr \<Rightarrow> bool" where
  "is_socket_addr a = (case a of Socket _ \<Rightarrow> True | Str _ \<Rightarrow> False)"

text \<open>\<open>RemoteAddr::is_string\<close>, with the pattern the source has.\<close>

definition is_string :: "RemoteAddr \<Rightarrow> bool" where
  "is_string a = (case a of Socket _ \<Rightarrow> True | Str _ \<Rightarrow> False)"

definition socket_addr :: "RemoteAddr \<Rightarrow> SocketAddr exec" where
  "socket_addr a = (case a of Socket addr \<Rightarrow> Done addr | Str _ \<Rightarrow> Panic)"

definition addr_string :: "RemoteAddr \<Rightarrow> string exec" where
  "addr_string a = (case a of Str s \<Rightarrow> Done s | Socket _ \<Rightarrow> Panic)"

definition to_socket_addrs :: "RemoteAddr \<Rightarrow> io_error + SocketAddr list" where
  "to_socket_addrs a = (case a of Socket addr \<Rightarrow> Ok [addr] | Str _ \<Rightarrow> Err InvalidInput)"

text \<open>
  \<open>ToRemoteAddr\<close>: the string instances parse an \<open>ip:port\<close> address with \<open>str::parse\<close>, which is the
  parameter \<open>parse\<close>; the address instances wrap their value; the \<open>(host, port)\<close> instances take
  the first address the system resolver returns (\<open>resolved\<close>) and unwrap it.
\<close>

definition to_remote_addr_str :: "(string \<Rightarrow> 'e + SocketAddr) \<Rightarrow> string \<Rightarrow> io_error + RemoteAddr" where
  "to_remote_addr_str parse s = Ok (case parse s of Inr addr \<Rightarrow> Socket addr | Inl _ \<Rightarrow> Str s)"

definition to_remote_addr_socket :: "SocketAddr \<Rightarrow> io_error + RemoteAddr" where
  "to_remote_addr_socket addr = Ok (Socket addr)"

definition to_remote_addr_v4 :: "u32 \<Rightarrow> u16 \<Rightarrow> io_error + RemoteAddr" where
  "to_remote_addr_v4 ip port = Ok (Socket (V4 ip port))"

definition to_remote_addr_v6 :: "128 word \<Rightarrow> u16 \<Rightarrow> io_error + RemoteAddr" where
  "to_remote_addr_v6 ip port = Ok (Socket (V6 ip port))"

definition to_remote_addr_remote :: "RemoteAddr \<Rightarrow> io_error + RemoteAddr" where
  "to_remote_addr_remote a = Ok a"

definition to_remote_addr_host :: "io_error + SocketAddr list \<Rightarrow> (io_error + RemoteAddr) exec" where
  "to_remote_addr_host resolved =
     xbind (unwrap resolved) (\<lambda>addrs.
       case addrs of [] \<Rightarrow> Panic | addr # _ \<Rightarrow> Done (Ok (Socket addr)))"

section \<open>Endpoints\<close>

record Endpoint =
  resource_id :: ResourceId
  addr :: SocketAddr

definition Endpoint_new :: "ResourceId \<Rightarrow> SocketAddr \<Rightarrow> Endpoint" where
  "Endpoint_new r a = \<lparr>resource_id = r, addr = a\<rparr>"

section \<open>Transports\<close>

datatype Transport = Tcp | Ssl | Ws

definition WS_MAX_PAYLOAD_LEN :: usize where "WS_MAX_PAYLOAD_LEN = push_bit 20 32"

definition max_message_size :: "Transport \<Rightarrow> usize" where
  "max_message_size t = (case t of Tcp \<Rightarrow> - 1 | Ssl \<Rightarrow> - 1 | Ws \<Rightarrow> WS_MAX_PAYLOAD_LEN)"

definition is_connection_oriented :: "Transport \<Rightarrow> bool" where
  "is_connection_oriented t = (case t of Tcp \<Rightarrow> True | Ssl \<Rightarrow> True | Ws \<Rightarrow> True)"

definition is_packet_based :: "Transport \<Rightarrow> bool" where
  "is_packet_based t = (case t of Tcp \<Rightarrow> False | Ssl \<Rightarrow> True | Ws \<Rightarrow> True)"

definition Transport_id :: "Transport \<Rightarrow> u8" where
  "Transport_id t = (case t of Tcp \<Rightarrow> 0 | Ssl \<Rightarrow> 2 | Ws \<Rightarrow> 3)"

text \<open>\<open>From<u8>\<close>; the arm of the websocket transport is commented out in the source.\<close>

definition Transport_from :: "u8 \<Rightarrow> Transport exec" where
  "Transport_from n = (if n = 0 then Done Tcp else if n = 2 then Done Ssl else Panic)"

section \<open>Settings\<close>

text \<open>\<open>TcpKeepalive\<close> is opaque data of the \<open>socket2\<close> crate, named by a number.\<close>

type_synonym keepalive = nat

record ConnectConfig =
  conn_bind_device_opt :: "string option"
  source_address_opt :: "SocketAddr option"
  conn_keepalive_opt :: "keepalive option"

definition ConnectConfig_default :: ConnectConfig where
  "ConnectConfig_default =
     \<lparr>conn_bind_device_opt = None, source_address_opt = None, conn_keepalive_opt = None\<rparr>"

definition conn_with_bind_device :: "ConnectConfig \<Rightarrow> string \<Rightarrow> ConnectConfig" where
  "conn_with_bind_device c device = c\<lparr>conn_bind_device_opt := Some device\<rparr>"

definition conn_with_keepalive :: "ConnectConfig \<Rightarrow> keepalive \<Rightarrow> ConnectConfig" where
  "conn_with_keepalive c k = c\<lparr>conn_keepalive_opt := Some k\<rparr>"

definition conn_with_source_address :: "ConnectConfig \<Rightarrow> SocketAddr \<Rightarrow> ConnectConfig" where
  "conn_with_source_address c a = c\<lparr>source_address_opt := Some a\<rparr>"

record ListenConfig =
  bind_device_opt :: "string option"
  listen_keepalive_opt :: "keepalive option"
  cert_path :: string
  pri_key_path :: string

definition ListenConfig_default :: ListenConfig where
  "ListenConfig_default =
     \<lparr>bind_device_opt = None, listen_keepalive_opt = None, cert_path = [], pri_key_path = []\<rparr>"

definition listen_with_bind_device :: "ListenConfig \<Rightarrow> string \<Rightarrow> ListenConfig" where
  "listen_with_bind_device c device = c\<lparr>bind_device_opt := Some device\<rparr>"

definition listen_with_keepalive :: "ListenConfig \<Rightarrow> keepalive \<Rightarrow> ListenConfig" where
  "listen_with_keepalive c k = c\<lparr>listen_keepalive_opt := Some k\<rparr>"

section \<open>Statuses of the adapter interface and events\<close>

datatype SendStatus =
  Sent | MaxPacketSizeExceeded | ResourceNotFound | ResourceNotAvailable | SendAbort

datatype ReadStatus = ReadDisconnected | WaitNextEvent

datatype PendingStatus = Ready | Incomplete | PendingDisconnected

datatype NetEvent =
    Connected Endpoint bool
  | Accepted Endpoint ResourceId
  | Message Endpoint bytes
  | Disconnected Endpoint

text \<open>\<open>RemoteProperties\<close>; the atomic flag \<open>ready\<close> is a field that \<open>mark_as_ready\<close> sets.\<close>

record RemoteProperties =
  peer_addr :: SocketAddr
  local :: "ResourceId option"
  ready :: bool

definition RemoteProperties_new :: "SocketAddr \<Rightarrow> ResourceId option \<Rightarrow> RemoteProperties" where
  "RemoteProperties_new a l = \<lparr>peer_addr = a, local = l, ready = False\<rparr>"

definition mark_as_ready :: "RemoteProperties \<Rightarrow> RemoteProperties" where
  "mark_as_ready p = p\<lparr>ready := True\<rparr>"

section \<open>Properties\<close>

text \<open>
  The adapter ids of the transports are pairwise distinct and within the id space of a
  resource id, so no two transports share a slot of the processor table; reading an id back with
  \<open>From<u8>\<close> recovers the transport for TCP and SSL, but panics for the id of the websocket
  transport.
\<close>
theorem Transport_id_from:
  "(Transport_id s = Transport_id t \<longleftrightarrow> s = t) \<and> Transport_id t \<le> MAX_ADAPTER_ID \<and>
   Transport_from (Transport_id t) = (if t = Ws then Panic else Done t)"
  by (cases s; cases t) (simp_all add: Transport_id_def Transport_from_def MAX_vals)

text \<open>
  \<open>is_string\<close> answers as \<open>is_socket_addr\<close> does: it is true of every socket address, for
  which \<open>string\<close> panics, and false of every string, for which \<open>string\<close> returns it.
\<close>
lemma is_string_inverted:
  "is_string a = is_socket_addr a \<and> (is_string a \<longleftrightarrow> addr_string a = Panic) \<and>
   (is_string a \<longleftrightarrow> socket_addr a \<noteq> Panic)"
  by (cases a) (simp_all add: is_string_def is_socket_addr_def addr_string_def socket_addr_def)

end
