(* ===== verification/Registry.thy ===== *)
theory Registry
  imports Net_Types
begin

text \<open>
  \<open>src/src/network/registry.rs\<close> and the registration side of \<open>src/src/network/poll.rs\<close>: the table
  of live resources and its agreement with the poll. The \<open>mio\<close> registry is external: its answers
  are the parameter \<open>mio\<close>, and the calls made to it are recorded in order. A \<open>Register\<close> is
  deregistered from the poll by its \<open>Drop\<close>, which runs when the last \<open>Rc\<close> to it goes.
\<close>

section \<open>Calls to the poll\<close>

type_synonym source = nat

datatype Interest = READABLE | READABLE_WRITABLE

datatype poll_call = Registered source Token Interest | Deregistered source

record mio =
  mio_register :: "source \<Rightarrow> Token \<Rightarrow> Interest \<Rightarrow> io_error + unit"
  mio_deregister :: "source \<Rightarrow> io_error + unit"

definition PollRegistry_add ::
  "mio \<Rightarrow> ResourceId \<Rightarrow> source \<Rightarrow> bool \<Rightarrow> (ResourceId \<times> poll_call list) exec" where
  "PollRegistry_add mio rid src write_readiness =
     (let interest = (if write_readiness then READABLE_WRITABLE else READABLE) in
      xbind (unwrap (mio_register mio src (Token_from_id rid) interest))
        (\<lambda>_. Done (rid, [Registered src (Token_from_id rid) interest])))"

definition PollRegistry_remove :: "mio \<Rightarrow> source \<Rightarrow> poll_call list exec" where
  "PollRegistry_remove mio src =
     xbind (unwrap (mio_deregister mio src)) (\<lambda>_. Done [Deregistered src])"

section \<open>The resource table\<close>

record ('s, 'p) Register =
  resource :: 's
  properties :: 'p

definition Register_new :: "'s \<Rightarrow> 'p \<Rightarrow> ('s, 'p) Register" where
  "Register_new s p = \<lparr>resource = s, properties = p\<rparr>"

definition Register_drop :: "mio \<Rightarrow> ('s \<Rightarrow> source) \<Rightarrow> ('s, 'p) Register \<Rightarrow> poll_call list exec" where
  "Register_drop mio source_of r = PollRegistry_remove mio (source_of (resource r))"

type_synonym ('s, 'p) ResourceRegistry = "ResourceId \<rightharpoonup> ('s, 'p) Register"

definition registry_new :: "('s, 'p) ResourceRegistry" where
  "registry_new = Map.empty"

definition registry_get :: "('s, 'p) ResourceRegistry \<Rightarrow> ResourceId \<Rightarrow> ('s, 'p) Register option" where
  "registry_get reg rid = reg rid"

text \<open>\<open>HashMap::insert\<close> drops the register it replaces.\<close>

definition registry_register ::
  "mio \<Rightarrow> ('s \<Rightarrow> source) \<Rightarrow> ('s, 'p) ResourceRegistry \<Rightarrow> ResourceId \<Rightarrow> 's \<Rightarrow> 'p \<Rightarrow> bool \<Rightarrow>
   (('s, 'p) ResourceRegistry \<times> poll_call list) exec" where
  "registry_register mio source_of reg rid s p write_readiness =
     xbind (PollRegistry_add mio rid (source_of s) write_readiness) (\<lambda>(rid, calls).
     let reg' = reg(rid \<mapsto> Register_new s p) in
     case reg rid of
       None \<Rightarrow> Done (reg', calls)
     | Some old \<Rightarrow> xbind (Register_drop mio source_of old) (\<lambda>calls'. Done (reg', calls @ calls')))"

text \<open>
  \<open>deregister\<close> takes the register out of the table. When the caller still holds a clone of the
  \<open>Rc\<close> (\<open>held\<close>), the drop is left to it; otherwise it happens here.
\<close>

definition registry_deregister ::
  "mio \<Rightarrow> ('s \<Rightarrow> source) \<Rightarrow> bool \<Rightarrow> ('s, 'p) ResourceRegistry \<Rightarrow> ResourceId \<Rightarrow>
   (bool \<times> ('s, 'p) ResourceRegistry \<times> poll_call list) exec" where
  "registry_deregister mio source_of held reg rid =
     (case reg rid of
        None \<Rightarrow> Done (False, reg, [])
      | Some r \<Rightarrow>
          if held then Done (True, reg(rid := None), [])
          else xbind (Register_drop mio source_of r) (\<lambda>calls. Done (True, reg(rid := None), calls)))"

text \<open>
  A change made through a shared \<open>Rc\<close> (the ready flag, the stream's state) is seen by the table
  when the register is still in it.
\<close>

definition registry_shared ::
  "('s, 'p) ResourceRegistry \<Rightarrow> ResourceId \<Rightarrow> ('s, 'p) Register \<Rightarrow> ('s, 'p) ResourceRegistry" where
  "registry_shared reg rid r = (if reg rid = None then reg else reg(rid \<mapsto> r))"

section \<open>The poll's view\<close>

text \<open>The sources the poll watches after a sequence of calls.\<close>

fun watch :: "source set \<Rightarrow> poll_call list \<Rightarrow> source set" where
  "watch S [] = S"
| "watch S (Registered s t i # cs) = watch (insert s S) cs"
| "watch S (Deregistered s # cs) = watch (S - {s}) cs"

lemma watch_append [simp]: "watch S (cs @ ds) = watch (watch S cs) ds"
  by (induction S cs rule: watch.induct) simp_all

definition sources :: "('s \<Rightarrow> source) \<Rightarrow> ('s, 'p) ResourceRegistry \<Rightarrow> source set" where
  "sources source_of reg = {source_of (resource r) | i r. reg i = Some r}"

lemma sources_iff: "x \<in> sources source_of reg \<longleftrightarrow> (\<exists>i r. reg i = Some r \<and> x = source_of (resource r))"
  by (auto simp: sources_def)

lemma sources_ran: "sources source_of reg = source_of ` resource ` ran reg"
  by (auto simp: sources_def ran_def image_iff)

text \<open>No two live resources share a source.\<close>

definition own_sources :: "('s \<Rightarrow> source) \<Rightarrow> ('s, 'p) ResourceRegistry \<Rightarrow> bool" where
  "own_sources source_of reg \<longleftrightarrow>
     (\<forall>i j r s. reg i = Some r \<longrightarrow> reg j = Some s \<longrightarrow>
        source_of (resource r) = source_of (resource s) \<longrightarrow> i = j)"

definition mio_accepts :: "mio \<Rightarrow> bool" where
  "mio_accepts mio \<longleftrightarrow>
     (\<forall>s t i. mio_register mio s t i = Ok ()) \<and> (\<forall>s. mio_deregister mio s = Ok ())"

definition mio_ok :: mio where
  "mio_ok = \<lparr>mio_register = (\<lambda>_ _ _. Ok ()), mio_deregister = (\<lambda>_. Ok ())\<rparr>"

lemma mio_accepts_ok [simp]: "mio_accepts mio_ok"
  by (simp add: mio_accepts_def mio_ok_def)

section \<open>The contract of a resource table\<close>

locale resource_table =
  fixes get :: "'t \<Rightarrow> ResourceId \<Rightarrow> 'r option"
    and add :: "'t \<Rightarrow> ResourceId \<Rightarrow> 'r \<Rightarrow> 't"
    and remove :: "'t \<Rightarrow> ResourceId \<Rightarrow> 't"
  assumes get_add: "get (add t i r) j = (if j = i then Some r else get t j)"
    and get_remove: "get (remove t i) j = (if j = i then None else get t j)"
begin

text \<open>Every id of the table satisfies \<open>P\<close>.\<close>

definition all_ids :: "(ResourceId \<Rightarrow> bool) \<Rightarrow> 't \<Rightarrow> bool" where
  "all_ids P t \<longleftrightarrow> (\<forall>i. get t i \<noteq> None \<longrightarrow> P i)"

lemma all_ids_add: "all_ids P t \<Longrightarrow> P i \<Longrightarrow> all_ids P (add t i r)"
  by (simp add: all_ids_def get_add)

lemma all_ids_remove: "all_ids P t \<Longrightarrow> all_ids P (remove t i)"
  by (simp add: all_ids_def get_remove)

lemma not_found: "all_ids P t \<Longrightarrow> \<not> P i \<Longrightarrow> get t i = None"
  by (auto simp: all_ids_def)

lemma remove_twice: "get (remove (remove t i) i) = get (remove t i)"
  by (auto simp: fun_eq_iff get_remove)

end

interpretation rt: resource_table
  registry_get
  "\<lambda>reg rid r. reg(rid \<mapsto> r)"
  "\<lambda>reg rid. reg(rid := None)"
  by unfold_locales (simp_all add: registry_get_def)

lemma all_ids_shared: "rt.all_ids P reg \<Longrightarrow> rt.all_ids P (registry_shared reg rid r)"
  by (auto simp: rt.all_ids_def registry_shared_def registry_get_def)

section \<open>Registration and deregistration against the poll\<close>

lemma registry_register_Done:
  assumes "mio_accepts mio"
  shows "\<exists>calls. registry_register mio source_of reg rid s p w = Done (reg(rid \<mapsto> Register_new s p), calls)"
  using assms
  by (auto simp: registry_register_def PollRegistry_add_def Register_drop_def PollRegistry_remove_def
      mio_accepts_def Let_def split: option.splits)

lemma sources_remove:
  assumes "own_sources source_of reg" and "reg rid = Some r"
  shows "sources source_of (reg(rid := None)) = sources source_of reg - {source_of (resource r)}"
proof -
  have "source_of (resource s) \<noteq> source_of (resource r)" if "reg j = Some s" and "j \<noteq> rid" for j s
    using assms that unfolding own_sources_def by blast
  then show ?thesis
    using assms(2) by (auto simp: set_eq_iff sources_iff split: if_splits) (metis option.inject)
qed

lemma sources_update:
  assumes "reg rid = Some r" and "source_of (resource r') = source_of (resource r)"
  shows "sources source_of (reg(rid \<mapsto> r')) = sources source_of reg"
    and "own_sources source_of reg \<Longrightarrow> own_sources source_of (reg(rid \<mapsto> r'))"
proof -
  show "sources source_of (reg(rid \<mapsto> r')) = sources source_of reg"
  proof (intro set_eqI iffI)
    fix x assume "x \<in> sources source_of reg"
    then obtain j s where "reg j = Some s" "x = source_of (resource s)" by (auto simp: sources_iff)
    with assms show "x \<in> sources source_of (reg(rid \<mapsto> r'))"
      unfolding sources_iff by (cases "j = rid") (force intro: exI [of _ j])+
  next
    fix x assume "x \<in> sources source_of (reg(rid \<mapsto> r'))"
    with assms show "x \<in> sources source_of reg" by (auto simp: sources_iff split: if_splits)
  qed
  show "own_sources source_of (reg(rid \<mapsto> r'))" if "own_sources source_of reg"
    using that assms unfolding own_sources_def by (simp split: if_splits) metis
qed

lemma registry_register_result:
  assumes "registry_register mio source_of reg rid s p w = Done (reg', calls)"
  shows "reg' = reg(rid \<mapsto> Register_new s p)"
    and "calls = Registered (source_of s) (Token_from_id rid) (if w then READABLE_WRITABLE else READABLE) #
      (case reg rid of None \<Rightarrow> [] | Some old \<Rightarrow> [Deregistered (source_of (resource old))])"
  using assms
  by (auto simp: registry_register_def PollRegistry_add_def Register_drop_def PollRegistry_remove_def
      Let_def result_simps split: option.splits)

lemma sources_insert:
  "sources source_of (reg(rid \<mapsto> Register_new s p)) =
     insert (source_of s) (sources source_of (reg(rid := None)))"
  by (auto simp: set_eq_iff sources_iff Register_new_def split: if_splits)

lemma registry_register_watch:
  assumes "registry_register mio source_of reg rid s p w = Done (reg', calls)"
    and "own_sources source_of reg" and "source_of s \<notin> sources source_of reg"
  shows "watch (sources source_of reg) calls = sources source_of reg'" and "own_sources source_of reg'"
proof -
  note result = registry_register_result [OF assms(1)]
  have fresh: "source_of (resource x) \<noteq> source_of s" if "reg j = Some x" for j x
    using assms(3) that by (metis sources_iff)
  then show "own_sources source_of reg'"
    using assms(2) by (force simp: own_sources_def result(1) Register_new_def split: if_splits)
  show "watch (sources source_of reg) calls = sources source_of reg'"
  proof (cases "reg rid")
    case None
    then have "sources source_of (reg(rid := None)) = sources source_of reg"
      by (metis fun_upd_triv)
    with None show ?thesis by (simp add: result sources_insert)
  next
    case (Some old)
    then show ?thesis
      using fresh [OF Some]
      by (simp add: result sources_insert sources_remove [OF assms(2) Some] insert_Diff_if)
  qed
qed

lemma registry_deregister_watch:
  assumes "registry_deregister mio source_of False reg rid = Done (found, reg', calls)"
    and "own_sources source_of reg"
  shows "watch (sources source_of reg) calls = sources source_of reg'" and "own_sources source_of reg'"
    and "reg' = reg(rid := None)" and "found \<longleftrightarrow> reg rid \<noteq> None"
proof -
  show upd: "reg' = reg(rid := None)" and "found \<longleftrightarrow> reg rid \<noteq> None"
    using assms(1) by (auto simp: registry_deregister_def result_simps split: option.splits)
  show "own_sources source_of reg'"
    using assms(2) by (auto simp: own_sources_def upd split: if_splits)
  show "watch (sources source_of reg) calls = sources source_of reg'"
    using assms(1) sources_remove [OF assms(2)]
    by (auto simp: registry_deregister_def Register_drop_def PollRegistry_remove_def upd result_simps
        split: option.splits)
qed

end
