(* ===== verification/Driver.thy ===== *)
theory Driver
  imports Registry
begin

text \<open>
  The event processor shared by the transports. \<open>src/src/adapters/tcp/tcp_driver.rs\<close>,
  \<open>ssl/ssl_driver.rs\<close> and \<open>ws/ws_driver.rs\<close> are the same program over different resource types;
  the program is written once over an \<open>adapter\<close>, the record of the operations of the traits
  \<open>Remote\<close> and \<open>Local\<close> of \<open>src/src/network/adapter.rs\<close> (with \<open>'io\<close> for the answers of the
  operating system to the calls the operation makes), and each transport instantiates it. The
  commands come from \<open>src/src/network/waker_command.rs\<close>. A handler returns the new driver state and
  its effects in order: events emitted, calls to the poll, commands posted, callbacks called.
\<close>

section \<open>Commands and effects\<close>

type_synonym stream = source
type_synonym callback = nat
type_synonym server_config = nat
type_synonym url = string

text \<open>
  The boxed payloads (\<open>Box<dyn UnsafeAny + Send>\<close>): one constructor per payload struct.
\<close>

datatype payload =
    TcpAcceptPayload "keepalive option"
  | TcpConnectPayload "keepalive option"
  | SslAcceptPayload "keepalive option" server_config
  | SslConnectPayload "keepalive option" "string option"
  | WsAcceptPayload "keepalive option"
  | WsConnectPayload url "keepalive option"

fun as_TcpAcceptPayload :: "payload \<Rightarrow> keepalive option option" where
  "as_TcpAcceptPayload (TcpAcceptPayload k) = Some k"
| "as_TcpAcceptPayload _ = None"

fun as_TcpConnectPayload :: "payload \<Rightarrow> keepalive option option" where
  "as_TcpConnectPayload (TcpConnectPayload k) = Some k"
| "as_TcpConnectPayload _ = None"

fun as_SslAcceptPayload :: "payload \<Rightarrow> (keepalive option \<times> server_config) option" where
  "as_SslAcceptPayload (SslAcceptPayload k config) = Some (k, config)"
| "as_SslAcceptPayload _ = None"

fun as_SslConnectPayload :: "payload \<Rightarrow> (keepalive option \<times> string option) option" where
  "as_SslConnectPayload (SslConnectPayload k domain_opt) = Some (k, domain_opt)"
| "as_SslConnectPayload _ = None"

fun as_WsAcceptPayload :: "payload \<Rightarrow> keepalive option option" where
  "as_WsAcceptPayload (WsAcceptPayload k) = Some k"
| "as_WsAcceptPayload _ = None"

fun as_WsConnectPayload :: "payload \<Rightarrow> (url \<times> keepalive option) option" where
  "as_WsConnectPayload (WsConnectPayload url k) = Some (url, k)"
| "as_WsConnectPayload _ = None"

text \<open>
  \<open>downcast_unchecked::<T>\<close> takes the data pointer of the box for a pointer to a \<open>T\<close>, whatever the box holds.
  The type is given by its projection; a box of another type, undefined behaviour in Rust, is \<open>Panic\<close>.
\<close>

definition downcast_unchecked :: "(payload \<Rightarrow> 'a option) \<Rightarrow> payload \<Rightarrow> 'a exec" where
  "downcast_unchecked as_T boxed = (case as_T boxed of Some x \<Rightarrow> Done x | None \<Rightarrow> Panic)"

lemma as_payload_iff [simp]:
  "as_TcpAcceptPayload b = Some k \<longleftrightarrow> b = TcpAcceptPayload k"
  "as_TcpConnectPayload b = Some k \<longleftrightarrow> b = TcpConnectPayload k"
  "as_SslAcceptPayload b = Some kc \<longleftrightarrow> b = SslAcceptPayload (fst kc) (snd kc)"
  "as_SslConnectPayload b = Some kd \<longleftrightarrow> b = SslConnectPayload (fst kd) (snd kd)"
  "as_WsAcceptPayload b = Some k \<longleftrightarrow> b = WsAcceptPayload k"
  "as_WsConnectPayload b = Some uk \<longleftrightarrow> b = WsConnectPayload (fst uk) (snd uk)"
  by (cases b; auto)+

lemma downcast_Done [result_simps]: "downcast_unchecked as_T b = Done x \<longleftrightarrow> as_T b = Some x"
  by (simp add: downcast_unchecked_def split: option.splits)

lemma downcast_right [simp]: "as_T b = Some x \<Longrightarrow> downcast_unchecked as_T b = Done x"
  by (simp add: downcast_unchecked_def)

datatype WakerCommand =
    Greet string
  | AcceptRegisterRemote "ResourceId \<times> SocketAddr" "ResourceId \<times> SocketAddr" stream payload
  | ConnectRegisterRemote SocketAddr "ResourceId \<times> SocketAddr" stream payload callback
  | Listen ListenConfig ResourceId SocketAddr callback
  | Connect ConnectConfig ResourceId RemoteAddr callback
  | Send Endpoint bytes
  | SendSync Endpoint bytes callback
  | Close ResourceId
  | IsReady ResourceId callback
  | Stop

datatype effect =
    Emit NetEvent
  | Poll_Call poll_call
  | Post ResourceId WakerCommand
  | Call_Connect callback "io_error + Endpoint \<times> SocketAddr"
  | Call_Listen callback "io_error + ResourceId \<times> SocketAddr"
  | Call_Close callback bool
  | Call_Ready callback "bool option"
  | Call_Sent callback
  | Handed Endpoint SendStatus bytes

text \<open>
  \<open>Handed e st bs\<close> is no call of the code but an observation: a \<open>process_send\<close> for \<open>e\<close> ended with the status \<open>st\<close>,
  and the sockets took the bytes \<open>bs\<close> in it. The code discards the status.
\<close>

section \<open>The adapter interface\<close>

datatype AcceptedType =
    AcceptedRemote SocketAddr stream payload
  | AcceptedData SocketAddr bytes

text \<open>\<open>sent_wire\<close> reads off what the sockets took so far.\<close>

record ('r, 'l, 'io) adapter =
  remote_source :: "'r \<Rightarrow> source"
  local_source :: "'l \<Rightarrow> source"
  receive :: "'io \<Rightarrow> 'r \<Rightarrow> ('io \<times> 'r \<times> bytes list \<times> ReadStatus) exec option"
  send :: "'io \<Rightarrow> 'r \<Rightarrow> bytes \<Rightarrow> ('io \<times> 'r \<times> SendStatus) exec option"
  pending :: "'io \<Rightarrow> 'r \<Rightarrow> ('io \<times> 'r \<times> PendingStatus) exec option"
  ready_to_write :: "'io \<Rightarrow> 'r \<Rightarrow> bool"
  accept :: "'io \<Rightarrow> 'l \<Rightarrow> ('io \<times> AcceptedType list) option"
  send_to :: "'io \<Rightarrow> 'l \<Rightarrow> SocketAddr \<Rightarrow> bytes \<Rightarrow> SendStatus exec"
  listener_addr :: "'io \<Rightarrow> 'l \<Rightarrow> io_error + SocketAddr"
  listen_with :: "'io \<Rightarrow> ListenConfig \<Rightarrow> SocketAddr \<Rightarrow> (io_error + 'l \<times> SocketAddr) exec"
  accepted_resource :: "stream \<Rightarrow> payload \<Rightarrow> 'r exec"
  connected_resource :: "'io \<Rightarrow> stream \<Rightarrow> payload \<Rightarrow> 'r exec"
  sent_wire :: "'io \<Rightarrow> bytes"
  connect_with ::
    "'io \<Rightarrow> ConnectConfig \<Rightarrow> RemoteAddr \<Rightarrow> (io_error + stream \<times> SocketAddr \<times> SocketAddr \<times> payload) exec"

text \<open>The default implementations of the traits: \<open>Remote::ready_to_write\<close> and \<open>Local::send_to\<close>.\<close>

definition ready_to_write_default :: "'io \<Rightarrow> 'r \<Rightarrow> bool" where
  "ready_to_write_default io r = True"

definition send_to_default :: "'io \<Rightarrow> 'l \<Rightarrow> SocketAddr \<Rightarrow> bytes \<Rightarrow> SendStatus exec" where
  "send_to_default io l a data = Panic"

section \<open>Driver state\<close>

record ('r, 'l) driver =
  remote_id_generator :: ResourceIdGenerator
  remote_registry :: "('r, RemoteProperties) ResourceRegistry"
  local_registry :: "('l, unit) ResourceRegistry"

definition driver_new :: "ResourceIdGenerator \<Rightarrow> ('r, 'l) driver" where
  "driver_new rgen =
     \<lparr>remote_id_generator = rgen, remote_registry = registry_new, local_registry = registry_new\<rparr>"

definition next_remote_id ::
  "bool \<Rightarrow> ('r, 'l) driver \<Rightarrow> u8 \<Rightarrow> (ResourceId \<times> ('r, 'l) driver) exec" where
  "next_remote_id debug d a =
     xbind (generate debug (remote_id_generator d) a)
       (\<lambda>(r, g). Done (r, d\<lparr>remote_id_generator := g\<rparr>))"

section \<open>Steps of the handlers\<close>

text \<open>
  The handlers clone the \<open>Rc\<close> of a remote, run one or two of the following steps on it and then
  drop the clone. A step returns the register as the clone sees it.
\<close>

definition resolve_pending_remote ::
  "('r, 'l, 'io) adapter \<Rightarrow> mio \<Rightarrow> 'io \<Rightarrow> ('r, 'l) driver \<Rightarrow> ('r, RemoteProperties) Register \<Rightarrow> Endpoint \<Rightarrow>
   ('io \<times> ('r, 'l) driver \<times> ('r, RemoteProperties) Register \<times> effect list) exec option" where
  "resolve_pending_remote A mio io d remote endpoint =
     obind (pending A io (resource remote)) (\<lambda>(io, res, status).
     let remote = remote\<lparr>resource := res\<rparr>; rid = resource_id endpoint;
         d = d\<lparr>remote_registry := registry_shared (remote_registry d) rid remote\<rparr> in
     case status of
       Ready \<Rightarrow>
         let remote = remote\<lparr>properties := mark_as_ready (properties remote)\<rparr>;
             d = d\<lparr>remote_registry := registry_shared (remote_registry d) rid remote\<rparr> in
         Some (Done (io, d, remote,
           [Emit (case local (properties remote) of
              Some listener_id \<Rightarrow> Accepted endpoint listener_id
            | None \<Rightarrow> Connected endpoint True)]))
     | Incomplete \<Rightarrow> Some (Done (io, d, remote, []))
     | PendingDisconnected \<Rightarrow>
         Some (xbind (registry_deregister mio (remote_source A) True (remote_registry d) rid)
           (\<lambda>(_, reg, calls).
             Done (io, d\<lparr>remote_registry := reg\<rparr>, remote,
               map Poll_Call calls @
               (if local (properties remote) = None then [Emit (Connected endpoint False)] else [])))))"

definition write_to_remote ::
  "('r, 'l, 'io) adapter \<Rightarrow> 'io \<Rightarrow> ('r, RemoteProperties) Register \<Rightarrow> Endpoint \<Rightarrow> effect list" where
  "write_to_remote A io remote endpoint =
     (if \<not> ready_to_write A io (resource remote) then [Emit (Disconnected endpoint)] else [])"

definition read_from_remote ::
  "('r, 'l, 'io) adapter \<Rightarrow> mio \<Rightarrow> 'io \<Rightarrow> ('r, 'l) driver \<Rightarrow> ('r, RemoteProperties) Register \<Rightarrow> Endpoint \<Rightarrow>
   (('r, 'l) driver \<times> ('r, RemoteProperties) Register \<times> effect list) exec option" where
  "read_from_remote A mio io d remote endpoint =
     obind (receive A io (resource remote)) (\<lambda>(io, res, datas, status).
     let remote = remote\<lparr>resource := res\<rparr>; rid = resource_id endpoint;
         d = d\<lparr>remote_registry := registry_shared (remote_registry d) rid remote\<rparr>;
         messages = map (\<lambda>data. Emit (Message endpoint data)) datas in
     case status of
       WaitNextEvent \<Rightarrow> Some (Done (d, remote, messages))
     | ReadDisconnected \<Rightarrow>
         Some (xbind (registry_deregister mio (remote_source A) True (remote_registry d) rid)
           (\<lambda>(found, reg, calls).
             Done (d\<lparr>remote_registry := reg\<rparr>, remote,
               messages @ map Poll_Call calls @ (if found then [Emit (Disconnected endpoint)] else [])))))"

fun post_accepted ::
  "('r, 'l, 'io) adapter \<Rightarrow> bool \<Rightarrow> 'io \<Rightarrow> ('r, 'l) driver \<Rightarrow> 'l \<Rightarrow> ResourceId \<Rightarrow> AcceptedType list \<Rightarrow>
   (('r, 'l) driver \<times> effect list) exec" where
  "post_accepted A debug io d loc rid [] = Done (d, [])"
| "post_accepted A debug io d loc rid (AcceptedRemote remote_addr stream payload # as) =
     xbind (unwrap (listener_addr A io loc)) (\<lambda>local_addr.
     xbind (next_remote_id debug d (adapter_id rid)) (\<lambda>(remote_id, d).
     xbind (post_accepted A debug io d loc rid as) (\<lambda>(d, effs).
     Done (d, Post remote_id
       (AcceptRegisterRemote (rid, local_addr) (remote_id, remote_addr) stream payload) # effs))))"
| "post_accepted A debug io d loc rid (AcceptedData a data # as) =
     xbind (post_accepted A debug io d loc rid as) (\<lambda>(d, effs).
     Done (d, Emit (Message (Endpoint_new rid a) data) # effs))"

definition read_from_local ::
  "('r, 'l, 'io) adapter \<Rightarrow> bool \<Rightarrow> 'io \<Rightarrow> ('r, 'l) driver \<Rightarrow> 'l \<Rightarrow> ResourceId \<Rightarrow>
   (('r, 'l) driver \<times> effect list) exec option" where
  "read_from_local A debug io d loc rid =
     (case accept A io loc of None \<Rightarrow> None
      | Some (io, accepted) \<Rightarrow> Some (post_accepted A debug io d loc rid accepted))"

text \<open>The handler drops its clone: the poll forgets a remote that left the table meanwhile.\<close>

definition drop_clone ::
  "('r, 'l, 'io) adapter \<Rightarrow> mio \<Rightarrow> ('r, 'l) driver \<Rightarrow> ResourceId \<Rightarrow> ('r, RemoteProperties) Register \<Rightarrow>
   effect list exec" where
  "drop_clone A mio d rid remote =
     (if remote_registry d rid = None
      then xbind (Register_drop mio (remote_source A) remote) (\<lambda>calls. Done (map Poll_Call calls))
      else Done [])"

section \<open>The event processor\<close>

definition process_read ::
  "('r, 'l, 'io) adapter \<Rightarrow> mio \<Rightarrow> bool \<Rightarrow> 'io \<Rightarrow> ('r, 'l) driver \<Rightarrow> ResourceId \<Rightarrow>
   (('r, 'l) driver \<times> effect list) exec option" where
  "process_read A mio debug io d rid =
     (case resource_type rid of
        Remote \<Rightarrow>
          (case registry_get (remote_registry d) rid of
             None \<Rightarrow> Some (Done (d, []))
           | Some remote \<Rightarrow>
               let endpoint = Endpoint_new rid (peer_addr (properties remote)) in
               obind (if \<not> ready (properties remote)
                      then resolve_pending_remote A mio io d remote endpoint
                      else Some (Done (io, d, remote, []))) (\<lambda>(io, d, remote, effs1).
               obind (if ready (properties remote) then read_from_remote A mio io d remote endpoint
                      else Some (Done (d, remote, []))) (\<lambda>(d, remote, effs2).
               Some (xbind (drop_clone A mio d rid remote) (\<lambda>effs3.
                 Done (d, effs1 @ effs2 @ effs3))))))
      | Local \<Rightarrow>
          (case registry_get (local_registry d) rid of
             None \<Rightarrow> Some (Done (d, []))
           | Some loc \<Rightarrow> read_from_local A debug io d (resource loc) rid))"

definition process_write ::
  "('r, 'l, 'io) adapter \<Rightarrow> mio \<Rightarrow> 'io \<Rightarrow> ('r, 'l) driver \<Rightarrow> ResourceId \<Rightarrow>
   (('r, 'l) driver \<times> effect list) exec option" where
  "process_write A mio io d rid =
     (case resource_type rid of
        Remote \<Rightarrow>
          (case registry_get (remote_registry d) rid of
             None \<Rightarrow> Some (Done (d, []))
           | Some remote \<Rightarrow>
               let endpoint = Endpoint_new rid (peer_addr (properties remote)) in
               obind (if \<not> ready (properties remote)
                      then resolve_pending_remote A mio io d remote endpoint
                      else Some (Done (io, d, remote, []))) (\<lambda>(io, d, remote, effs1).
               let effs2 = (if ready (properties remote) then write_to_remote A io remote endpoint else []) in
               Some (xbind (drop_clone A mio d rid remote) (\<lambda>effs3.
                 Done (d, effs1 @ effs2 @ effs3)))))
      | Local \<Rightarrow> Some (Done (d, [])))"

definition process_accept_register_remote ::
  "('r, 'l, 'io) adapter \<Rightarrow> mio \<Rightarrow> ('r, 'l) driver \<Rightarrow> ResourceId \<times> SocketAddr \<Rightarrow> ResourceId \<times> SocketAddr \<Rightarrow>
   stream \<Rightarrow> payload \<Rightarrow> callback \<Rightarrow> (('r, 'l) driver \<times> effect list) exec" where
  "process_accept_register_remote A mio d local_pair remote_pair stream payload cb =
     (let local_id = fst local_pair; remote_id = fst remote_pair; remote_addr = snd remote_pair in
      xbind (accepted_resource A stream payload) (\<lambda>res.
      xbind (registry_register mio (remote_source A) (remote_registry d) remote_id res
               (RemoteProperties_new remote_addr (Some local_id)) True) (\<lambda>(reg, calls).
      Done (d\<lparr>remote_registry := reg\<rparr>,
        map Poll_Call calls @
        [Call_Connect cb (Ok (Endpoint_new remote_id remote_addr, snd local_pair))]))))"

definition process_connect_register_remote ::
  "('r, 'l, 'io) adapter \<Rightarrow> mio \<Rightarrow> 'io \<Rightarrow> ('r, 'l) driver \<Rightarrow> SocketAddr \<Rightarrow> ResourceId \<times> SocketAddr \<Rightarrow>
   stream \<Rightarrow> payload \<Rightarrow> callback \<Rightarrow> (('r, 'l) driver \<times> effect list) exec" where
  "process_connect_register_remote A mio io d local_addr remote_pair stream payload cb =
     (let remote_id = fst remote_pair; remote_addr = snd remote_pair in
      xbind (connected_resource A io stream payload) (\<lambda>res.
      xbind (registry_register mio (remote_source A) (remote_registry d) remote_id res
               (RemoteProperties_new remote_addr None) True) (\<lambda>(reg, calls).
      Done (d\<lparr>remote_registry := reg\<rparr>,
        map Poll_Call calls @
        [Call_Connect cb (Ok (Endpoint_new remote_id remote_addr, local_addr))]))))"

definition process_listen ::
  "('r, 'l, 'io) adapter \<Rightarrow> mio \<Rightarrow> 'io \<Rightarrow> ('r, 'l) driver \<Rightarrow> ListenConfig \<Rightarrow> ResourceId \<Rightarrow> SocketAddr \<Rightarrow>
   callback \<Rightarrow> (('r, 'l) driver \<times> effect list) exec" where
  "process_listen A mio io d config local_id a cb =
     xbind (listen_with A io config a) (\<lambda>ret.
     case ret of
       Inl e \<Rightarrow> Done (d, [Call_Listen cb (Err e)])
     | Inr (loc, local_addr) \<Rightarrow>
         xbind (registry_register mio (local_source A) (local_registry d) local_id loc () False)
           (\<lambda>(reg, calls).
             Done (d\<lparr>local_registry := reg\<rparr>,
               map Poll_Call calls @ [Call_Listen cb (Ok (local_id, local_addr))])))"

text \<open>When the connection attempt fails at once, the closure \<open>cb\<close> is dropped without a call.\<close>

definition process_connect ::
  "('r, 'l, 'io) adapter \<Rightarrow> 'io \<Rightarrow> ('r, 'l) driver \<Rightarrow> ConnectConfig \<Rightarrow> ResourceId \<Rightarrow> RemoteAddr \<Rightarrow>
   callback \<Rightarrow> (('r, 'l) driver \<times> effect list) exec" where
  "process_connect A io d config remote_id raddr cb =
     xbind (connect_with A io config raddr) (\<lambda>ret.
     case ret of
       Inl e \<Rightarrow> Done (d, [])
     | Inr (stream, local_addr, peer, payload) \<Rightarrow>
         Done (d, [Post remote_id
           (ConnectRegisterRemote local_addr (remote_id, peer) stream payload cb)]))"

text \<open>\<open>process_send\<close> computes a status and discards it; the model returns it beside the state.\<close>

definition process_send ::
  "('r, 'l, 'io) adapter \<Rightarrow> 'io \<Rightarrow> ('r, 'l) driver \<Rightarrow> Endpoint \<Rightarrow> bytes \<Rightarrow>
   ('io \<times> ('r, 'l) driver \<times> SendStatus) exec option" where
  "process_send A io d endpoint data =
     (let rid = resource_id endpoint in
      case resource_type rid of
        Remote \<Rightarrow>
          (case registry_get (remote_registry d) rid of
             Some remote \<Rightarrow>
               if ready (properties remote)
               then obind (send A io (resource remote) data) (\<lambda>(io, res, status).
                 Some (Done (io, d\<lparr>remote_registry :=
                   registry_shared (remote_registry d) rid (remote\<lparr>resource := res\<rparr>)\<rparr>, status)))
               else Some (Done (io, d, ResourceNotAvailable))
           | None \<Rightarrow> Some (Done (io, d, ResourceNotFound)))
      | Local \<Rightarrow>
          (case registry_get (local_registry d) rid of
             Some loc \<Rightarrow> Some (xbind (send_to A io (resource loc) (addr endpoint) data)
               (\<lambda>status. Done (io, d, status)))
           | None \<Rightarrow> Some (Done (io, d, ResourceNotFound))))"

definition process_close ::
  "('r, 'l, 'io) adapter \<Rightarrow> mio \<Rightarrow> ('r, 'l) driver \<Rightarrow> ResourceId \<Rightarrow> callback \<Rightarrow>
   (('r, 'l) driver \<times> effect list) exec" where
  "process_close A mio d rid cb =
     (case resource_type rid of
        Remote \<Rightarrow>
          xbind (registry_deregister mio (remote_source A) False (remote_registry d) rid)
            (\<lambda>(ret, reg, calls).
              Done (d\<lparr>remote_registry := reg\<rparr>, map Poll_Call calls @ [Call_Close cb ret]))
      | Local \<Rightarrow>
          xbind (registry_deregister mio (local_source A) False (local_registry d) rid)
            (\<lambda>(ret, reg, calls).
              Done (d\<lparr>local_registry := reg\<rparr>, map Poll_Call calls @ [Call_Close cb ret])))"

text \<open>The \<open>Local\<close> branch looks the id up in the table of the remotes, as the source does.\<close>

definition process_is_ready :: "('r, 'l) driver \<Rightarrow> ResourceId \<Rightarrow> callback \<Rightarrow> effect list" where
  "process_is_ready d rid cb =
     (case resource_type rid of
        Remote \<Rightarrow>
          (case registry_get (remote_registry d) rid of
             Some r \<Rightarrow> [Call_Ready cb (Some (ready (properties r)))]
           | None \<Rightarrow> [Call_Ready cb None])
      | Local \<Rightarrow>
          (let l_opt = registry_get (remote_registry d) rid in
           [Call_Ready cb (map_option (\<lambda>_. True) l_opt)]))"

end
