(* ===== verification/Lifecycle.thy ===== *)
theory Lifecycle
  imports Driver
begin

text \<open>
  What the event processor of \<open>Driver\<close> promises to its two neighbours. To the poll: the sources it
  watches are at every moment the sources of the live resources. To the user: the events about one
  connection follow the life of a connection, \<open>Connected\<close> or \<open>Accepted\<close> first, then messages,
  then at most one \<open>Disconnected\<close>. The contract a transport has to meet for this is the locale
  \<open>stream_adapter\<close>; the theories of the transports interpret it.
\<close>

lemma Endpoint_new_sel [simp]: "resource_id (Endpoint_new i a) = i" "addr (Endpoint_new i a) = a"
  by (simp_all add: Endpoint_new_def)

section \<open>Reading effects\<close>

fun poll_calls :: "effect list \<Rightarrow> poll_call list" where
  "poll_calls [] = []"
| "poll_calls (Poll_Call c # es) = c # poll_calls es"
| "poll_calls (_ # es) = poll_calls es"

fun net_events :: "effect list \<Rightarrow> NetEvent list" where
  "net_events [] = []"
| "net_events (Emit e # es) = e # net_events es"
| "net_events (_ # es) = net_events es"

fun event_endpoint :: "NetEvent \<Rightarrow> Endpoint" where
  "event_endpoint (Connected e _) = e"
| "event_endpoint (Accepted e _) = e"
| "event_endpoint (Message e _) = e"
| "event_endpoint (Disconnected e) = e"

definition events_of :: "ResourceId \<Rightarrow> effect list \<Rightarrow> NetEvent list" where
  "events_of i effs = filter (\<lambda>e. resource_id (event_endpoint e) = i) (net_events effs)"

lemma poll_calls_append [simp]: "poll_calls (xs @ ys) = poll_calls xs @ poll_calls ys"
  by (induction xs rule: poll_calls.induct) simp_all

lemma net_events_append [simp]: "net_events (xs @ ys) = net_events xs @ net_events ys"
  by (induction xs rule: net_events.induct) simp_all

lemma events_of_append [simp]: "events_of i (xs @ ys) = events_of i xs @ events_of i ys"
  by (simp add: events_of_def)

lemma effects_of_calls [simp]:
  "poll_calls (map Poll_Call cs) = cs"
  "net_events (map Poll_Call cs) = []"
  "events_of i (map Poll_Call cs) = []"
  by (induction cs) (simp_all add: events_of_def)

lemma effects_of_events [simp]:
  "poll_calls (map (\<lambda>x. Emit (f x)) xs) = []"
  "net_events (map (\<lambda>x. Emit (f x)) xs) = map f xs"
  by (induction xs) simp_all

lemma events_of_Cons [simp]:
  "events_of i [] = []"
  "events_of i (Emit e # es) =
     (if resource_id (event_endpoint e) = i then e # events_of i es else events_of i es)"
  "events_of i (Poll_Call c # es) = events_of i es"
  "events_of i (Post r w # es) = events_of i es"
  "events_of i (Call_Connect cb x # es) = events_of i es"
  "events_of i (Call_Listen cb y # es) = events_of i es"
  "events_of i (Call_Close cb b # es) = events_of i es"
  "events_of i (Call_Ready cb b' # es) = events_of i es"
  "events_of i (Call_Sent cb # es) = events_of i es"
  "events_of i (Handed ep st bs # es) = events_of i es"
  by (simp_all add: events_of_def)

lemma events_of_messages [simp]:
  "events_of i (map (\<lambda>x. Emit (Message e x)) xs) = (if resource_id e = i then map (Message e) xs else [])"
  by (induction xs) simp_all

section \<open>The life of a connection\<close>

datatype phase = Gone | Pending SocketAddr "ResourceId option" | Live SocketAddr

text \<open>The next phase after an event about the connection \<open>i\<close>, if the phase allows the event.\<close>

fun phase_step :: "ResourceId \<Rightarrow> phase \<Rightarrow> NetEvent \<Rightarrow> phase option" where
  "phase_step i (Pending a None) (Connected e True) = (if e = Endpoint_new i a then Some (Live a) else None)"
| "phase_step i (Pending a None) (Connected e False) = (if e = Endpoint_new i a then Some Gone else None)"
| "phase_step i (Pending a (Some l)) (Accepted e l') =
     (if e = Endpoint_new i a \<and> l' = l then Some (Live a) else None)"
| "phase_step i (Live a) (Message e data) = (if e = Endpoint_new i a then Some (Live a) else None)"
| "phase_step i (Live a) (Disconnected e) = (if e = Endpoint_new i a then Some Gone else None)"
| "phase_step i _ _ = None"

fun phase_run :: "ResourceId \<Rightarrow> phase \<Rightarrow> NetEvent list \<Rightarrow> phase option" where
  "phase_run i p [] = Some p"
| "phase_run i p (e # es) = (case phase_step i p e of None \<Rightarrow> None | Some q \<Rightarrow> phase_run i q es)"

lemma phase_run_append:
  "phase_run i p (xs @ ys) = (case phase_run i p xs of None \<Rightarrow> None | Some q \<Rightarrow> phase_run i q ys)"
  by (induction xs arbitrary: p) (auto split: option.splits)

lemma phase_run_messages [simp]:
  "phase_run i (Live a) (map (Message (Endpoint_new i a)) ds) = Some (Live a)"
  by (induction ds) simp_all

lemma phase_run_Gone: "phase_run i Gone es = Some q \<longleftrightarrow> es = [] \<and> q = Gone"
  by (cases es) auto

text \<open>The phase of a register, and of an id in a table.\<close>

definition register_phase :: "('r, RemoteProperties) Register \<Rightarrow> phase" where
  "register_phase r =
     (let p = properties r in if ready p then Live (peer_addr p) else Pending (peer_addr p) (local p))"

definition phase :: "('r, 'l) driver \<Rightarrow> ResourceId \<Rightarrow> phase" where
  "phase d i = (case remote_registry d i of None \<Rightarrow> Gone | Some r \<Rightarrow> register_phase r)"

text \<open>
  The shape of the complete sequence of events about a connection: nothing, a failed connection, or
  its opening, any number of messages, and possibly its end.
\<close>

definition opens :: "ResourceId \<Rightarrow> SocketAddr \<Rightarrow> NetEvent \<Rightarrow> bool" where
  "opens i a e \<longleftrightarrow> e = Connected (Endpoint_new i a) True \<or> (\<exists>l. e = Accepted (Endpoint_new i a) l)"

definition lifecycle :: "ResourceId \<Rightarrow> NetEvent list \<Rightarrow> bool" where
  "lifecycle i es \<longleftrightarrow> es = [] \<or> (\<exists>a.
     es = [Connected (Endpoint_new i a) False] \<or>
     (\<exists>e ds fin. opens i a e \<and> (fin = [] \<or> fin = [Disconnected (Endpoint_new i a)]) \<and>
        es = e # map (Message (Endpoint_new i a)) ds @ fin))"

lemma phase_run_Live:
  assumes "phase_run i (Live a) es = Some q"
  shows "\<exists>ds fin. es = map (Message (Endpoint_new i a)) ds @ fin \<and>
    (fin = [] \<and> q = Live a \<or> fin = [Disconnected (Endpoint_new i a)] \<and> q = Gone)"
  using assms
proof (induction es arbitrary: q)
  case Nil
  then show ?case by simp
next
  case (Cons e es)
  show ?case
  proof (cases e)
    case (Message e' data)
    with Cons.prems have e: "e' = Endpoint_new i a" and "phase_run i (Live a) es = Some q"
      by (auto split: if_splits)
    with Cons.IH obtain ds fin where "es = map (Message (Endpoint_new i a)) ds @ fin"
      "fin = [] \<and> q = Live a \<or> fin = [Disconnected (Endpoint_new i a)] \<and> q = Gone" by blast
    with Message e show ?thesis by (intro exI [of _ "data # ds"] exI [of _ fin]) simp
  next
    case (Disconnected e')
    with Cons.prems have "es = []" "q = Gone" "e' = Endpoint_new i a"
      by (auto simp: phase_run_Gone split: if_splits)
    with Disconnected show ?thesis by (metis append_Nil list.simps(8))
  qed (use Cons.prems in auto)
qed

lemma phase_run_lifecycle:
  assumes "phase_run i (Pending a l) es = Some q"
  shows "lifecycle i es"
proof (cases es)
  case Nil
  then show ?thesis by (simp add: lifecycle_def)
next
  case (Cons e es')
  have live: "opens i a e \<Longrightarrow> phase_run i (Live a) es' = Some q \<Longrightarrow> lifecycle i es"
    using phase_run_Live [of i a es' q] by (fastforce simp: Cons lifecycle_def)
  show ?thesis
  proof (cases e)
    case (Connected e' ok)
    then show ?thesis
      using assms live by (cases l; cases ok) (auto simp: Cons opens_def lifecycle_def phase_run_Gone split: if_splits)
  next
    case (Accepted e' l')
    then show ?thesis
      using assms live by (cases l) (auto simp: Cons opens_def split: if_splits)
  qed (use assms in \<open>cases l; simp add: Cons\<close>)+
qed


lemma driver_upd_triv:
  "remote_registry d i = Some r \<Longrightarrow> d\<lparr>remote_registry := (remote_registry d)(i \<mapsto> r)\<rparr> = d"
  by (simp add: map_upd_triv)

section \<open>The contract of a transport\<close>

text \<open>
  The laws the processor needs of an adapter: an operation on a remote keeps its poll source, a
  registered remote is watched through the stream it was made of, and the resource is always
  available to write.
\<close>

locale stream_adapter =
  fixes A :: "('r, 'l, 'io) adapter"
  assumes receive_source:
      "receive A io r = Some (Done (io', r', ds, st)) \<Longrightarrow> remote_source A r' = remote_source A r"
    and send_source: "send A io r data = Some (Done (io', r', st')) \<Longrightarrow> remote_source A r' = remote_source A r"
    and pending_source:
      "pending A io r = Some (Done (io', r', st'')) \<Longrightarrow> remote_source A r' = remote_source A r"
    and accepted_source: "accepted_resource A s p = Done r \<Longrightarrow> remote_source A r = s"
    and connected_source: "connected_resource A io s p = Done r \<Longrightarrow> remote_source A r = s"
    and always_writable: "ready_to_write A io r"
begin

lemma resolve_cases:
  assumes "resolve_pending_remote A mio io d remote (Endpoint_new i (peer_addr (properties remote))) =
      Some (Done (io', d', remote', effs))"
    and "remote_registry d i = Some remote" and "\<not> ready (properties remote)"
  obtains
    (stays) "d' = d\<lparr>remote_registry := (remote_registry d)(i \<mapsto> remote')\<rparr>"
      "phase_run i (register_phase remote) (events_of i effs) = Some (register_phase remote')"
      "poll_calls effs = []" "remote_source A (resource remote') = remote_source A (resource remote)"
      "\<And>j. j \<noteq> i \<Longrightarrow> events_of j effs = []"
      "peer_addr (properties remote') = peer_addr (properties remote)"
  | (leaves) q where "d' = d\<lparr>remote_registry := (remote_registry d)(i := None)\<rparr>"
      "\<not> ready (properties remote')" "poll_calls effs = []"
      "phase_run i (register_phase remote) (events_of i effs) = Some q"
      "remote_source A (resource remote') = remote_source A (resource remote)"
      "\<And>j. j \<noteq> i \<Longrightarrow> events_of j effs = []"
proof -
  obtain io1 res st where p: "pending A io (resource remote) = Some (Done (io1, res, st))"
    using assms(1) by (auto simp: resolve_pending_remote_def result_simps)
  note src = pending_source [OF p]
  show thesis
  proof (cases st)
    case PendingDisconnected
    have "\<exists>q. phase_run i (register_phase remote) (events_of i effs) = Some q"
      using assms p PendingDisconnected
      by (cases "local (properties remote)")
        (auto simp: resolve_pending_remote_def registry_shared_def registry_deregister_def
          register_phase_def Let_def result_simps)
    then obtain q where "phase_run i (register_phase remote) (events_of i effs) = Some q" ..
    with PendingDisconnected show thesis
      using assms src p
      by (intro leaves)
        (auto simp: resolve_pending_remote_def registry_shared_def registry_deregister_def Let_def result_simps)
  qed (use assms src p in \<open>(intro stays;
        auto simp: resolve_pending_remote_def registry_shared_def Let_def register_phase_def
          mark_as_ready_def split: option.splits)\<close>)+
qed

lemma read_from_remote_cases:
  assumes "read_from_remote A mio io d remote (Endpoint_new i (peer_addr (properties remote))) =
      Some (Done (d', remote', effs))"
    and "remote_registry d i = Some remote" and "ready (properties remote)"
  obtains
    (stays) "d' = d\<lparr>remote_registry := (remote_registry d)(i \<mapsto> remote')\<rparr>"
      "phase_run i (register_phase remote) (events_of i effs) = Some (register_phase remote')"
      "poll_calls effs = []" "remote_source A (resource remote') = remote_source A (resource remote)"
      "\<And>j. j \<noteq> i \<Longrightarrow> events_of j effs = []"
  | (leaves) "d' = d\<lparr>remote_registry := (remote_registry d)(i := None)\<rparr>" "poll_calls effs = []"
      "phase_run i (register_phase remote) (events_of i effs) = Some Gone"
      "remote_source A (resource remote') = remote_source A (resource remote)"
      "\<And>j. j \<noteq> i \<Longrightarrow> events_of j effs = []"
proof -
  obtain io1 res ds st where r: "receive A io (resource remote) = Some (Done (io1, res, ds, st))"
    using assms(1) by (auto simp: read_from_remote_def result_simps)
  note src = receive_source [OF r]
  show thesis
  proof (cases st)
    case ReadDisconnected
    then show thesis
      using assms src r
      by (intro leaves)
        (auto simp: read_from_remote_def registry_shared_def registry_deregister_def Let_def result_simps
          register_phase_def phase_run_append)
  next
    case WaitNextEvent
    then show thesis
      using assms src r
      by (intro stays)
        (auto simp: read_from_remote_def registry_shared_def Let_def register_phase_def)
  qed
qed

text \<open>
  What a handler did to the remote \<open>i\<close>: its table entry is updated and it is still watched, or
  it left the table and the poll. The events about it are a run of its phase.
\<close>

definition handled :: "('r, 'l) driver \<Rightarrow> ResourceId \<Rightarrow> ('r, RemoteProperties) Register \<Rightarrow>
    effect list \<Rightarrow> ('r, 'l) driver \<Rightarrow> bool" where
  "handled d i remote effs d' \<longleftrightarrow> (\<exists>reg q. d' = d\<lparr>remote_registry := reg\<rparr> \<and>
     phase_run i (register_phase remote) (events_of i effs) = Some q \<and>
     (\<forall>j. j \<noteq> i \<longrightarrow> events_of j effs = []) \<and>
     ((\<exists>remote'. reg = (remote_registry d)(i \<mapsto> remote') \<and> q = register_phase remote' \<and> poll_calls effs = [] \<and>
         remote_source A (resource remote') = remote_source A (resource remote)) \<or>
      reg = (remote_registry d)(i := None) \<and>
        poll_calls effs = [Deregistered (remote_source A (resource remote))]))"

lemma handled_stays:
  assumes "d' = d\<lparr>remote_registry := (remote_registry d)(i \<mapsto> remote')\<rparr>"
    and "phase_run i (register_phase remote) (events_of i effs) = Some (register_phase remote')"
    and "poll_calls effs = []" and "remote_source A (resource remote') = remote_source A (resource remote)"
    and "\<And>j. j \<noteq> i \<Longrightarrow> events_of j effs = []"
  shows "handled d i remote effs d'"
  unfolding handled_def using assms by blast

lemma handled_leaves:
  assumes "d' = d\<lparr>remote_registry := (remote_registry d)(i := None)\<rparr>"
    and "phase_run i (register_phase remote) (events_of i effs) = Some q"
    and "poll_calls effs = [Deregistered (remote_source A (resource remote))]"
    and "\<And>j. j \<noteq> i \<Longrightarrow> events_of j effs = []"
  shows "handled d i remote effs d'"
  unfolding handled_def using assms by blast

lemma drop_clone_Done:
  assumes "drop_clone A mio d i remote = Done effs"
  shows "effs = (if remote_registry d i = None
    then [Poll_Call (Deregistered (remote_source A (resource remote)))] else [])"
  using assms
  by (auto simp: drop_clone_def Register_drop_def PollRegistry_remove_def result_simps split: if_splits)

lemma first_step_cases:
  assumes "(if \<not> ready (properties remote)
      then resolve_pending_remote A mio io d remote (Endpoint_new i (peer_addr (properties remote)))
      else Some (Done (io, d, remote, []))) = Some (Done (io', d', remote', effs))"
    and "remote_registry d i = Some remote"
  obtains
    (stays) "d' = d\<lparr>remote_registry := (remote_registry d)(i \<mapsto> remote')\<rparr>"
      "phase_run i (register_phase remote) (events_of i effs) = Some (register_phase remote')"
      "poll_calls effs = []" "remote_source A (resource remote') = remote_source A (resource remote)"
      "\<And>j. j \<noteq> i \<Longrightarrow> events_of j effs = []"
      "peer_addr (properties remote') = peer_addr (properties remote)"
  | (leaves) q where "d' = d\<lparr>remote_registry := (remote_registry d)(i := None)\<rparr>"
      "\<not> ready (properties remote')" "poll_calls effs = []"
      "phase_run i (register_phase remote) (events_of i effs) = Some q"
      "remote_source A (resource remote') = remote_source A (resource remote)"
      "\<And>j. j \<noteq> i \<Longrightarrow> events_of j effs = []"
proof (cases "ready (properties remote)")
  case True
  with assms show thesis by (intro stays) (auto simp: driver_upd_triv)
next
  case False
  with assms(1) have
    "resolve_pending_remote A mio io d remote (Endpoint_new i (peer_addr (properties remote))) =
      Some (Done (io', d', remote', effs))" by simp
  then show thesis by (rule resolve_cases [OF _ assms(2) False]) (fact stays, fact leaves)
qed

lemma process_read_remote:
  assumes "process_read A mio debug io d i = Some (Done (d', effs))"
    and "resource_type i = Remote" and "remote_registry d i = Some remote"
  shows "handled d i remote effs d'"
proof -
  obtain io1 d1 remote1 effs1 remote2 effs2 effs3 where
    first: "(if \<not> ready (properties remote)
      then resolve_pending_remote A mio io d remote (Endpoint_new i (peer_addr (properties remote)))
      else Some (Done (io, d, remote, []))) = Some (Done (io1, d1, remote1, effs1))"
    and second: "(if ready (properties remote1)
      then read_from_remote A mio io1 d1 remote1 (Endpoint_new i (peer_addr (properties remote)))
      else Some (Done (d1, remote1, []))) = Some (Done (d', remote2, effs2))"
    and drop: "drop_clone A mio d' i remote2 = Done effs3" and effs: "effs = effs1 @ effs2 @ effs3"
    using assms by (auto simp: process_read_def registry_get_def Let_def result_simps)
  note drop = drop_clone_Done [OF drop]
  from first assms(3) show ?thesis
  proof (cases rule: first_step_cases)
    case stays
    note st = this
    show ?thesis
    proof (cases "ready (properties remote1)")
      case False
      with second st drop effs show ?thesis by (intro handled_stays [where remote' = remote1]) auto
    next
      case True
      have reg: "remote_registry d1 i = Some remote1" by (simp add: st(1))
      from second True have
        "read_from_remote A mio io1 d1 remote1 (Endpoint_new i (peer_addr (properties remote1))) =
           Some (Done (d', remote2, effs2))" by (simp add: st(6))
      then show ?thesis
      proof (cases rule: read_from_remote_cases [OF _ reg True, consumes 1, case_names stays leaves])
        case stays
        with st drop effs show ?thesis
          by (intro handled_stays [where remote' = remote2]) (auto simp: phase_run_append)
      next
        case leaves
        with st drop effs show ?thesis by (intro handled_leaves) (auto simp: phase_run_append)
      qed
    qed
  next
    case (leaves q)
    with second drop effs show ?thesis by (intro handled_leaves) auto
  qed
qed

lemma process_write_remote:
  assumes "process_write A mio io d i = Some (Done (d', effs))"
    and "resource_type i = Remote" and "remote_registry d i = Some remote"
  shows "handled d i remote effs d'"
proof -
  obtain io1 remote1 effs1 effs3 where
    first: "(if \<not> ready (properties remote)
      then resolve_pending_remote A mio io d remote (Endpoint_new i (peer_addr (properties remote)))
      else Some (Done (io, d, remote, []))) = Some (Done (io1, d', remote1, effs1))"
    and drop: "drop_clone A mio d' i remote1 = Done effs3" and effs: "effs = effs1 @ effs3"
    using assms
    by (auto simp: process_write_def registry_get_def write_to_remote_def always_writable Let_def result_simps)
  note drop = drop_clone_Done [OF drop]
  from first assms(3) show ?thesis
  proof (cases rule: first_step_cases)
    case stays
    with drop effs show ?thesis by (intro handled_stays [where remote' = remote1]) auto
  next
    case (leaves q)
    with drop effs show ?thesis by (intro handled_leaves) auto
  qed
qed

end

section \<open>Runs of the event processor\<close>

definition watched :: "('r, 'l, 'io) adapter \<Rightarrow> ('r, 'l) driver \<Rightarrow> source set" where
  "watched A d = sources (remote_source A) (remote_registry d) \<union> sources (local_source A) (local_registry d)"

text \<open>
  One step of a worker: any handler, with any answers of the operating system. The component
  \<open>used\<close> collects the remote ids registered so far; a registration has a new id (the generator
  never repeats one) and a stream the poll does not watch yet (it was just opened). The generator
  of the remote ids is shared, so between two handlers other threads may have drawn from it.
\<close>

inductive driver_step ::
  "('r, 'l, 'io) adapter \<Rightarrow> mio \<Rightarrow> ResourceId set \<times> ('r, 'l) driver \<Rightarrow> effect list \<Rightarrow>
   ResourceId set \<times> ('r, 'l) driver \<Rightarrow> bool"
  for A :: "('r, 'l, 'io) adapter" and mio :: mio where
  Read: "process_read A mio debug io d i = Some (Done (d', effs)) \<Longrightarrow>
    driver_step A mio (used, d) effs (used, d')"
| Write: "process_write A mio io d i = Some (Done (d', effs)) \<Longrightarrow>
    driver_step A mio (used, d) effs (used, d')"
| Accept_Register: "process_accept_register_remote A mio d local_pair (i, a) stream payload cb = Done (d', effs) \<Longrightarrow>
    resource_type i = Remote \<Longrightarrow> i \<notin> used \<Longrightarrow> stream \<notin> watched A d \<Longrightarrow>
    driver_step A mio (used, d) effs (insert i used, d')"
| Connect_Register: "process_connect_register_remote A mio io d la (i, a) stream payload cb = Done (d', effs) \<Longrightarrow>
    resource_type i = Remote \<Longrightarrow> i \<notin> used \<Longrightarrow> stream \<notin> watched A d \<Longrightarrow>
    driver_step A mio (used, d) effs (insert i used, d')"
| Listen: "process_listen A mio io d config l a cb = Done (d', effs) \<Longrightarrow> resource_type l = Local \<Longrightarrow>
    (\<And>loc la. listen_with A io config a = Done (Ok (loc, la)) \<Longrightarrow> local_source A loc \<notin> watched A d) \<Longrightarrow>
    driver_step A mio (used, d) effs (used, d')"
| Connect: "process_connect A io d config i ra cb = Done (d', effs) \<Longrightarrow>
    driver_step A mio (used, d) effs (used, d')"
| Send: "process_send A io d e data = Some (Done (io', d', status)) \<Longrightarrow>
    effs = Handed e status bs # effs' \<Longrightarrow> effs' = [] \<or> effs' = [Call_Sent cb] \<Longrightarrow> driver_step A mio (used, d) effs (used, d')"
| Close: "process_close A mio d i cb = Done (d', effs) \<Longrightarrow>
    driver_step A mio (used, d) effs (used, d')"
| Is_Ready: "driver_step A mio (used, d) (process_is_ready d i cb) (used, d)"
| Shared: "driver_step A mio (used, d) [] (used, d\<lparr>remote_id_generator := g\<rparr>)"

inductive driver_run ::
  "('r, 'l, 'io) adapter \<Rightarrow> mio \<Rightarrow> ('r, 'l) driver \<Rightarrow> effect list \<Rightarrow> ResourceId set \<times> ('r, 'l) driver \<Rightarrow> bool"
  for A :: "('r, 'l, 'io) adapter" and mio :: mio and d0 :: "('r, 'l) driver" where
  Start: "driver_run A mio d0 [] ({}, d0)"
| Step: "driver_run A mio d0 effs s \<Longrightarrow> driver_step A mio s effs' s' \<Longrightarrow> driver_run A mio d0 (effs @ effs') s'"

text \<open>
  The invariant of a driver: ids sit in the table of their type, a registered remote id is a used
  one, and no two resources share a poll source.
\<close>

definition driver_inv :: "('r, 'l, 'io) adapter \<Rightarrow> ResourceId set \<Rightarrow> ('r, 'l) driver \<Rightarrow> bool" where
  "driver_inv A used d \<longleftrightarrow>
     own_sources (remote_source A) (remote_registry d) \<and> own_sources (local_source A) (local_registry d) \<and>
     sources (remote_source A) (remote_registry d) \<inter> sources (local_source A) (local_registry d) = {} \<and>
     rt.all_ids (\<lambda>i. resource_type i = Remote \<and> i \<in> used) (remote_registry d) \<and>
     rt.all_ids (\<lambda>i. resource_type i = Local) (local_registry d)"

lemma watch_Un:
  "(\<And>s. Deregistered s \<in> set calls \<Longrightarrow> s \<notin> L) \<Longrightarrow> watch (R \<union> L) calls = watch R calls \<union> L"
proof (induction R calls rule: watch.induct)
  case (3 S s cs)
  then have "S \<union> L - {s} = (S - {s}) \<union> L" by auto
  with 3 show ?case by simp
qed simp_all

lemma driver_inv_new: "driver_inv A {} (driver_new g)"
  by (simp add: driver_inv_def driver_new_def registry_new_def own_sources_def rt.all_ids_def
      registry_get_def sources_def)

lemma post_accepted_effects:
  "post_accepted A debug io d loc i as = Done (d', effs) \<Longrightarrow>
   (\<exists>g. d' = d\<lparr>remote_id_generator := g\<rparr>) \<and> poll_calls effs = [] \<and> (\<forall>j. j \<noteq> i \<longrightarrow> events_of j effs = [])"
proof (induction A debug io d loc i as arbitrary: d' effs rule: post_accepted.induct)
  case (1 A debug io d loc i)
  then show ?case by (auto intro: exI [of _ "remote_id_generator d"])
next
  case (2 A debug io d loc i a st p as)
  then obtain la r g d2 effs2 where *: "listener_addr A io loc = Inr la"
    "next_remote_id debug d (adapter_id i) = Done (r, d\<lparr>remote_id_generator := g\<rparr>)"
    "post_accepted A debug io (d\<lparr>remote_id_generator := g\<rparr>) loc i as = Done (d', effs2)"
    "effs = Post r (AcceptRegisterRemote (i, la) (r, a) st p) # effs2"
    by (auto simp: result_simps next_remote_id_def)
  from 2(1) [OF *(3)] *(4) show ?case by auto
next
  case (3 A debug io d loc i a data as)
  then show ?case by (fastforce simp: result_simps)
qed

text \<open>
  What a listener posts for the streams it accepted: one registration each, in order, under the
  next ids of the generator.
\<close>

fun accept_posts :: "ResourceId \<Rightarrow> SocketAddr \<Rightarrow> ResourceId list \<Rightarrow> AcceptedType list \<Rightarrow> effect list" where
  "accept_posts l la (r # rs) (AcceptedRemote a st p # as) =
     Post r (AcceptRegisterRemote (l, la) (r, a) st p) # accept_posts l la rs as"
| "accept_posts l la _ _ = []"

definition is_stream :: "AcceptedType \<Rightarrow> bool" where
  "is_stream a = (case a of AcceptedRemote _ _ _ \<Rightarrow> True | AcceptedData _ _ \<Rightarrow> False)"

lemma post_accepted_posts:
  assumes "\<forall>a \<in> set as. is_stream a" and "listener_addr A io loc = Ok la"
    and "generate_all debug (remote_id_generator d) (replicate (length as) (adapter_id l)) = Done (rs, g)"
  shows "post_accepted A debug io d loc l as = Done (d\<lparr>remote_id_generator := g\<rparr>, accept_posts l la rs as)"
  using assms
proof (induction as arbitrary: d rs)
  case Nil
  then show ?case by auto
next
  case (Cons a as)
  then obtain r g1 rs1 where gen: "generate debug (remote_id_generator d) (adapter_id l) = Done (r, g1)"
    and rest: "generate_all debug g1 (replicate (length as) (adapter_id l)) = Done (rs1, g)" and rs: "rs = r # rs1"
    by (auto simp: result_simps)
  have "post_accepted A debug io (d\<lparr>remote_id_generator := g1\<rparr>) loc l as =
      Done (d\<lparr>remote_id_generator := g\<rparr>, accept_posts l la rs1 as)"
    using Cons.IH [of "d\<lparr>remote_id_generator := g1\<rparr>" rs1] Cons.prems rest by simp
  with gen rs Cons.prems show ?case by (cases a) (simp_all add: is_stream_def next_remote_id_def)
qed

text \<open>What one step keeps: the invariant, the agreement with the poll and the phases.\<close>

definition step_ok :: "('r, 'l, 'io) adapter \<Rightarrow> ResourceId set \<Rightarrow> ('r, 'l) driver \<Rightarrow> effect list \<Rightarrow>
    ResourceId set \<Rightarrow> ('r, 'l) driver \<Rightarrow> bool" where
  "step_ok A used d effs used' d' \<longleftrightarrow>
     driver_inv A used' d' \<and> watch (watched A d) (poll_calls effs) = watched A d' \<and>
     (\<forall>i. resource_type i = Remote \<longrightarrow>
        (i \<in> used' \<longrightarrow> i \<notin> used \<longrightarrow> events_of i effs = [] \<and> (\<exists>a l. phase d' i = Pending a l)) \<and>
        (i \<in> used \<longrightarrow> i \<in> used' \<and> (\<exists>q. phase_run i (phase d i) (events_of i effs) = Some q \<and>
           (phase d' i = q \<or> phase d' i = Gone))) \<and>
        (i \<notin> used' \<longrightarrow> events_of i effs = []))"

lemma step_ok_cong:
  "poll_calls effs = poll_calls effs' \<Longrightarrow> (\<And>i. events_of i effs = events_of i effs') \<Longrightarrow>
   step_ok A used d effs used' d' = step_ok A used d effs' used' d'"
  by (simp add: step_ok_def)

lemma step_ok_silent:
  assumes "driver_inv A used d" and "poll_calls effs = []" and "\<And>i. resource_type i = Remote \<Longrightarrow> events_of i effs = []"
    and "remote_registry d' = remote_registry d" and "local_registry d' = local_registry d"
  shows "step_ok A used d effs used d'"
  using assms by (auto simp: step_ok_def driver_inv_def watched_def phase_def)

context stream_adapter
begin

lemma step_ok_handled:
  assumes inv: "driver_inv A used d" and reg: "remote_registry d i = Some remote"
    and handled: "handled d i remote effs d'"
  shows "step_ok A used d effs used d'"
proof -
  let ?R = "sources (remote_source A) (remote_registry d)" and ?L = "sources (local_source A) (local_registry d)"
  let ?s = "remote_source A (resource remote)"
  from inv have i: "resource_type i = Remote" "i \<in> used" and own: "own_sources (remote_source A) (remote_registry d)"
    and disj: "?R \<inter> ?L = {}"
    using reg by (auto simp: driver_inv_def rt.all_ids_def registry_get_def)
  from handled obtain m q where d': "d' = d\<lparr>remote_registry := m\<rparr>"
    and run: "phase_run i (register_phase remote) (events_of i effs) = Some q"
    and others: "\<And>j. j \<noteq> i \<Longrightarrow> events_of j effs = []"
    and cases: "(\<exists>remote'. m = (remote_registry d)(i \<mapsto> remote') \<and> q = register_phase remote' \<and> poll_calls effs = [] \<and>
         remote_source A (resource remote') = ?s) \<or>
      m = (remote_registry d)(i := None) \<and> poll_calls effs = [Deregistered ?s]"
    unfolding handled_def by blast
  have phases: "phase_run j (phase d j) (events_of j effs) = Some (if j = i then q else phase d j)" for j
    using run others [of j] by (simp add: phase_def reg)
  from reg have "?s \<in> ?R" by (auto simp: sources_iff)
  with disj have s: "?s \<in> ?R" "?s \<notin> ?L" by auto
  from cases show ?thesis
  proof (elim disjE exE conjE)
    fix remote' assume *: "m = (remote_registry d)(i \<mapsto> remote')" "q = register_phase remote'"
      "poll_calls effs = []" "remote_source A (resource remote') = ?s"
    then have "sources (remote_source A) m = ?R" "own_sources (remote_source A) m"
      using own reg by (simp_all add: sources_update)
    then show ?thesis
      using inv i * phases others
      by (auto simp: step_ok_def d' driver_inv_def watched_def phase_def rt.all_ids_def registry_get_def)
  next
    assume *: "m = (remote_registry d)(i := None)" "poll_calls effs = [Deregistered ?s]"
    then have "sources (remote_source A) m = ?R - {?s}" "own_sources (remote_source A) m"
      using own sources_remove [OF own reg] by (auto simp: own_sources_def split: if_splits)
    then show ?thesis
      using inv i * phases others s disj
      by (auto simp: step_ok_def d' driver_inv_def watched_def phase_def rt.all_ids_def registry_get_def)
  qed
qed

lemma step_ok_registered:
  assumes inv: "driver_inv A used d" and i: "resource_type i = Remote" "i \<notin> used"
    and fresh: "remote_source A res \<notin> watched A d"
    and reg: "registry_register mio (remote_source A) (remote_registry d) i res (RemoteProperties_new a l) True =
      Done (m, calls)"
    and effs: "poll_calls effs = calls" "\<And>j. events_of j effs = []"
  shows "step_ok A used d effs (insert i used) (d\<lparr>remote_registry := m\<rparr>)"
proof -
  let ?R = "sources (remote_source A) (remote_registry d)" and ?L = "sources (local_source A) (local_registry d)"
  from inv i have none: "remote_registry d i = None"
    by (auto simp: driver_inv_def rt.all_ids_def registry_get_def)
  note result = registry_register_result [OF reg]
  from inv fresh have own: "own_sources (remote_source A) (remote_registry d)"
    and fr: "remote_source A res \<notin> ?R" "remote_source A res \<notin> ?L"
    by (auto simp: driver_inv_def watched_def)
  note w = registry_register_watch [OF reg own fr(1)]
  have W: "watch (watched A d) calls = sources (remote_source A) m \<union> ?L"
    unfolding watched_def w(1) [symmetric] by (rule watch_Un) (simp add: result none)
  have "sources (remote_source A) m = insert (remote_source A res) ?R"
    using none by (simp add: result(1) sources_insert fun_upd_idem)
  then have "driver_inv A (insert i used) (d\<lparr>remote_registry := m\<rparr>)"
    using inv w(2) i fr by (auto simp: driver_inv_def rt.all_ids_def registry_get_def result(1))
  then show ?thesis
    using W effs i
    by (auto simp: step_ok_def watched_def phase_def result(1) register_phase_def Register_new_def RemoteProperties_new_def)
qed

lemma step_ok_listening:
  assumes inv: "driver_inv A used d" and i: "resource_type i = Local"
    and fresh: "local_source A loc \<notin> watched A d"
    and reg: "registry_register mio (local_source A) (local_registry d) i loc () False = Done (m, calls)"
    and effs: "poll_calls effs = calls" "\<And>j. events_of j effs = []"
  shows "step_ok A used d effs used (d\<lparr>local_registry := m\<rparr>)"
proof -
  let ?R = "sources (remote_source A) (remote_registry d)" and ?L = "sources (local_source A) (local_registry d)"
  note result = registry_register_result [OF reg]
  from inv fresh have own: "own_sources (local_source A) (local_registry d)" and disj: "?R \<inter> ?L = {}"
    and fr: "local_source A loc \<notin> ?R" "local_source A loc \<notin> ?L"
    by (auto simp: driver_inv_def watched_def)
  note w = registry_register_watch [OF reg own fr(2)]
  have "s \<in> ?L" if "Deregistered s \<in> set calls" for s
    using that by (cases "local_registry d i") (auto simp: result sources_iff)
  with disj have "\<And>s. Deregistered s \<in> set calls \<Longrightarrow> s \<notin> ?R" by blast
  then have "watch (?L \<union> ?R) calls = watch ?L calls \<union> ?R" by (rule watch_Un)
  then have W: "watch (watched A d) calls = ?R \<union> sources (local_source A) m"
    by (simp add: watched_def w(1) Un_commute)
  have "sources (local_source A) m \<subseteq> insert (local_source A loc) ?L"
    by (auto simp: result(1) sources_def Register_new_def split: if_splits)
  then have "driver_inv A used (d\<lparr>local_registry := m\<rparr>)"
    using inv w(2) i fr by (auto simp: driver_inv_def rt.all_ids_def registry_get_def result(1))
  then show ?thesis using W effs by (auto simp: step_ok_def watched_def phase_def)
qed

lemma step_ok_closed:
  assumes inv: "driver_inv A used d" and close: "process_close A mio d i cb = Done (d', effs)"
  shows "step_ok A used d effs used d'"
proof (cases "resource_type i")
  case Remote
  let ?L = "sources (local_source A) (local_registry d)"
  from close Remote obtain found m calls where reg: "registry_deregister mio (remote_source A) False
      (remote_registry d) i = Done (found, m, calls)" and d': "d' = d\<lparr>remote_registry := m\<rparr>"
    and effs: "effs = map Poll_Call calls @ [Call_Close cb found]"
    by (auto simp: process_close_def result_simps)
  from inv have "own_sources (remote_source A) (remote_registry d)" by (simp add: driver_inv_def)
  note w = registry_deregister_watch [OF reg this]
  have sub: "sources (remote_source A) m \<subseteq> sources (remote_source A) (remote_registry d)"
    by (auto simp: w(3) sources_def split: if_splits)
  have "s \<notin> ?L" if "Deregistered s \<in> set calls" for s
    using that inv reg by (fastforce simp: registry_deregister_def Register_drop_def PollRegistry_remove_def
        driver_inv_def sources_iff result_simps split: option.splits)
  then have W: "watch (watched A d) calls = sources (remote_source A) m \<union> ?L"
    unfolding watched_def w(1) [symmetric] by (rule watch_Un)
  have "driver_inv A used d'"
    using inv w(2) sub by (auto simp: driver_inv_def d' rt.all_ids_def registry_get_def w(3))
  then show ?thesis using W by (auto simp: step_ok_def d' effs watched_def phase_def w(3))
next
  case Local
  let ?R = "sources (remote_source A) (remote_registry d)"
  from close Local obtain found m calls where reg: "registry_deregister mio (local_source A) False
      (local_registry d) i = Done (found, m, calls)" and d': "d' = d\<lparr>local_registry := m\<rparr>"
    and effs: "effs = map Poll_Call calls @ [Call_Close cb found]"
    by (auto simp: process_close_def result_simps)
  from inv have "own_sources (local_source A) (local_registry d)" by (simp add: driver_inv_def)
  note w = registry_deregister_watch [OF reg this]
  have sub: "sources (local_source A) m \<subseteq> sources (local_source A) (local_registry d)"
    by (auto simp: w(3) sources_def split: if_splits)
  have "s \<notin> ?R" if "Deregistered s \<in> set calls" for s
    using that inv reg by (fastforce simp: registry_deregister_def Register_drop_def PollRegistry_remove_def
        driver_inv_def sources_iff result_simps split: option.splits)
  then have W: "watch (watched A d) calls = ?R \<union> sources (local_source A) m"
    using watch_Un [of calls ?R "sources (local_source A) (local_registry d)"]
    by (simp add: watched_def w(1) Un_commute)
  have "driver_inv A used d'"
    using inv w(2) sub by (auto simp: driver_inv_def d' rt.all_ids_def registry_get_def w(3))
  then show ?thesis using W by (auto simp: step_ok_def d' effs watched_def phase_def)
qed

lemma step_ok_sent:
  assumes inv: "driver_inv A used d" and sent: "process_send A io d e data = Some (Done (io', d', status))"
  shows "step_ok A used d [] used d'"
proof (cases "\<exists>remote. resource_type (resource_id e) = Remote \<and>
    remote_registry d (resource_id e) = Some remote \<and> ready (properties remote)")
  case True
  then obtain remote where *: "resource_type (resource_id e) = Remote"
    "remote_registry d (resource_id e) = Some remote" "ready (properties remote)" by blast
  with sent obtain res where r: "send A io (resource remote) data = Some (Done (io', res, status))"
    and d': "d' = d\<lparr>remote_registry := (remote_registry d)(resource_id e \<mapsto> remote\<lparr>resource := res\<rparr>)\<rparr>"
    by (auto simp: process_send_def Let_def registry_get_def registry_shared_def result_simps)
  have "handled d (resource_id e) remote [] d'"
    using send_source [OF r]
    by (intro handled_stays [where remote' = "remote\<lparr>resource := res\<rparr>"]) (simp_all add: d' register_phase_def)
  then show ?thesis by (rule step_ok_handled [OF inv *(2)])
next
  case False
  then have "d' = d"
    using sent
    by (auto simp: process_send_def Let_def registry_get_def result_simps
        split: ResourceType.splits option.splits if_splits)
  then show ?thesis using inv by (intro step_ok_silent) auto
qed

lemma step_keeps:
  assumes "driver_step A mio s effs s'" and "driver_inv A (fst s) (snd s)"
  shows "step_ok A (fst s) (snd s) effs (fst s') (snd s')"
  using assms
proof (induction rule: driver_step.induct)
  case (Read debug io d i d' effs used)
  show ?case
  proof (cases "resource_type i")
    case Remote
    then show ?thesis
      using Read process_read_remote [OF Read(1) Remote] step_ok_handled [of used d i]
      by (cases "remote_registry d i") (auto simp: process_read_def registry_get_def intro: step_ok_silent)
  next
    case Local
    show ?thesis
    proof (cases "local_registry d i")
      case None
      with Local Read show ?thesis by (auto simp: process_read_def registry_get_def intro: step_ok_silent)
    next
      case (Some loc)
      with Local Read obtain io' as where "post_accepted A debug io' d (resource loc) i as = Done (d', effs)"
        by (auto simp: process_read_def registry_get_def read_from_local_def split: option.splits)
      note effs = post_accepted_effects [OF this]
      have quiet: "events_of j effs = []" if "resource_type j = Remote" for j
        using effs Local that by (cases "j = i") auto
      with effs have "step_ok A used d effs used d'"
        using Read(2) by (intro step_ok_silent) auto
      then show ?thesis by simp
    qed
  qed
next
  case (Write io d i d' effs used)
  show ?case
  proof (cases "resource_type i")
    case Remote
    then show ?thesis
      using Write process_write_remote [OF Write(1) Remote] step_ok_handled [of used d i]
      by (cases "remote_registry d i") (auto simp: process_write_def registry_get_def intro: step_ok_silent)
  next
    case Local
    then show ?thesis using Write by (auto simp: process_write_def intro: step_ok_silent)
  qed
next
  case (Accept_Register d local_pair i a stream payload cb d' effs used)
  then show ?case
    by (auto simp: process_accept_register_remote_def Let_def result_simps accepted_source
        intro!: step_ok_registered)
next
  case (Connect_Register io d la i a stream payload cb d' effs used)
  then show ?case
    by (auto simp: process_connect_register_remote_def Let_def result_simps connected_source
        intro!: step_ok_registered)
next
  case (Listen io d config l a cb d' effs used)
  then obtain ret where ret: "listen_with A io config a = Done ret"
    by (auto simp: process_listen_def result_simps)
  show ?case
  proof (cases ret)
    case (Inl e)
    with ret Listen show ?thesis by (auto simp: process_listen_def intro!: step_ok_silent)
  next
    case (Inr info)
    with ret Listen show ?thesis
      by (cases info) (auto simp: process_listen_def result_simps intro!: step_ok_listening)
  qed
next
  case (Connect io d config i ra cb d' effs used)
  then obtain ret where ret: "connect_with A io config ra = Done ret"
    by (auto simp: process_connect_def result_simps)
  with Connect show ?case
    by (cases ret) (auto simp: process_connect_def split: prod.splits intro!: step_ok_silent)
next
  case (Send io d e data io' d' status effs bs effs' cb used)
  then have "step_ok A used d [] used d'" by (auto intro: step_ok_sent)
  moreover have "step_ok A used d effs used d' = step_ok A used d [] used d'"
    by (rule step_ok_cong) (use Send(2,3) in auto)
  ultimately show ?case by simp
next
  case (Close d i cb d' effs used)
  then show ?case by (auto intro: step_ok_closed)
next
  case (Is_Ready used d i cb)
  then show ?case
    by (auto simp: process_is_ready_def Let_def split: ResourceType.splits option.splits intro!: step_ok_silent)
next
  case (Shared used d g)
  then show ?case by (auto intro: step_ok_silent)
qed

text \<open>The invariant of runs: the processor, the poll, and the history of every connection.\<close>

definition run_ok :: "('r, 'l) driver \<Rightarrow> effect list \<Rightarrow> ResourceId set \<times> ('r, 'l) driver \<Rightarrow> bool" where
  "run_ok d0 effs s \<longleftrightarrow> (case s of (used, d) \<Rightarrow>
     driver_inv A used d \<and> watch {} (poll_calls effs) = watched A d \<and>
     (\<forall>i. resource_type i = Remote \<longrightarrow>
        (i \<notin> used \<longrightarrow> events_of i effs = []) \<and>
        (i \<in> used \<longrightarrow> (\<exists>a l q. phase_run i (Pending a l) (events_of i effs) = Some q \<and>
           (phase d i = q \<or> phase d i = Gone)))))"

lemma run_ok_step:
  assumes run: "run_ok d0 effs s" and step: "driver_step A mio s effs' s'"
  shows "run_ok d0 (effs @ effs') s'"
proof -
  obtain used d used' d' where s: "s = (used, d)" "s' = (used', d')" by (metis surj_pair)
  from run have inv: "driver_inv A used d" and w: "watch {} (poll_calls effs) = watched A d"
    and hist: "\<And>i. resource_type i = Remote \<Longrightarrow> i \<notin> used \<Longrightarrow> events_of i effs = []"
      "\<And>i. resource_type i = Remote \<Longrightarrow> i \<in> used \<Longrightarrow>
         \<exists>a l q. phase_run i (Pending a l) (events_of i effs) = Some q \<and> (phase d i = q \<or> phase d i = Gone)"
    by (auto simp: run_ok_def s)
  from step_keeps [OF step] inv have ok: "step_ok A used d effs' used' d'" by (simp add: s)
  have "\<exists>a l q. phase_run i (Pending a l) (events_of i (effs @ effs')) = Some q \<and> (phase d' i = q \<or> phase d' i = Gone)"
    if i: "resource_type i = Remote" "i \<in> used'" for i
  proof (cases "i \<in> used")
    case False
    with i ok hist(1) show ?thesis
      by (auto simp: step_ok_def)
  next
    case True
    with i hist(2) obtain a l q where q: "phase_run i (Pending a l) (events_of i effs) = Some q"
      "phase d i = q \<or> phase d i = Gone" by blast
    from True i ok obtain q' where q': "phase_run i (phase d i) (events_of i effs') = Some q'"
      "phase d' i = q' \<or> phase d' i = Gone" by (auto simp: step_ok_def)
    show ?thesis
    proof (cases "phase d i = q")
      case True
      with q q' have "phase_run i (Pending a l) (events_of i (effs @ effs')) = Some q'"
        by (simp add: phase_run_append)
      with q'(2) show ?thesis by blast
    next
      case False
      with q q' have "events_of i effs' = []" "phase d' i = Gone" by (auto simp: phase_run_Gone)
      with q show ?thesis by auto
    qed
  qed
  moreover have "events_of i (effs @ effs') = []" if "resource_type i = Remote" "i \<notin> used'" for i
    using that ok hist(1) [of i] by (auto simp: step_ok_def)
  ultimately show ?thesis using ok w by (auto simp: run_ok_def s step_ok_def)
qed

lemma run_ok_driver_run: "driver_run A mio (driver_new g) effs s \<Longrightarrow> run_ok (driver_new g) effs s"
proof (induction rule: driver_run.induct)
  case Start
  show ?case
    by (simp add: run_ok_def driver_inv_new)
      (simp add: watched_def driver_new_def registry_new_def sources_def)
qed (rule run_ok_step)

lemma run_watched:
  "driver_run A mio (driver_new g) effs (used, d) \<Longrightarrow> watch {} (poll_calls effs) = watched A d"
  using run_ok_driver_run [of mio g effs "(used, d)"] by (simp add: run_ok_def)

lemma run_inv: "driver_run A mio (driver_new g) effs (used, d) \<Longrightarrow> driver_inv A used d"
  using run_ok_driver_run [of mio g effs "(used, d)"] by (simp add: run_ok_def)

lemma run_lifecycle:
  assumes "driver_run A mio (driver_new g) effs s" and "resource_type i = Remote"
  shows "lifecycle i (events_of i effs)"
proof (cases "i \<in> fst s")
  case True
  with run_ok_driver_run [OF assms(1)] assms(2) show ?thesis
    by (auto simp: run_ok_def split: prod.splits intro: phase_run_lifecycle)
next
  case False
  with run_ok_driver_run [OF assms(1)] assms(2) show ?thesis
    by (auto simp: run_ok_def lifecycle_def split: prod.splits)
qed

end

end
