(* ===== verification/Tcp.thy ===== *)
theory Tcp
  imports Lifecycle
begin

text \<open>
  The TCP transport: \<open>src/src/adapters/tcp/tcp_adapter.rs\<close>, \<open>tcp_remote.rs\<close> and the instance of
  the event processor in \<open>tcp_driver.rs\<close>. The operating system is the record \<open>os\<close>: the answers it
  will give to the next calls on the socket at hand, and the bytes and settings it was given.
\<close>

section \<open>The operating system\<close>

datatype Domain = IPV4 | IPV6

record os =
  reads :: "nat \<Rightarrow> io_error + bytes"
  writes :: "nat \<Rightarrow> bytes \<Rightarrow> io_error + nat"
  accepts :: "nat \<Rightarrow> io_error + stream \<times> SocketAddr"
  take_error :: "io_error + io_error option"
  stream_peer :: "io_error + SocketAddr"
  stream_local :: "io_error + SocketAddr"
  set_keepalive :: "keepalive \<Rightarrow> io_error + unit"
  socket_new :: "Domain \<Rightarrow> io_error + source"
  set_nonblocking :: "io_error + unit"
  set_nodelay :: "io_error + unit"
  set_reuse_address :: "io_error + unit"
  bind_device :: "string \<Rightarrow> io_error + unit"
  bind_socket :: "SocketAddr \<Rightarrow> io_error + unit"
  listen_socket :: "io_error + unit"
  connect_socket :: "SocketAddr \<Rightarrow> io_error + unit"
  wire :: bytes
  keepalives :: "keepalive list"

text \<open>
  The answers still to come after \<open>n\<close> calls to \<open>read\<close>. An answer \<open>Ok bs\<close> is \<open>Ok (length bs)\<close> with
  \<open>bs\<close> stored in the buffer passed to the call.
\<close>

definition skip_reads :: "nat \<Rightarrow> 'x os_scheme \<Rightarrow> 'x os_scheme" where
  "skip_reads n io = io\<lparr>reads := \<lambda>k. reads io (n + k)\<rparr>"

section \<open>Remote resources\<close>

record TcpRemote =
  tcp_stream :: stream
  tcp_keepalive_opt :: "keepalive option"

partial_function (option) tcp_receive_loop ::
  "(nat \<Rightarrow> io_error + bytes) \<Rightarrow> nat \<Rightarrow> bytes list \<Rightarrow> (nat \<times> bytes list \<times> ReadStatus) option" where
  "tcp_receive_loop rd n datas =
     (case rd n of
        Inr data \<Rightarrow> if data = [] then Some (Suc n, datas, ReadDisconnected)
                    else tcp_receive_loop rd (Suc n) (datas @ [data])
      | Inl e \<Rightarrow> if e = Interrupted then tcp_receive_loop rd (Suc n) datas
                 else if e = WouldBlock then Some (Suc n, datas, WaitNextEvent)
                 else if e = ConnectionReset then Some (Suc n, datas, ReadDisconnected)
                 else Some (Suc n, datas, ReadDisconnected))"

definition tcp_receive :: "os \<Rightarrow> TcpRemote \<Rightarrow> (os \<times> TcpRemote \<times> bytes list \<times> ReadStatus) exec option" where
  "tcp_receive io r =
     map_option (\<lambda>(n, datas, status). Done (skip_reads n io, r, datas, status))
       (tcp_receive_loop (reads io) 0 [])"

text \<open>
  The send loop; \<open>attempts\<close> counts down from 1000. \<open>&data[total_bytes_sent..]\<close> panics when \<open>total_bytes_sent\<close> is past
  the end. The bytes the operating system took are appended to \<open>wire\<close>.
\<close>

fun tcp_send_loop :: "nat \<Rightarrow> os \<Rightarrow> bytes \<Rightarrow> nat \<Rightarrow> (os \<times> SendStatus) exec" where
  "tcp_send_loop 0 io data total_bytes_sent = Done (io, SendAbort)"
| "tcp_send_loop (Suc attempts) io data total_bytes_sent =
     (if length data < total_bytes_sent then Panic
      else
        let answer = writes io 0 (drop total_bytes_sent data); io = io\<lparr>writes := \<lambda>k. writes io (Suc k)\<rparr> in
        case answer of
          Inr n \<Rightarrow>
            let io = io\<lparr>wire := wire io @ take n (drop total_bytes_sent data)\<rparr>; total_bytes_sent = total_bytes_sent + n in
            if total_bytes_sent = length data then Done (io, Sent) else tcp_send_loop attempts io data total_bytes_sent
        | Inl e \<Rightarrow> if e = WouldBlock then tcp_send_loop attempts io data total_bytes_sent
                   else Done (io, ResourceNotFound))"

definition tcp_send :: "os \<Rightarrow> TcpRemote \<Rightarrow> bytes \<Rightarrow> (os \<times> TcpRemote \<times> SendStatus) exec option" where
  "tcp_send io r data = Some (xbind (tcp_send_loop 1000 io data 0) (\<lambda>(io, st). Done (io, r, st)))"

definition check_tcp_stream_ready :: "'x os_scheme \<Rightarrow> PendingStatus" where
  "check_tcp_stream_ready io =
     (case take_error io of
        Inr (Some _) \<Rightarrow> PendingDisconnected
      | _ \<Rightarrow>
        (case stream_peer io of
           Inr _ \<Rightarrow> Ready
         | Inl e \<Rightarrow> if e = NotConnected then Incomplete
                    else if e = InvalidInput then Incomplete
                    else PendingDisconnected))"

text \<open>A failure to set the keepalive is only logged.\<close>

definition tcp_set_keepalive :: "'x os_scheme \<Rightarrow> keepalive option \<Rightarrow> 'x os_scheme" where
  "tcp_set_keepalive io k_opt =
     (case k_opt of
        None \<Rightarrow> io
      | Some k \<Rightarrow> (case set_keepalive io k of Inr _ \<Rightarrow> io\<lparr>keepalives := keepalives io @ [k]\<rparr> | Inl _ \<Rightarrow> io))"

definition tcp_pending :: "os \<Rightarrow> TcpRemote \<Rightarrow> (os \<times> TcpRemote \<times> PendingStatus) exec option" where
  "tcp_pending io r =
     (let status = check_tcp_stream_ready io;
          io = (if status = Ready then tcp_set_keepalive io (tcp_keepalive_opt r) else io) in
      Some (Done (io, r, status)))"

section \<open>Local resources\<close>

record TcpLocal =
  tcp_listener :: source
  tcp_listener_keepalive_opt :: "keepalive option"

definition domain_of :: "SocketAddr \<Rightarrow> Domain" where
  "domain_of a = (case a of V4 _ _ \<Rightarrow> IPV4 | V6 _ _ \<Rightarrow> IPV6)"

text \<open>\<open>CString::new\<close> refuses a string with an interior zero byte.\<close>

definition CString_new :: "string \<Rightarrow> io_error + string" where
  "CString_new s = (if CHR 0x00 \<in> set s then Err InvalidInput else Ok s)"

definition bind_device_if :: "'x os_scheme \<Rightarrow> string option \<Rightarrow> io_error + unit" where
  "bind_device_if io device_opt =
     (case device_opt of
        None \<Rightarrow> Ok ()
      | Some device \<Rightarrow> rbind (CString_new device) (\<lambda>device. bind_device io device))"

text \<open>The part of \<open>listen_with\<close> that the TCP and SSL adapters share: the listening socket.\<close>

definition listening_socket :: "'x os_scheme \<Rightarrow> ListenConfig \<Rightarrow> SocketAddr \<Rightarrow> io_error + source" where
  "listening_socket io config a =
     rbind (socket_new io (domain_of a)) (\<lambda>socket.
     rbind (set_nonblocking io) (\<lambda>_.
     rbind (set_nodelay io) (\<lambda>_.
     rbind (set_reuse_address io) (\<lambda>_.
     rbind (bind_device_if io (bind_device_opt config)) (\<lambda>_.
     rbind (bind_socket io a) (\<lambda>_.
     rbind (listen_socket io) (\<lambda>_. Ok socket)))))))"

definition tcp_listen_with :: "os \<Rightarrow> ListenConfig \<Rightarrow> SocketAddr \<Rightarrow> (io_error + TcpLocal \<times> SocketAddr) exec" where
  "tcp_listen_with io config a =
     (case listening_socket io config a of
        Inl e \<Rightarrow> Done (Err e)
      | Inr listener \<Rightarrow>
          xbind (unwrap (stream_local io)) (\<lambda>local_addr.
          Done (Ok (\<lparr>tcp_listener = listener, tcp_listener_keepalive_opt = listen_keepalive_opt config\<rparr>,
                    local_addr))))"

text \<open>The accept loop of the adapters: \<open>mk\<close> builds the payload of an accepted stream.\<close>

partial_function (option) accept_loop ::
  "(nat \<Rightarrow> io_error + stream \<times> SocketAddr) \<Rightarrow> payload \<Rightarrow> nat \<Rightarrow> AcceptedType list \<Rightarrow> AcceptedType list option" where
  "accept_loop acc payload n accepted =
     (case acc n of
        Inr (stream, a) \<Rightarrow> accept_loop acc payload (Suc n) (accepted @ [AcceptedRemote a stream payload])
      | Inl e \<Rightarrow> if e = WouldBlock then Some accepted
                 else if e = Interrupted then accept_loop acc payload (Suc n) accepted
                 else Some accepted)"

definition tcp_accept :: "os \<Rightarrow> TcpLocal \<Rightarrow> (os \<times> AcceptedType list) option" where
  "tcp_accept io l =
     map_option (\<lambda>accepted. (io, accepted))
       (accept_loop (accepts io) (TcpAcceptPayload (tcp_listener_keepalive_opt l)) 0 [])"

section \<open>Connecting\<close>

text \<open>\<open>ConnectionInfo\<close>: stream, local address, peer address, keepalive and domain name.\<close>

record ConnectionInfo =
  ci_stream :: stream
  ci_local_addr :: SocketAddr
  ci_peer_addr :: SocketAddr
  ci_keepalive_opt :: "keepalive option"
  ci_domain_opt :: "string option"

definition tcp_remote_connect_with :: "'x os_scheme \<Rightarrow> ConnectConfig \<Rightarrow> SocketAddr \<Rightarrow> io_error + ConnectionInfo" where
  "tcp_remote_connect_with io config peer =
     rbind (socket_new io (domain_of peer)) (\<lambda>socket.
     rbind (set_nonblocking io) (\<lambda>_.
     rbind (set_nodelay io) (\<lambda>_.
     rbind (case source_address_opt config of None \<Rightarrow> Ok () | Some a \<Rightarrow> bind_socket io a) (\<lambda>_.
     rbind (bind_device_if io (conn_bind_device_opt config)) (\<lambda>_.
     rbind (case connect_socket io peer of
              Inl e \<Rightarrow> if e \<noteq> InProgress then Err e else Ok ()
            | Inr _ \<Rightarrow> Ok ()) (\<lambda>_.
     rbind (stream_local io) (\<lambda>local_addr.
     Ok \<lparr>ci_stream = socket, ci_local_addr = local_addr, ci_peer_addr = peer,
         ci_keepalive_opt = conn_keepalive_opt config, ci_domain_opt = None\<rparr>)))))))"

definition tcp_connect_with :: "os \<Rightarrow> ConnectConfig \<Rightarrow> RemoteAddr \<Rightarrow>
    (io_error + stream \<times> SocketAddr \<times> SocketAddr \<times> payload) exec" where
  "tcp_connect_with io config raddr =
     xbind (socket_addr raddr) (\<lambda>peer.
     Done (rbind (tcp_remote_connect_with io config peer) (\<lambda>info.
       Ok (ci_stream info, ci_local_addr info, ci_peer_addr info, TcpConnectPayload (ci_keepalive_opt info)))))"

definition tcp_accepted_resource :: "stream \<Rightarrow> payload \<Rightarrow> TcpRemote exec" where
  "tcp_accepted_resource stream boxed =
     xbind (downcast_unchecked as_TcpAcceptPayload boxed) (\<lambda>k.
     Done \<lparr>tcp_stream = stream, tcp_keepalive_opt = k\<rparr>)"

definition tcp_connected_resource :: "os \<Rightarrow> stream \<Rightarrow> payload \<Rightarrow> TcpRemote exec" where
  "tcp_connected_resource io stream boxed =
     xbind (downcast_unchecked as_TcpConnectPayload boxed) (\<lambda>k.
     Done \<lparr>tcp_stream = stream, tcp_keepalive_opt = k\<rparr>)"

section \<open>The adapter\<close>

definition TcpAdapter :: "(TcpRemote, TcpLocal, os) adapter" where
  "TcpAdapter = \<lparr>
     remote_source = tcp_stream, local_source = tcp_listener,
     receive = tcp_receive, send = tcp_send, pending = tcp_pending,
     ready_to_write = ready_to_write_default,
     accept = tcp_accept, send_to = send_to_default,
     listener_addr = (\<lambda>io _. stream_local io),
     listen_with = tcp_listen_with,
     accepted_resource = tcp_accepted_resource, connected_resource = tcp_connected_resource,
     sent_wire = wire, connect_with = tcp_connect_with\<rparr>"

interpretation tcp: stream_adapter TcpAdapter
  by unfold_locales
    (auto simp: TcpAdapter_def tcp_receive_def tcp_send_def tcp_pending_def tcp_accepted_resource_def
      tcp_connected_resource_def ready_to_write_default_def Let_def result_simps)

section \<open>Receiving\<close>

text \<open>Answers after which the receive loop goes on, and the messages they give.\<close>

definition read_goes_on :: "io_error + bytes \<Rightarrow> bool" where
  "read_goes_on a = (case a of Inr bs \<Rightarrow> bs \<noteq> [] | Inl e \<Rightarrow> e = Interrupted)"

definition read_data :: "io_error + bytes \<Rightarrow> bytes list" where
  "read_data a = (case a of Inr bs \<Rightarrow> [bs] | Inl e \<Rightarrow> [])"

definition read_end :: "io_error + bytes \<Rightarrow> ReadStatus" where
  "read_end a = (if a = Err WouldBlock then WaitNextEvent else ReadDisconnected)"

lemma tcp_receive_loop_step:
  "read_goes_on (rd n) \<Longrightarrow> tcp_receive_loop rd n ds = tcp_receive_loop rd (Suc n) (ds @ read_data (rd n))"
  "\<not> read_goes_on (rd n) \<Longrightarrow> tcp_receive_loop rd n ds = Some (Suc n, ds, read_end (rd n))"
  by (subst tcp_receive_loop.simps; auto simp: read_goes_on_def read_data_def read_end_def split: sum.splits)+

lemma tcp_receive_loop_returns:
  assumes "\<forall>j<k. read_goes_on (rd (n + j))" and "\<not> read_goes_on (rd (n + k))"
  shows "tcp_receive_loop rd n ds =
    Some (Suc (n + k), ds @ concat (map (\<lambda>j. read_data (rd (n + j))) [0..<k]), read_end (rd (n + k)))"
  using assms
proof (induction k arbitrary: n ds)
  case 0
  then show ?case by (simp add: tcp_receive_loop_step(2))
next
  case (Suc k)
  have step: "tcp_receive_loop rd n ds = tcp_receive_loop rd (Suc n) (ds @ read_data (rd n))"
    using Suc.prems(1) [rule_format, of 0] by (simp add: tcp_receive_loop_step(1))
  have "\<forall>j<k. read_goes_on (rd (Suc n + j))" using Suc.prems(1) by auto
  with Suc.IH [of "Suc n" "ds @ read_data (rd n)"] Suc.prems(2) step show ?case
    by (simp add: concat_map_upt_Suc del: upt_Suc)
qed

text \<open>Conversely, a loop that returned met an answer that ends it.\<close>

lemma tcp_receive_loop_met_end:
  "tcp_receive_loop rd n ds = Some r \<Longrightarrow> \<exists>k\<ge>n. \<not> read_goes_on (rd k)"
proof (rule tcp_receive_loop.raw_induct [of "\<lambda>rd n ds r. \<exists>k\<ge>n. \<not> read_goes_on (rd k)"])
  fix f :: "(nat \<Rightarrow> io_error + bytes) \<Rightarrow> nat \<Rightarrow> bytes list \<Rightarrow> (nat \<times> bytes list \<times> ReadStatus) option"
    and rd :: "nat \<Rightarrow> io_error + bytes" and n ds r
  assume IH: "\<And>rd n ds r. f rd n ds = Some r \<Longrightarrow> \<exists>k\<ge>n. \<not> read_goes_on (rd k)"
    and run: "(case rd n of
        Inr data \<Rightarrow> if data = [] then Some (Suc n, ds, ReadDisconnected)
                    else f rd (Suc n) (ds @ [data])
      | Inl e \<Rightarrow> if e = Interrupted then f rd (Suc n) ds
                 else if e = WouldBlock then Some (Suc n, ds, WaitNextEvent)
                 else if e = ConnectionReset then Some (Suc n, ds, ReadDisconnected)
                 else Some (Suc n, ds, ReadDisconnected)) = Some r"
  show "\<exists>k\<ge>n. \<not> read_goes_on (rd k)"
  proof (cases "read_goes_on (rd n)")
    case True
    with run obtain ds' where "f rd (Suc n) ds' = Some r"
      by (auto simp: read_goes_on_def split: sum.splits if_splits)
    from IH [OF this] show ?thesis using Suc_leD by blast
  qed blast
qed

section \<open>Sending\<close>

text \<open>The contract of \<open>write\<close>: it never claims more bytes than it was given.\<close>

definition write_ok :: "'x os_scheme \<Rightarrow> bool" where
  "write_ok io \<longleftrightarrow> (\<forall>k bs n. writes io k bs = Ok n \<longrightarrow> n \<le> length bs)"

lemma tcp_send_loop_wire:
  assumes "write_ok io" and "t \<le> length data" and "t < length data \<or> data = []"
  shows "\<exists>io' st sent. tcp_send_loop k io data t = Done (io', st) \<and> wire io' = wire io @ sent \<and>
    prefix sent (drop t data) \<and> (st = Sent \<longrightarrow> sent = drop t data) \<and>
    (st \<noteq> Sent \<longrightarrow> st \<in> {SendAbort, ResourceNotFound} \<and> (sent \<noteq> drop t data \<or> data = []))"
  using assms
proof (induction k arbitrary: io t)
  case 0
  then show ?case by auto
next
  case (Suc k)
  let ?io = "io\<lparr>writes := \<lambda>k. writes io (Suc k)\<rparr>"
  show ?case
  proof (cases "writes io 0 (drop t data)")
    case (Inl e)
    show ?thesis
    proof (cases "e = WouldBlock")
      case True
      have "write_ok ?io" using Suc.prems(1) by (simp add: write_ok_def)
      from Suc.IH [OF this Suc.prems(2,3)] Inl True Suc.prems(2) show ?thesis by simp
    qed (use Inl Suc.prems in auto)
  next
    case (Inr n)
    then have n: "n \<le> length data - t" using Suc.prems(1) by (metis length_drop write_ok_def)
    let ?io' = "?io\<lparr>wire := wire io @ take n (drop t data)\<rparr>"
    show ?thesis
    proof (cases "t + n = length data")
      case True
      then show ?thesis using Inr Suc.prems(2) by (auto simp: Let_def)
    next
      case False
      have wo: "write_ok ?io'" using Suc.prems(1) by (simp add: write_ok_def)
      have bounds: "t + n \<le> length data" "t + n < length data \<or> data = []"
        using n Suc.prems(2) False by auto
      from Suc.IH [OF wo bounds] obtain io' st sent where
        IH: "tcp_send_loop k ?io' data (t + n) = Done (io', st)" "wire io' = wire ?io' @ sent"
        "prefix sent (drop (t + n) data)" "st = Sent \<longrightarrow> sent = drop (t + n) data"
        "st \<noteq> Sent \<longrightarrow> st \<in> {SendAbort, ResourceNotFound} \<and> (sent \<noteq> drop (t + n) data \<or> data = [])" by blast
      have split: "drop t data = take n (drop t data) @ drop (t + n) data"
        by (metis add.commute append_take_drop_id drop_drop)
      show ?thesis
      proof (intro exI conjI)
        show "tcp_send_loop (Suc k) io data t = Done (io', st)"
          using Inr IH(1) False Suc.prems(2) by (simp add: Let_def)
        show "wire io' = wire io @ take n (drop t data) @ sent" using IH(2) by simp
        show "prefix (take n (drop t data) @ sent) (drop t data)" using IH(3) by (subst split) simp
        show "st = Sent \<longrightarrow> take n (drop t data) @ sent = drop t data" using IH(4) split by simp
        show "st \<noteq> Sent \<longrightarrow> st \<in> {SendAbort, ResourceNotFound} \<and>
            (take n (drop t data) @ sent \<noteq> drop t data \<or> data = [])"
          using IH(5) split by (metis same_append_eq)
      qed
    qed
  qed
qed

section \<open>Accepting\<close>

definition accept_goes_on :: "io_error + stream \<times> SocketAddr \<Rightarrow> bool" where
  "accept_goes_on a = (case a of Inr _ \<Rightarrow> True | Inl e \<Rightarrow> e = Interrupted)"

definition accept_data :: "payload \<Rightarrow> io_error + stream \<times> SocketAddr \<Rightarrow> AcceptedType list" where
  "accept_data p a = (case a of Inr (stream, addr') \<Rightarrow> [AcceptedRemote addr' stream p] | Inl e \<Rightarrow> [])"

lemma accept_loop_step:
  "accept_goes_on (acc n) \<Longrightarrow> accept_loop acc p n ds = accept_loop acc p (Suc n) (ds @ accept_data p (acc n))"
  "\<not> accept_goes_on (acc n) \<Longrightarrow> accept_loop acc p n ds = Some ds"
  by (subst accept_loop.simps; auto simp: accept_goes_on_def accept_data_def split: sum.splits prod.splits)+

lemma accept_loop_returns:
  assumes "\<forall>j<k. accept_goes_on (acc (n + j))" and "\<not> accept_goes_on (acc (n + k))"
  shows "accept_loop acc p n ds = Some (ds @ concat (map (\<lambda>j. accept_data p (acc (n + j))) [0..<k]))"
  using assms
proof (induction k arbitrary: n ds)
  case 0
  then show ?case by (simp add: accept_loop_step(2))
next
  case (Suc k)
  have step: "accept_loop acc p n ds = accept_loop acc p (Suc n) (ds @ accept_data p (acc n))"
    using Suc.prems(1) [rule_format, of 0] by (simp add: accept_loop_step(1))
  have "\<forall>j<k. accept_goes_on (acc (Suc n + j))" using Suc.prems(1) by auto
  with Suc.IH [of "Suc n" "ds @ accept_data p (acc n)"] Suc.prems(2) step show ?case
    by (simp add: concat_map_upt_Suc del: upt_Suc)
qed

section \<open>Properties\<close>

text \<open>
  A TCP \<open>receive\<close> hands over exactly the non-empty chunks the socket gave, in order, up to the
  first answer that ends the loop, and reports a disconnection exactly when that answer is not
  \<open>WouldBlock\<close>; it returns if and only if there is such an answer.
\<close>
theorem tcp_receive_exact:
  "tcp_receive io r =
    (if \<exists>k. \<not> read_goes_on (reads io k)
     then let k = (LEAST k. \<not> read_goes_on (reads io k)) in
       Some (Done (skip_reads (Suc k) io, r, concat (map (\<lambda>j. read_data (reads io j)) [0..<k]),
         if reads io k = Err WouldBlock then WaitNextEvent else ReadDisconnected))
     else None)"
proof (cases "\<exists>k. \<not> read_goes_on (reads io k)")
  case True
  define k where "k = (LEAST k. \<not> read_goes_on (reads io k))"
  have "\<not> read_goes_on (reads io k)" using True unfolding k_def by (rule LeastI_ex)
  moreover have "\<forall>j<k. read_goes_on (reads io j)" using not_less_Least k_def by blast
  ultimately have "tcp_receive_loop (reads io) 0 [] =
      Some (Suc k, concat (map (\<lambda>j. read_data (reads io j)) [0..<k]), read_end (reads io k))"
    using tcp_receive_loop_returns [of k "reads io" 0 "[]"] by simp
  with True show ?thesis by (simp add: tcp_receive_def k_def read_end_def Let_def)
next
  case False
  then have "tcp_receive_loop (reads io) 0 [] = None"
    using tcp_receive_loop_met_end [of "reads io" 0 "[]"] by (meson not_None_eq)
  with False show ?thesis by (simp add: tcp_receive_def)
qed

text \<open>
  C34: A TCP \<open>send\<close> always returns and never panics when \<open>write\<close> keeps to its slice. What it put on
  the wire is a prefix of the data; it is all of it when the status is \<open>Sent\<close>, and strictly less
  (for non-empty data) when the status is \<open>SendAbort\<close> or \<open>ResourceNotFound\<close>, the only others.
\<close>
theorem tcp_send_wire:
  assumes "write_ok io"
  shows "\<exists>io' st sent. tcp_send io r data = Some (Done (io', r, st)) \<and> wire io' = wire io @ sent \<and>
    prefix sent data \<and> (st = Sent \<longrightarrow> sent = data) \<and>
    (st \<noteq> Sent \<longrightarrow> st \<in> {SendAbort, ResourceNotFound} \<and> (sent \<noteq> data \<or> data = []))"
  using tcp_send_loop_wire [OF assms, of 0 data 1000] by (auto simp: tcp_send_def)

text \<open>An operating system that takes everything, and gives one message and the end of the stream.\<close>

definition os_demo :: os where
  "os_demo = \<lparr>reads = (\<lambda>n. if n = 0 then Ok [104, 105] else if n = 1 then Err Interrupted else Ok []),
     writes = (\<lambda>n bs. if n = 0 then Ok (min 1 (length bs)) else if n = 1 then Err WouldBlock else Ok (length bs)),
     accepts = (\<lambda>n. if n < 2 then Ok (10 + n, V4 7 (of_nat n)) else Err WouldBlock),
     take_error = Ok None, stream_peer = Ok (V4 7 80), stream_local = Ok (V4 1 99),
     set_keepalive = (\<lambda>_. Ok ()), socket_new = (\<lambda>_. Ok 5), set_nonblocking = Ok (), set_nodelay = Ok (),
     set_reuse_address = Ok (), bind_device = (\<lambda>_. Ok ()), bind_socket = (\<lambda>_. Ok ()),
     listen_socket = Ok (), connect_socket = (\<lambda>_. Err InProgress), wire = [], keepalives = []\<rparr>"

lemma write_ok_demo: "write_ok os_demo"
  by (auto simp: write_ok_def os_demo_def)

theorem tcp_send_wire_witness:
  "\<exists>io' st sent. tcp_send os_demo \<lparr>tcp_stream = 10, tcp_keepalive_opt = None\<rparr> [1, 2, 3] =
      Some (Done (io', \<lparr>tcp_stream = 10, tcp_keepalive_opt = None\<rparr>, st)) \<and> wire io' = wire os_demo @ sent \<and>
    prefix sent [1, 2, 3] \<and> (st = Sent \<longrightarrow> sent = [1, 2, 3]) \<and>
    (st \<noteq> Sent \<longrightarrow> st \<in> {SendAbort, ResourceNotFound} \<and> (sent \<noteq> [1, 2, 3] \<or> [1 :: u8, 2, 3] = []))"
  by (rule tcp_send_wire [OF write_ok_demo])

text \<open>
  In every run of the TCP event processor from its start, whatever the operating system
  answers and in whatever order the handlers run, the events about one remote id are the life of
  one connection: none, or a single failed \<open>Connected\<close>, or first one successful \<open>Connected\<close> or
  \<open>Accepted\<close>, then only messages, and at most one \<open>Disconnected\<close>, which is last; all carry the
  same endpoint.
\<close>
theorem tcp_lifecycle:
  assumes "driver_run TcpAdapter mio (driver_new g) effs s" and "resource_type i = Remote"
  shows "lifecycle i (events_of i effs)"
  using assms by (rule tcp.run_lifecycle)

text \<open>A run with all three events: an accepted stream, its handshake, one message, its end.\<close>

definition demo_id :: ResourceId where "demo_id = ResourceId 1"

definition demo_listener :: ResourceId where "demo_listener = ResourceId 0x80000000000001"

lemma demo_ids: "resource_type demo_id = Remote" "resource_type demo_listener = Local"
  by (simp_all add: demo_id_def demo_listener_def resource_type_def RESOURCE_TYPE_POS_def)

lemma demo_run:
  "\<exists>effs s. driver_run TcpAdapter mio_ok (driver_new g) effs s \<and>
    events_of demo_id effs = [Accepted (Endpoint_new demo_id (V4 7 80)) demo_listener,
      Message (Endpoint_new demo_id (V4 7 80)) [104, 105], Disconnected (Endpoint_new demo_id (V4 7 80))]"
proof -
  let ?P = "\<lambda>b. \<lparr>peer_addr = V4 7 80, local = Some demo_listener, ready = b\<rparr>"
  let ?d = "\<lambda>b. (driver_new g)\<lparr>remote_registry :=
    Map.empty(demo_id \<mapsto> \<lparr>resource = \<lparr>tcp_stream = 10, tcp_keepalive_opt = None\<rparr>, properties = ?P b\<rparr>)\<rparr>"
  let ?e1 = "map Poll_Call [Registered 10 (Token_from_id demo_id) READABLE_WRITABLE] @
    [Call_Connect 0 (Ok (Endpoint_new demo_id (V4 7 80), V4 1 99))]"
  let ?e2 = "[Emit (Accepted (Endpoint_new demo_id (V4 7 80)) demo_listener)]"
  let ?e3 = "[Emit (Message (Endpoint_new demo_id (V4 7 80)) [104, 105]),
    Emit (Disconnected (Endpoint_new demo_id (V4 7 80))), Poll_Call (Deregistered 10)]"
  have step1: "driver_step TcpAdapter mio_ok ({}, driver_new g) ?e1 (insert demo_id {}, ?d False)"
    by (rule driver_step.Accept_Register [where local_pair = "(demo_listener, V4 1 99)" and a = "V4 7 80"
          and stream = 10 and payload = "TcpAcceptPayload None" and cb = 0])
      (simp_all add: process_accept_register_remote_def TcpAdapter_def tcp_accepted_resource_def
        registry_register_def PollRegistry_add_def mio_ok_def driver_new_def registry_new_def Register_new_def
        RemoteProperties_new_def demo_ids watched_def sources_def Let_def)
  have step2: "driver_step TcpAdapter mio_ok ({demo_id}, ?d False) ?e2 ({demo_id}, ?d True)"
    by (rule driver_step.Write [where io = os_demo and i = demo_id])
      (simp add: process_write_def registry_get_def demo_ids resolve_pending_remote_def TcpAdapter_def
        tcp_pending_def check_tcp_stream_ready_def os_demo_def tcp_set_keepalive_def registry_shared_def
        mark_as_ready_def write_to_remote_def ready_to_write_default_def drop_clone_def Let_def)
  have step3: "driver_step TcpAdapter mio_ok ({demo_id}, ?d True) ?e3 ({demo_id}, driver_new g)"
    by (rule driver_step.Read [where io = os_demo and i = demo_id])
      (simp add: process_read_def registry_get_def demo_ids TcpAdapter_def read_from_remote_def
        tcp_receive_def tcp_receive_loop.simps os_demo_def registry_shared_def registry_deregister_def
        drop_clone_def Register_drop_def PollRegistry_remove_def mio_ok_def driver_new_def registry_new_def Let_def)
  have "driver_run TcpAdapter mio_ok (driver_new g) ((([] @ ?e1) @ ?e2) @ ?e3) ({demo_id}, driver_new g)"
    by (intro driver_run.Step [OF _ step3] driver_run.Step [OF _ step2] driver_run.Step [OF _ step1] driver_run.Start)
  then show ?thesis by (intro exI conjI) (assumption, simp)
qed

theorem tcp_lifecycle_witness:
  "\<exists>effs s. driver_run TcpAdapter mio_ok (driver_new (ResourceIdGenerator_new Remote)) effs s \<and>
    events_of demo_id effs \<noteq> [] \<and> lifecycle demo_id (events_of demo_id effs)"
  using demo_run [of "ResourceIdGenerator_new Remote"] tcp_lifecycle [OF _ demo_ids(1)]
  by (metis list.distinct(1))

text \<open>
  C24: In every run of the TCP event processor, the sources the poll watches are exactly the
  sources of the remotes and listeners in the driver's tables: a resource that left its table is
  deregistered, and nothing registered is forgotten.
\<close>
theorem tcp_watched:
  assumes "driver_run TcpAdapter mio (driver_new g) effs (used, d)"
  shows "watch {} (poll_calls effs) = tcp_stream ` resource ` ran (remote_registry d) \<union>
    tcp_listener ` resource ` ran (local_registry d)"
  using tcp.run_watched [OF assms] by (simp add: watched_def TcpAdapter_def sources_ran)

theorem tcp_watched_witness:
  "\<exists>effs used d. driver_run TcpAdapter mio_ok (driver_new (ResourceIdGenerator_new Remote)) effs (used, d) \<and>
    effs \<noteq> [] \<and> watch {} (poll_calls effs) = tcp_stream ` resource ` ran (remote_registry d) \<union>
    tcp_listener ` resource ` ran (local_registry d)"
  using demo_run [of "ResourceIdGenerator_new Remote"] tcp_watched [of mio_ok]
  by (metis events_of_Cons(1) list.distinct(1) surj_pair)

text \<open>
  What \<open>is_ready\<close> answers in any reachable state of the TCP processor: for a remote id, whether
  it is registered and past its handshake; for a local id nothing, even for a live listener,
  because the lookup goes to the table of the remotes.
\<close>
theorem tcp_is_ready:
  assumes "driver_run TcpAdapter mio (driver_new g) effs (used, d)"
  shows "process_is_ready d i cb = [Call_Ready cb
    (if resource_type i = Remote
     then (case phase d i of Gone \<Rightarrow> None | Pending _ _ \<Rightarrow> Some False | Live _ \<Rightarrow> Some True)
     else None)]"
proof (cases "resource_type i")
  case Remote
  then show ?thesis
    by (simp add: process_is_ready_def registry_get_def phase_def register_phase_def Let_def split: option.splits)
next
  case Local
  with tcp.run_inv [OF assms] have "registry_get (remote_registry d) i = None"
    by (intro rt.not_found [where P = "\<lambda>i. resource_type i = Remote \<and> i \<in> used"]) (simp_all add: driver_inv_def)
  with Local show ?thesis by (simp add: process_is_ready_def Let_def)
qed

theorem tcp_is_ready_witness:
  "\<exists>effs used d. driver_run TcpAdapter mio_ok (driver_new (ResourceIdGenerator_new Remote)) effs (used, d) \<and>
    effs \<noteq> [] \<and> process_is_ready d demo_listener 3 = [Call_Ready 3 None]"
proof -
  obtain effs used d where run: "driver_run TcpAdapter mio_ok (driver_new (ResourceIdGenerator_new Remote)) effs (used, d)"
    and "effs \<noteq> []"
    using demo_run [of "ResourceIdGenerator_new Remote"] by (metis events_of_Cons(1) list.distinct(1) surj_pair)
  with tcp_is_ready [OF run, of demo_listener 3] show ?thesis by (auto simp: demo_ids)
qed

text \<open>
  A read event on a listener accepts every waiting connection and posts one registration for
  each, in order, under ids that are distinct, new to the generator, of type remote and of the
  listener's adapter.
\<close>
theorem tcp_accept_posts:
  assumes "local_registry d l = Some loc" and "resource_type l = Local" and "stream_local io = Ok la"
    and "\<forall>j<k. accept_goes_on (accepts io j)" and "\<not> accept_goes_on (accepts io k)"
    and "unat (last_id (remote_id_generator d)) + k \<le> 2 ^ 48"
  shows "\<exists>rs g as. as = concat (map (\<lambda>j. accept_data (TcpAcceptPayload
        (tcp_listener_keepalive_opt (resource loc))) (accepts io j)) [0..<k]) \<and>
    process_read TcpAdapter mio debug io d l = Some (Done (d\<lparr>remote_id_generator := g\<rparr>, accept_posts l la rs as)) \<and>
    distinct rs \<and> map adapter_id rs = replicate (length as) (adapter_id l) \<and>
    (\<forall>r \<in> set rs. resource_type r = gen_type (remote_id_generator d)) \<and>
    map (\<lambda>r. unat (base_value r)) rs =
      [unat (last_id (remote_id_generator d)) ..< unat (last_id (remote_id_generator d)) + length as]"
proof -
  define p where "p = TcpAcceptPayload (tcp_listener_keepalive_opt (resource loc))"
  define as where "as = concat (map (\<lambda>j. accept_data p (accepts io j)) [0..<k])"
  have "length as \<le> (\<Sum>j\<leftarrow>[0..<k]. 1)"
    unfolding as_def length_concat map_map
    by (rule sum_list_mono) (auto simp: accept_data_def split: sum.splits prod.splits)
  then have range: "unat (last_id (remote_id_generator d)) + length (replicate (length as) (adapter_id l)) \<le> 2 ^ 48"
    using assms(6) by (simp add: sum_list_triv)
  have streams: "\<forall>a \<in> set as. is_stream a"
    by (auto simp: as_def accept_data_def is_stream_def split: sum.splits prod.splits)
  obtain rs g where gen: "generate_all debug (remote_id_generator d) (replicate (length as) (adapter_id l)) = Done (rs, g)"
    and ids: "distinct rs" "map adapter_id rs = replicate (length as) (adapter_id l)"
      "\<forall>r \<in> set rs. resource_type r = gen_type (remote_id_generator d)"
      "map (\<lambda>r. unat (base_value r)) rs =
        [unat (last_id (remote_id_generator d)) ..< unat (last_id (remote_id_generator d)) + length as]"
    using generate_all_ids [OF range, of debug] by (auto simp: adapter_id_le)
  have "tcp_accept io (resource loc) = Some (io, as)"
    using accept_loop_returns [of k "accepts io" 0 p "[]"] assms(4,5) by (simp add: tcp_accept_def as_def p_def)
  with post_accepted_posts [OF streams _ gen, of TcpAdapter io "resource loc" la] assms(1-3)
  have "process_read TcpAdapter mio debug io d l = Some (Done (d\<lparr>remote_id_generator := g\<rparr>, accept_posts l la rs as))"
    by (simp add: process_read_def registry_get_def read_from_local_def TcpAdapter_def)
  with ids show ?thesis by (auto simp: as_def p_def)
qed

definition demo_local :: "(TcpLocal, unit) Register" where
  "demo_local = Register_new \<lparr>tcp_listener = 5, tcp_listener_keepalive_opt = None\<rparr> ()"

definition demo_listening :: "(TcpRemote, TcpLocal) driver" where
  "demo_listening = (driver_new (ResourceIdGenerator_new Remote))\<lparr>local_registry := [demo_listener \<mapsto> demo_local]\<rparr>"

lemma demo_listening_simps:
  "local_registry demo_listening demo_listener = Some demo_local"
  "unat (last_id (remote_id_generator demo_listening)) = 1"
  "gen_type (remote_id_generator demo_listening) = Remote"
  "tcp_listener_keepalive_opt (resource demo_local) = None"
  by (simp_all add: demo_listening_def driver_new_def ResourceIdGenerator_new_def demo_local_def Register_new_def)

lemma os_demo_accepts:
  "stream_local os_demo = Ok (V4 1 99)" "\<forall>j<2. accept_goes_on (accepts os_demo j)"
  "\<not> accept_goes_on (accepts os_demo 2)"
  "length (concat (map (\<lambda>j. accept_data p (accepts os_demo j)) [0..<2])) = 2"
  by (simp_all add: os_demo_def accept_goes_on_def accept_data_def upt_rec)

theorem tcp_accept_posts_witness:
  "\<exists>rs g as. length as = 2 \<and> distinct rs \<and> map (\<lambda>r. unat (base_value r)) rs = [1 ..< 1 + length as] \<and>
    process_read TcpAdapter mio_ok True os_demo demo_listening demo_listener =
      Some (Done (demo_listening\<lparr>remote_id_generator := g\<rparr>, accept_posts demo_listener (V4 1 99) rs as))"
proof -
  let ?as = "concat (map (\<lambda>j. accept_data (TcpAcceptPayload None) (accepts os_demo j)) [0..<2])"
  obtain rs g where "process_read TcpAdapter mio_ok True os_demo demo_listening demo_listener =
      Some (Done (demo_listening\<lparr>remote_id_generator := g\<rparr>, accept_posts demo_listener (V4 1 99) rs ?as))"
    and "distinct rs" and "map (\<lambda>r. unat (base_value r)) rs = [1 ..< 1 + length ?as]"
    using tcp_accept_posts [of demo_listening demo_listener demo_local os_demo "V4 1 99" 2 mio_ok True]
      os_demo_accepts(1-3)
    by (simp only: demo_listening_simps demo_ids) auto
  then show ?thesis using os_demo_accepts(4) by blast
qed

end
