(* ===== verification/Ssl.thy ===== *)
theory Ssl
  imports Tcp
begin

text \<open>
  The TLS transport: \<open>src/src/adapters/ssl/ssl_adapter.rs\<close>, \<open>ssl_acceptor.rs\<close>, \<open>ssl_connector.rs\<close>,
  \<open>ssl_remote.rs\<close>, \<open>ssl_stream.rs\<close> and the instance of the event processor in \<open>ssl_driver.rs\<close>. The
  crates \<open>rustls\<close>, \<open>rustls_pemfile\<close> and \<open>http\<close> are external: their answers are fields of the record
  \<open>tls\<close>, which extends the operating system of the TCP transport. The fields \<open>reads\<close> and \<open>writes\<close>
  are here the answers of \<open>StreamOwned::read\<close> and \<open>write\<close>.
\<close>

section \<open>The external crates\<close>

type_synonym certificate = nat
type_synonym private_key = nat

datatype pem_item = Pkcs1Key private_key | Pkcs8Key private_key | Sec1Key private_key | OtherItem

text \<open>
  \<open>tls_read\<close>, \<open>tls_accept\<close> and \<open>into_connection\<close> are indexed by the call: the \<open>n\<close>-th attempt to
  accept a client hello. \<open>tls_accept\<close> tells whether the hello is complete.
\<close>

record tls = os +
  tls_read :: "nat \<Rightarrow> io_error + nat"
  tls_accept :: "nat \<Rightarrow> string + bool"
  into_connection :: "nat \<Rightarrow> string + unit"
  open_file :: "string \<Rightarrow> io_error + bytes"
  pem_certs :: "bytes \<Rightarrow> (io_error + certificate) list"
  pem_read_one :: "bytes \<Rightarrow> io_error + pem_item option"
  with_single_cert :: "certificate list \<Rightarrow> private_key \<Rightarrow> string + server_config"
  server_name :: "string \<Rightarrow> string + string"
  client_connection :: "string \<Rightarrow> string + unit"
  parse_uri :: "string \<Rightarrow> string + string option"
  show_addr :: "SocketAddr \<Rightarrow> string"

section \<open>Streams\<close>

text \<open>
  \<open>SslStream\<close>. The two options of \<open>RustlsStreamAcceptor\<close> are taken and put back within one call of
  \<open>receive\<close>, so between calls they are always present; the acceptor itself is state of \<open>rustls\<close>.
\<close>

datatype SslStream =
    RustlsStreamAcceptor (raw_stream: stream) server_config
  | RustlsClientConnection (raw_stream: stream)
  | RustlsServerConnection (raw_stream: stream)

record SslRemote =
  ssl_stream :: SslStream
  ssl_keepalive_opt :: "keepalive option"

section \<open>The acceptor and the connector\<close>

text \<open>
  \<open>wrap_stream\<close> of the acceptor. Every branch of its \<open>loop\<close> leaves it, so it makes one attempt. The
  error carries the kind and gives the socket and the configuration back.
\<close>

definition acceptor_wrap_stream ::
  "'x tls_scheme \<Rightarrow> nat \<Rightarrow> stream \<Rightarrow> server_config \<Rightarrow> (io_error \<times> stream \<times> server_config) + SslStream" where
  "acceptor_wrap_stream io n socket config =
     (case tls_read io n of
        Inl e \<Rightarrow> Err (e, socket, config)
      | Inr _ \<Rightarrow>
        (case tls_accept io n of
           Inl _ \<Rightarrow> Err (OtherKind, socket, config)
         | Inr False \<Rightarrow> Err (OtherKind, socket, config)
         | Inr True \<Rightarrow>
           (case into_connection io n of
              Inr _ \<Rightarrow> Ok (RustlsServerConnection socket)
            | Inl _ \<Rightarrow> Err (OtherKind, socket, config))))"

fun unwrap_all :: "('e + 'a) list \<Rightarrow> 'a list exec" where
  "unwrap_all [] = Done []"
| "unwrap_all (r # rs) = xbind (unwrap r) (\<lambda>x. xbind (unwrap_all rs) (\<lambda>xs. Done (x # xs)))"

definition load_certs :: "'x tls_scheme \<Rightarrow> string \<Rightarrow> certificate list exec" where
  "load_certs io path = xbind (unwrap (open_file io path)) (\<lambda>content. unwrap_all (pem_certs io content))"

text \<open>The \<open>loop\<close> of \<open>load_private_key\<close> ends in its first turn.\<close>

definition load_private_key :: "'x tls_scheme \<Rightarrow> string \<Rightarrow> private_key exec" where
  "load_private_key io path =
     xbind (unwrap (open_file io path)) (\<lambda>content.
     xbind (unwrap (pem_read_one io content)) (\<lambda>item_opt.
     case item_opt of
       Some (Pkcs1Key key) \<Rightarrow> Done key
     | Some (Pkcs8Key key) \<Rightarrow> Done key
     | Some (Sec1Key key) \<Rightarrow> Done key
     | _ \<Rightarrow> Panic))"

definition create_server_config :: "'x tls_scheme \<Rightarrow> string \<Rightarrow> string \<Rightarrow> server_config exec" where
  "create_server_config io certs_path key_path =
     xbind (load_certs io certs_path) (\<lambda>certs.
     xbind (load_private_key io key_path) (\<lambda>key.
     unwrap (with_single_cert io certs key)))"

text \<open>\<open>wrap_stream\<close> of the connector, called without a client configuration of the user.\<close>

definition connector_wrap_stream :: "'x tls_scheme \<Rightarrow> stream \<Rightarrow> string \<Rightarrow> string + SslStream" where
  "connector_wrap_stream io socket domain =
     rbind (server_name io domain) (\<lambda>name.
     rbind (client_connection io name) (\<lambda>_.
     Ok (RustlsClientConnection socket)))"

section \<open>Remote resources\<close>

text \<open>
  The receive loop: \<open>a\<close> counts the attempts of the acceptor and \<open>n\<close> the reads. The arms of the two
  connection states are the same.
\<close>

partial_function (option) ssl_receive_loop ::
  "'x tls_scheme \<Rightarrow> SslStream \<Rightarrow> nat \<Rightarrow> nat \<Rightarrow> bytes list \<Rightarrow>
   (nat \<times> nat \<times> SslStream \<times> bytes list \<times> ReadStatus) option" where
  "ssl_receive_loop io stream a n datas =
     (case stream of
        RustlsStreamAcceptor sock config \<Rightarrow>
          (case acceptor_wrap_stream io a sock config of
             Inr s \<Rightarrow> ssl_receive_loop io s (Suc a) n datas
           | Inl (e, sock, config) \<Rightarrow>
               if e = WouldBlock then ssl_receive_loop io (RustlsStreamAcceptor sock config) (Suc a) n datas
               else Some (Suc a, n, RustlsStreamAcceptor sock config, datas, ReadDisconnected))
      | RustlsClientConnection sock \<Rightarrow>
          (case reads io n of
             Inr data \<Rightarrow> if data = [] then Some (a, Suc n, stream, datas, ReadDisconnected)
                         else ssl_receive_loop io stream a (Suc n) (datas @ [data])
           | Inl e \<Rightarrow> if e = Interrupted then ssl_receive_loop io stream a (Suc n) datas
                      else if e = WouldBlock then Some (a, Suc n, stream, datas, WaitNextEvent)
                      else Some (a, Suc n, stream, datas, ReadDisconnected))
      | RustlsServerConnection sock \<Rightarrow>
          (case reads io n of
             Inr data \<Rightarrow> if data = [] then Some (a, Suc n, stream, datas, ReadDisconnected)
                         else ssl_receive_loop io stream a (Suc n) (datas @ [data])
           | Inl e \<Rightarrow> if e = Interrupted then ssl_receive_loop io stream a (Suc n) datas
                      else if e = WouldBlock then Some (a, Suc n, stream, datas, WaitNextEvent)
                      else Some (a, Suc n, stream, datas, ReadDisconnected)))"

definition skip_accepts :: "nat \<Rightarrow> 'x tls_scheme \<Rightarrow> 'x tls_scheme" where
  "skip_accepts a io = io\<lparr>tls_read := \<lambda>k. tls_read io (a + k), tls_accept := \<lambda>k. tls_accept io (a + k),
     into_connection := \<lambda>k. into_connection io (a + k)\<rparr>"

definition ssl_receive :: "tls \<Rightarrow> SslRemote \<Rightarrow> (tls \<times> SslRemote \<times> bytes list \<times> ReadStatus) exec option" where
  "ssl_receive io r =
     map_option (\<lambda>(a, n, stream, datas, status).
         Done (skip_accepts a (skip_reads n io), r\<lparr>ssl_stream := stream\<rparr>, datas, status))
       (ssl_receive_loop io (ssl_stream r) 0 0 [])"

text \<open>The send loop, without the bound on the attempts that the TCP transport has.\<close>

partial_function (option) ssl_send_loop :: "tls \<Rightarrow> bytes \<Rightarrow> nat \<Rightarrow> (tls \<times> SendStatus) exec option" where
  "ssl_send_loop io data total_bytes_sent =
     (if length data < total_bytes_sent then Some Panic
      else
        let answer = writes io 0 (drop total_bytes_sent data); io = io\<lparr>writes := \<lambda>k. writes io (Suc k)\<rparr> in
        case answer of
          Inr n \<Rightarrow>
            let io = io\<lparr>wire := wire io @ take n (drop total_bytes_sent data)\<rparr>;
                total_bytes_sent = total_bytes_sent + n in
            if total_bytes_sent = length data then Some (Done (io, Sent))
            else ssl_send_loop io data total_bytes_sent
        | Inl e \<Rightarrow> if e = WouldBlock then ssl_send_loop io data total_bytes_sent
                   else Some (Done (io, ResourceNotFound)))"

definition ssl_send :: "tls \<Rightarrow> SslRemote \<Rightarrow> bytes \<Rightarrow> (tls \<times> SslRemote \<times> SendStatus) exec option" where
  "ssl_send io r data =
     (case ssl_stream r of
        RustlsStreamAcceptor _ _ \<Rightarrow> Some Panic
      | RustlsClientConnection _ \<Rightarrow>
          obind (ssl_send_loop io data 0) (\<lambda>(io, status). Some (Done (io, r, status)))
      | RustlsServerConnection _ \<Rightarrow>
          obind (ssl_send_loop io data 0) (\<lambda>(io, status). Some (Done (io, r, status))))"

text \<open>\<open>check_stream_ready\<close> asks the TCP socket under the stream in each of its three states.\<close>

definition check_stream_ready :: "'x tls_scheme \<Rightarrow> SslStream \<Rightarrow> PendingStatus" where
  "check_stream_ready io stream =
     (case stream of
        RustlsStreamAcceptor sock _ \<Rightarrow> check_tcp_stream_ready io
      | RustlsClientConnection sock \<Rightarrow> check_tcp_stream_ready io
      | RustlsServerConnection sock \<Rightarrow> check_tcp_stream_ready io)"

definition ssl_pending :: "tls \<Rightarrow> SslRemote \<Rightarrow> (tls \<times> SslRemote \<times> PendingStatus) exec option" where
  "ssl_pending io r =
     (let status = check_stream_ready io (ssl_stream r);
          io = (if status = Ready then tcp_set_keepalive io (ssl_keepalive_opt r) else io) in
      Some (Done (io, r, status)))"

section \<open>Local resources and connecting\<close>

record SslLocal =
  ssl_listener :: source
  ssl_listener_keepalive_opt :: "keepalive option"
  ssl_server_config :: server_config

definition ssl_listen_with :: "tls \<Rightarrow> ListenConfig \<Rightarrow> SocketAddr \<Rightarrow> (io_error + SslLocal \<times> SocketAddr) exec" where
  "ssl_listen_with io config a =
     (case listening_socket io config a of
        Inl e \<Rightarrow> Done (Err e)
      | Inr listener \<Rightarrow>
          xbind (unwrap (stream_local io)) (\<lambda>local_addr.
          xbind (create_server_config io (cert_path config) (pri_key_path config)) (\<lambda>server_config.
          Done (Ok (\<lparr>ssl_listener = listener, ssl_listener_keepalive_opt = listen_keepalive_opt config,
                     ssl_server_config = server_config\<rparr>, local_addr)))))"

definition ssl_accept :: "tls \<Rightarrow> SslLocal \<Rightarrow> (tls \<times> AcceptedType list) option" where
  "ssl_accept io l =
     map_option (\<lambda>accepted. (io, accepted))
       (accept_loop (accepts io)
         (SslAcceptPayload (ssl_listener_keepalive_opt l) (ssl_server_config l)) 0 [])"

text \<open>\<open>ssl_remote_connect_with\<close> takes the host of the parsed URI (\<open>host\<close>) as the domain name.\<close>

definition ssl_remote_connect_with ::
  "'x tls_scheme \<Rightarrow> ConnectConfig \<Rightarrow> SocketAddr \<Rightarrow> string option \<Rightarrow> io_error + ConnectionInfo" where
  "ssl_remote_connect_with io config peer host =
     rbind (socket_new io (domain_of peer)) (\<lambda>socket.
     rbind (set_nonblocking io) (\<lambda>_.
     rbind (set_nodelay io) (\<lambda>_.
     rbind (case source_address_opt config of None \<Rightarrow> Ok () | Some a \<Rightarrow> bind_socket io a) (\<lambda>_.
     rbind (bind_device_if io (conn_bind_device_opt config)) (\<lambda>_.
     rbind (case connect_socket io peer of
              Inl e \<Rightarrow> if e \<noteq> InProgress then Err e else Ok ()
            | Inr _ \<Rightarrow> Ok ()) (\<lambda>_.
     rbind (stream_local io) (\<lambda>local_addr.
     rbind (case host of Some d \<Rightarrow> Ok d | None \<Rightarrow> Err NotFound) (\<lambda>domain.
     Ok \<lparr>ci_stream = socket, ci_local_addr = local_addr, ci_peer_addr = peer,
         ci_keepalive_opt = conn_keepalive_opt config, ci_domain_opt = Some domain\<rparr>))))))))"

text \<open>\<open>Display\<close> of a \<open>RemoteAddr\<close>.\<close>

definition RemoteAddr_to_string :: "'x tls_scheme \<Rightarrow> RemoteAddr \<Rightarrow> string" where
  "RemoteAddr_to_string io raddr = (case raddr of Socket a \<Rightarrow> show_addr io a | Str s \<Rightarrow> s)"

definition ssl_connect_with :: "tls \<Rightarrow> ConnectConfig \<Rightarrow> RemoteAddr \<Rightarrow>
    (io_error + stream \<times> SocketAddr \<times> SocketAddr \<times> payload) exec" where
  "ssl_connect_with io config raddr =
     xbind (assert_that (is_string raddr)) (\<lambda>_.
     xbind (unwrap (parse_uri io (RemoteAddr_to_string io raddr))) (\<lambda>host.
     xbind (socket_addr raddr) (\<lambda>peer.
     Done (rbind (ssl_remote_connect_with io config peer host) (\<lambda>info.
       Ok (ci_stream info, ci_local_addr info, ci_peer_addr info,
           SslConnectPayload (ci_keepalive_opt info) (ci_domain_opt info)))))))"

definition ssl_accepted_resource :: "stream \<Rightarrow> payload \<Rightarrow> SslRemote exec" where
  "ssl_accepted_resource stream boxed =
     xbind (downcast_unchecked as_SslAcceptPayload boxed) (\<lambda>(k, config).
     Done \<lparr>ssl_stream = RustlsStreamAcceptor stream config, ssl_keepalive_opt = k\<rparr>)"

definition ssl_connected_resource :: "tls \<Rightarrow> stream \<Rightarrow> payload \<Rightarrow> SslRemote exec" where
  "ssl_connected_resource io stream boxed =
     xbind (downcast_unchecked as_SslConnectPayload boxed) (\<lambda>(k, domain_opt).
     case domain_opt of
       None \<Rightarrow> Panic
     | Some domain \<Rightarrow>
         (case connector_wrap_stream io stream domain of
            Inr s \<Rightarrow> Done \<lparr>ssl_stream = s, ssl_keepalive_opt = k\<rparr>
          | Inl _ \<Rightarrow> Panic))"

section \<open>The adapter\<close>

definition SslAdapter :: "(SslRemote, SslLocal, tls) adapter" where
  "SslAdapter = \<lparr>
     remote_source = (\<lambda>r. raw_stream (ssl_stream r)), local_source = ssl_listener,
     receive = ssl_receive, send = ssl_send, pending = ssl_pending,
     ready_to_write = ready_to_write_default,
     accept = ssl_accept, send_to = send_to_default,
     listener_addr = (\<lambda>io _. stream_local io),
     listen_with = ssl_listen_with,
     accepted_resource = ssl_accepted_resource, connected_resource = ssl_connected_resource,
     sent_wire = wire, connect_with = ssl_connect_with\<rparr>"

section \<open>The driver\<close>

text \<open>
  \<open>SslDriver\<close> is the event processor of \<open>Driver\<close> over this adapter: its handlers differ from those of
  \<open>TcpDriver\<close> in the resources they build (\<open>ssl_accepted_resource\<close>, \<open>ssl_connected_resource\<close>) and in how
  they connect (\<open>ssl_connect_with\<close>), which are fields of the adapter.
\<close>

type_synonym ssl_driver = "(SslRemote, SslLocal) driver"

definition ssl_driver_new :: "ResourceIdGenerator \<Rightarrow> ssl_driver" where
  "ssl_driver_new = driver_new"

definition ssl_next_remote_id :: "bool \<Rightarrow> ssl_driver \<Rightarrow> u8 \<Rightarrow> (ResourceId \<times> ssl_driver) exec" where
  "ssl_next_remote_id = next_remote_id"

definition ssl_resolve_pending_remote ::
  "mio \<Rightarrow> tls \<Rightarrow> ssl_driver \<Rightarrow> (SslRemote, RemoteProperties) Register \<Rightarrow> Endpoint \<Rightarrow>
   (tls \<times> ssl_driver \<times> (SslRemote, RemoteProperties) Register \<times> effect list) exec option" where
  "ssl_resolve_pending_remote = resolve_pending_remote SslAdapter"

definition ssl_write_to_remote :: "tls \<Rightarrow> (SslRemote, RemoteProperties) Register \<Rightarrow> Endpoint \<Rightarrow> effect list" where
  "ssl_write_to_remote = write_to_remote SslAdapter"

definition ssl_read_from_remote ::
  "mio \<Rightarrow> tls \<Rightarrow> ssl_driver \<Rightarrow> (SslRemote, RemoteProperties) Register \<Rightarrow> Endpoint \<Rightarrow>
   (ssl_driver \<times> (SslRemote, RemoteProperties) Register \<times> effect list) exec option" where
  "ssl_read_from_remote = read_from_remote SslAdapter"

definition ssl_read_from_local ::
  "bool \<Rightarrow> tls \<Rightarrow> ssl_driver \<Rightarrow> SslLocal \<Rightarrow> ResourceId \<Rightarrow> (ssl_driver \<times> effect list) exec option" where
  "ssl_read_from_local = read_from_local SslAdapter"

definition ssl_process_read ::
  "mio \<Rightarrow> bool \<Rightarrow> tls \<Rightarrow> ssl_driver \<Rightarrow> ResourceId \<Rightarrow> (ssl_driver \<times> effect list) exec option" where
  "ssl_process_read = process_read SslAdapter"

definition ssl_process_write ::
  "mio \<Rightarrow> tls \<Rightarrow> ssl_driver \<Rightarrow> ResourceId \<Rightarrow> (ssl_driver \<times> effect list) exec option" where
  "ssl_process_write = process_write SslAdapter"

definition ssl_process_accept_register_remote ::
  "mio \<Rightarrow> ssl_driver \<Rightarrow> ResourceId \<times> SocketAddr \<Rightarrow> ResourceId \<times> SocketAddr \<Rightarrow> stream \<Rightarrow> payload \<Rightarrow> callback \<Rightarrow>
   (ssl_driver \<times> effect list) exec" where
  "ssl_process_accept_register_remote = process_accept_register_remote SslAdapter"

definition ssl_process_connect_register_remote ::
  "mio \<Rightarrow> tls \<Rightarrow> ssl_driver \<Rightarrow> SocketAddr \<Rightarrow> ResourceId \<times> SocketAddr \<Rightarrow> stream \<Rightarrow> payload \<Rightarrow> callback \<Rightarrow>
   (ssl_driver \<times> effect list) exec" where
  "ssl_process_connect_register_remote = process_connect_register_remote SslAdapter"

definition ssl_process_listen ::
  "mio \<Rightarrow> tls \<Rightarrow> ssl_driver \<Rightarrow> ListenConfig \<Rightarrow> ResourceId \<Rightarrow> SocketAddr \<Rightarrow> callback \<Rightarrow>
   (ssl_driver \<times> effect list) exec" where
  "ssl_process_listen = process_listen SslAdapter"

definition ssl_process_connect ::
  "tls \<Rightarrow> ssl_driver \<Rightarrow> ConnectConfig \<Rightarrow> ResourceId \<Rightarrow> RemoteAddr \<Rightarrow> callback \<Rightarrow> (ssl_driver \<times> effect list) exec" where
  "ssl_process_connect = process_connect SslAdapter"

definition ssl_process_send ::
  "tls \<Rightarrow> ssl_driver \<Rightarrow> Endpoint \<Rightarrow> bytes \<Rightarrow> (tls \<times> ssl_driver \<times> SendStatus) exec option" where
  "ssl_process_send = process_send SslAdapter"

definition ssl_process_close ::
  "mio \<Rightarrow> ssl_driver \<Rightarrow> ResourceId \<Rightarrow> callback \<Rightarrow> (ssl_driver \<times> effect list) exec" where
  "ssl_process_close = process_close SslAdapter"

definition ssl_process_is_ready :: "ssl_driver \<Rightarrow> ResourceId \<Rightarrow> callback \<Rightarrow> effect list" where
  "ssl_process_is_ready = process_is_ready"

lemmas ssl_driver_defs = ssl_process_read_def ssl_process_write_def ssl_process_accept_register_remote_def
  ssl_process_connect_register_remote_def ssl_process_listen_def ssl_process_connect_def ssl_process_send_def
  ssl_process_close_def ssl_process_is_ready_def

lemma acceptor_wrap_stream_raw:
  "acceptor_wrap_stream io n sock config = Ok s \<Longrightarrow> s = RustlsServerConnection sock"
  "acceptor_wrap_stream io n sock config = Err (e, sock', config') \<Longrightarrow> sock' = sock \<and> config' = config"
  by (auto simp: acceptor_wrap_stream_def split: sum.splits bool.splits)

lemma ssl_receive_loop_raw:
  "ssl_receive_loop io s a n ds = Some (a', n', s', ds', st) \<Longrightarrow> raw_stream s' = raw_stream s"
  by (drule ssl_receive_loop.raw_induct [where P = "\<lambda>io s a n ds r. raw_stream (fst (snd (snd r))) = raw_stream s", rotated])
    (auto split: SslStream.splits sum.splits if_splits prod.splits dest!: acceptor_wrap_stream_raw)

lemma ssl_connected_raw: "ssl_connected_resource io s b = Done r \<Longrightarrow> raw_stream (ssl_stream r) = s"
proof -
  assume ret: "ssl_connected_resource io s b = Done r"
  then obtain k domain_opt where "b = SslConnectPayload k domain_opt"
    by (auto simp: ssl_connected_resource_def result_simps)
  with ret show ?thesis
    by (cases domain_opt) (auto simp: ssl_connected_resource_def connector_wrap_stream_def result_simps split: sum.splits)
qed

interpretation ssl: stream_adapter SslAdapter
proof unfold_locales
  fix io io' :: tls and r r' :: SslRemote and ds st
  assume "receive SslAdapter io r = Some (Done (io', r', ds, st))"
  then show "remote_source SslAdapter r' = remote_source SslAdapter r"
    by (auto simp: SslAdapter_def ssl_receive_def dest: ssl_receive_loop_raw)
qed (auto simp: SslAdapter_def ssl_send_def ssl_pending_def ssl_accepted_resource_def
    ready_to_write_default_def Let_def result_simps
    split: SslStream.splits option.splits sum.splits dest: ssl_connected_raw)

section \<open>The receive loop\<close>

lemma ssl_receive_loop_acceptor:
  "ssl_receive_loop io (RustlsStreamAcceptor sock c) a n ds =
     (case acceptor_wrap_stream io a sock c of
        Inr s \<Rightarrow> ssl_receive_loop io s (Suc a) n ds
      | Inl (e, _, _) \<Rightarrow>
          if e = WouldBlock then ssl_receive_loop io (RustlsStreamAcceptor sock c) (Suc a) n ds
          else Some (Suc a, n, RustlsStreamAcceptor sock c, ds, ReadDisconnected))"
  by (subst ssl_receive_loop.simps)
    (auto split: sum.splits dest: acceptor_wrap_stream_raw(2))

lemma wrap_would_block:
  "tls_read io a = Err WouldBlock \<Longrightarrow> acceptor_wrap_stream io a sock c = Err (WouldBlock, sock, c)"
  by (simp add: acceptor_wrap_stream_def)

text \<open>The loop turns as long as the socket has no bytes for the acceptor.\<close>

lemma ssl_receive_loop_spins:
  "\<forall>j<k. tls_read io (a + j) = Err WouldBlock \<Longrightarrow>
   ssl_receive_loop io (RustlsStreamAcceptor sock c) a n ds =
   ssl_receive_loop io (RustlsStreamAcceptor sock c) (a + k) n ds"
proof (induction k arbitrary: a)
  case (Suc k)
  have "ssl_receive_loop io (RustlsStreamAcceptor sock c) a n ds =
      ssl_receive_loop io (RustlsStreamAcceptor sock c) (Suc a) n ds"
    using Suc.prems [rule_format, of 0] by (subst ssl_receive_loop_acceptor) (simp add: wrap_would_block)
  also have "\<dots> = ssl_receive_loop io (RustlsStreamAcceptor sock c) (Suc a + k) n ds"
    using Suc.prems by (intro Suc.IH) auto
  finally show ?case by simp
qed simp

lemma ssl_receive_loop_blocked:
  "ssl_receive_loop io s a n ds = Some r \<Longrightarrow>
   s = RustlsStreamAcceptor sock c \<longrightarrow> (\<exists>k\<ge>a. tls_read io k \<noteq> Err WouldBlock)"
proof (rule ssl_receive_loop.raw_induct [where P = "\<lambda>io s a n ds r.
      s = RustlsStreamAcceptor sock c \<longrightarrow> (\<exists>k\<ge>a. tls_read io k \<noteq> Err WouldBlock)"], goal_cases)
  case (1 f io s a n ds r)
  show ?case
  proof (cases "s = RustlsStreamAcceptor sock c \<and> tls_read io a = Err WouldBlock")
    case True
    with 1(3) have "f io s (Suc a) n ds = Some r" by (simp add: wrap_would_block)
    from 1(2) [OF this] show ?thesis using Suc_leD by blast
  qed auto
qed

definition established :: "SslStream \<Rightarrow> bool" where
  "established s = (case s of RustlsStreamAcceptor _ _ \<Rightarrow> False | _ \<Rightarrow> True)"

lemma ssl_receive_loop_step:
  assumes "established s"
  shows "read_goes_on (reads io n) \<Longrightarrow>
      ssl_receive_loop io s a n ds = ssl_receive_loop io s a (Suc n) (ds @ read_data (reads io n))"
    and "\<not> read_goes_on (reads io n) \<Longrightarrow> ssl_receive_loop io s a n ds = Some (a, Suc n, s, ds, read_end (reads io n))"
  using assms
  by (subst ssl_receive_loop.simps; auto simp: established_def read_goes_on_def read_data_def read_end_def
      split: SslStream.splits sum.splits)+

lemma ssl_receive_loop_met_end:
  "ssl_receive_loop io s a n ds = Some r \<Longrightarrow> established s \<longrightarrow> (\<exists>k\<ge>n. \<not> read_goes_on (reads io k))"
proof (rule ssl_receive_loop.raw_induct
    [where P = "\<lambda>io s a n ds r. established s \<longrightarrow> (\<exists>k\<ge>n. \<not> read_goes_on (reads io k))"], goal_cases)
  case (1 f io s a n ds r)
  show ?case
  proof (cases "established s \<and> read_goes_on (reads io n)")
    case True
    with 1(3) obtain ds' where "f io s a (Suc n) ds' = Some r"
      by (auto simp: read_goes_on_def established_def split: SslStream.splits sum.splits if_splits)
    from 1(2) [OF this] show ?thesis using Suc_leD by blast
  qed auto
qed

lemma ssl_receive_loop_returns:
  assumes "established s"
  shows "\<forall>j<k. read_goes_on (reads io (n + j)) \<Longrightarrow> \<not> read_goes_on (reads io (n + k)) \<Longrightarrow>
    ssl_receive_loop io s a n ds = Some (a, Suc (n + k), s,
      ds @ concat (map (\<lambda>j. read_data (reads io (n + j))) [0..<k]), read_end (reads io (n + k)))"
proof (induction k arbitrary: n ds)
  case 0
  then show ?case by (simp add: ssl_receive_loop_step(2) [OF assms])
next
  case (Suc k)
  have step: "ssl_receive_loop io s a n ds = ssl_receive_loop io s a (Suc n) (ds @ read_data (reads io n))"
    using Suc.prems(1) [rule_format, of 0] by (simp add: ssl_receive_loop_step(1) [OF assms])
  have "\<forall>j<k. read_goes_on (reads io (Suc n + j))" using Suc.prems(1) by auto
  with Suc.IH [of "Suc n" "ds @ read_data (reads io n)"] Suc.prems(2) step show ?case
    by (simp add: concat_map_upt_Suc del: upt_Suc)
qed

text \<open>On an established connection the loop is the one of the TCP transport.\<close>

lemma ssl_receive_loop_tcp:
  assumes "established s"
  shows "ssl_receive_loop io s a n ds =
    map_option (\<lambda>(n, ds, st). (a, n, s, ds, st)) (tcp_receive_loop (reads io) n ds)"
proof (cases "\<exists>k. \<not> read_goes_on (reads io (n + k))")
  case True
  define k where "k = (LEAST k. \<not> read_goes_on (reads io (n + k)))"
  have "\<not> read_goes_on (reads io (n + k))" using True unfolding k_def by (rule LeastI_ex)
  moreover have "\<forall>j<k. read_goes_on (reads io (n + j))" using not_less_Least k_def by blast
  ultimately show ?thesis by (simp add: ssl_receive_loop_returns [OF assms] tcp_receive_loop_returns)
next
  case False
  then have "\<not> (\<exists>k\<ge>n. \<not> read_goes_on (reads io k))" by (metis le_Suc_ex)
  then have "ssl_receive_loop io s a n ds = None" "tcp_receive_loop (reads io) n ds = None"
    using ssl_receive_loop_met_end [of io s a n ds] tcp_receive_loop_met_end [of "reads io" n ds] assms
    by (meson not_None_eq)+
  then show ?thesis by simp
qed

section \<open>The send loop\<close>

text \<open>
  A fair socket: every error of \<open>write\<close> is \<open>WouldBlock\<close>, and again and again a call takes at least
  one byte.
\<close>

definition takes_bytes :: "(bytes \<Rightarrow> io_error + nat) \<Rightarrow> bool" where
  "takes_bytes w \<longleftrightarrow> (\<forall>bs. bs \<noteq> [] \<longrightarrow> (\<exists>n>0. w bs = Ok n))"

definition fair_writes :: "'x os_scheme \<Rightarrow> bool" where
  "fair_writes io \<longleftrightarrow> (\<forall>k bs e. writes io k bs = Err e \<longrightarrow> e = WouldBlock) \<and>
     (\<forall>k. \<exists>j\<ge>k. takes_bytes (writes io j))"

lemma fair_writes_next:
  assumes "fair_writes io"
  shows "fair_writes (io\<lparr>writes := \<lambda>k. writes io (Suc k)\<rparr>)"
proof -
  have "\<exists>j\<ge>k. takes_bytes (writes io (Suc j))" for k
    using assms unfolding fair_writes_def by (metis Suc_le_D Suc_le_mono)
  with assms show ?thesis by (simp add: fair_writes_def)
qed

lemma fair_writes_wire [simp]: "fair_writes (io\<lparr>wire := w\<rparr>) = fair_writes io" "write_ok (io\<lparr>wire := w\<rparr>) = write_ok io"
  by (simp_all add: fair_writes_def write_ok_def)

abbreviation next_write :: "tls \<Rightarrow> tls" where
  "next_write io \<equiv> io\<lparr>writes := \<lambda>k. writes io (Suc k)\<rparr>"

lemma ssl_send_loop_blocked:
  "writes io 0 (drop t data) = Err WouldBlock \<Longrightarrow> t \<le> length data \<Longrightarrow>
   ssl_send_loop io data t = ssl_send_loop (next_write io) data t"
  by (subst ssl_send_loop.simps) (simp add: Let_def)

lemma ssl_send_loop_took:
  "writes io 0 (drop t data) = Ok n \<Longrightarrow> t \<le> length data \<Longrightarrow>
   ssl_send_loop io data t =
     (let io' = next_write io\<lparr>wire := wire io @ take n (drop t data)\<rparr> in
      if t + n = length data then Some (Done (io', Sent)) else ssl_send_loop io' data (t + n))"
  by (subst ssl_send_loop.simps) (simp add: Let_def)

lemma take_drop_rest: "take n (drop t xs) @ drop (t + n) xs = drop t xs"
  by (metis add.commute append_take_drop_id drop_drop)

definition sends_rest :: "tls \<Rightarrow> bytes \<Rightarrow> nat \<Rightarrow> bool" where
  "sends_rest io data t \<longleftrightarrow>
     (\<exists>io'. ssl_send_loop io data t = Some (Done (io', Sent)) \<and> wire io' = wire io @ drop t data)"

text \<open>One \<open>write\<close> that takes bytes leaves a shorter rest to send.\<close>

lemma sends_rest_took:
  assumes "writes io 0 (drop t data) = Ok n" and "write_ok io" and "t < length data"
    and rest: "t + n < length data \<Longrightarrow>
      sends_rest (next_write io\<lparr>wire := wire io @ take n (drop t data)\<rparr>) data (t + n)"
  shows "sends_rest io data t"
proof -
  have le: "n \<le> length data - t" using assms(1,2) by (metis length_drop write_ok_def)
  show ?thesis
  proof (cases "t + n = length data")
    case True
    then have "take n (drop t data) = drop t data" by simp
    with True assms show ?thesis by (simp add: sends_rest_def ssl_send_loop_took)
  next
    case False
    with le assms(3) have "t + n < length data" by simp
    from rest [OF this] show ?thesis
      using assms(1,3) False by (auto simp: sends_rest_def ssl_send_loop_took take_drop_rest Let_def)
  qed
qed

lemma ssl_send_loop_sends:
  "fair_writes io \<Longrightarrow> write_ok io \<Longrightarrow> t < length data \<Longrightarrow> sends_rest io data t"
proof (induction "length data - t" arbitrary: io t rule: less_induct)
  case less
  from less.prems(1) obtain j where "takes_bytes (writes io j)" unfolding fair_writes_def by blast
  then show ?case using less.prems
  proof (induction j arbitrary: io)
    case (0 io)
    from 0(4) have "drop t data \<noteq> []" by simp
    with 0(1) obtain n where n: "0 < n" "writes io 0 (drop t data) = Ok n" unfolding takes_bytes_def by blast
    have "fair_writes (next_write io)" "write_ok (next_write io)"
      using 0 fair_writes_next [of io] by (simp_all add: write_ok_def)
    with n show ?case by (intro sends_rest_took [OF n(2) 0(3,4)] less.hyps) simp_all
  next
    case (Suc j io)
    have next_ok: "takes_bytes (writes (next_write io) j)" "fair_writes (next_write io)" "write_ok (next_write io)"
      using Suc.prems fair_writes_next [of io] by (simp_all add: write_ok_def)
    note IH = Suc.IH [OF next_ok Suc.prems(4)]
    show ?case
    proof (cases "writes io 0 (drop t data)")
      case (Inl e)
      with Suc.prems have "e = WouldBlock" by (auto simp: fair_writes_def)
      with IH Inl Suc.prems(4) show ?thesis by (simp add: sends_rest_def ssl_send_loop_blocked)
    next
      case (Inr n)
      show ?thesis
      proof (cases "n = 0")
        case True
        with Inr IH Suc.prems show ?thesis by (intro sends_rest_took [of io t data n]) simp_all
      next
        case False
        with next_ok show ?thesis by (intro sends_rest_took [OF Inr Suc.prems(3,4)] less.hyps) simp_all
      qed
    qed
  qed
qed

lemma ssl_send_loop_met_end:
  "ssl_send_loop io data t = Some r \<Longrightarrow> t \<le> length data \<longrightarrow> (\<exists>k. writes io k (drop t data) \<noteq> Err WouldBlock)"
proof (rule ssl_send_loop.raw_induct [where P = "\<lambda>io data t r.
      t \<le> length data \<longrightarrow> (\<exists>k. writes io k (drop t data) \<noteq> Err WouldBlock)"], goal_cases)
  case (1 f io data t r)
  show ?case
  proof (cases "t \<le> length data \<and> writes io 0 (drop t data) = Err WouldBlock")
    case True
    with 1(3) have "f (next_write io) data t = Some r" by (simp add: Let_def)
    from 1(2) [OF this] show ?thesis by auto
  qed auto
qed

section \<open>Properties\<close>

text \<open>
  On an established connection, client or server side, the TLS \<open>receive\<close> is the receive loop of
  the TCP transport over the decrypted stream; while the connection is being accepted it makes one
  attempt after another to read a client hello, without end while there are no bytes to read.
\<close>
theorem ssl_receive_established:
  "ssl_receive io \<lparr>ssl_stream = RustlsClientConnection sock, ssl_keepalive_opt = k\<rparr> =
     map_option (\<lambda>(n, ds, st). Done (skip_accepts 0 (skip_reads n io),
       \<lparr>ssl_stream = RustlsClientConnection sock, ssl_keepalive_opt = k\<rparr>, ds, st)) (tcp_receive_loop (reads io) 0 []) \<and>
   ssl_receive io \<lparr>ssl_stream = RustlsServerConnection sock, ssl_keepalive_opt = k\<rparr> =
     map_option (\<lambda>(n, ds, st). Done (skip_accepts 0 (skip_reads n io),
       \<lparr>ssl_stream = RustlsServerConnection sock, ssl_keepalive_opt = k\<rparr>, ds, st)) (tcp_receive_loop (reads io) 0 []) \<and>
   (tls_read io = (\<lambda>_. Err WouldBlock) \<longrightarrow>
     ssl_receive io \<lparr>ssl_stream = RustlsStreamAcceptor sock c, ssl_keepalive_opt = k\<rparr> = None)"
proof (intro conjI impI)
  assume "tls_read io = (\<lambda>_. Err WouldBlock)"
  then have "ssl_receive_loop io (RustlsStreamAcceptor sock c) 0 0 [] = None"
    using ssl_receive_loop_blocked [of io "RustlsStreamAcceptor sock c" 0 0 "[]" _ sock c]
    by (cases "ssl_receive_loop io (RustlsStreamAcceptor sock c) 0 0 []") auto
  then show "ssl_receive io \<lparr>ssl_stream = RustlsStreamAcceptor sock c, ssl_keepalive_opt = k\<rparr> = None"
    by (simp add: ssl_receive_def)
qed (cases "tcp_receive_loop (reads io) 0 []"; auto simp: ssl_receive_def ssl_receive_loop_tcp established_def)+

text \<open>A TLS library whose first bytes are half a client hello.\<close>

definition tls_demo :: tls where
  "tls_demo = os.extend os_demo (tls.fields (\<lambda>_. Ok 5) (\<lambda>_. Ok False) (\<lambda>_. Ok ())
     (\<lambda>_. Ok []) (\<lambda>_. [Ok 1]) (\<lambda>_. Ok (Some (Pkcs8Key 2))) (\<lambda>_ _. Ok 3)
     (\<lambda>s. Ok s) (\<lambda>_. Ok ()) (\<lambda>s. Ok (Some s)) (\<lambda>_. ''10.0.0.1:443''))"

lemma tls_demo_simps:
  "tls_read tls_demo = (\<lambda>_. Ok 5)" "tls_accept tls_demo = (\<lambda>_. Ok False)" "writes tls_demo = writes os_demo"
  "wire tls_demo = []" "take_error tls_demo = Ok None" "stream_peer tls_demo = Ok (V4 7 80)"
  by (simp_all add: tls_demo_def os.defs tls.defs os_demo_def)

theorem ssl_receive_established_witness:
  "ssl_receive (tls_demo\<lparr>tls_read := \<lambda>_. Err WouldBlock\<rparr>)
     \<lparr>ssl_stream = RustlsStreamAcceptor 10 3, ssl_keepalive_opt = None\<rparr> = None"
  using ssl_receive_established [of "tls_demo\<lparr>tls_read := \<lambda>_. Err WouldBlock\<rparr>" 10 None 3] by simp

text \<open>
  C39: A server whose peer has sent only the first part of its client hello, as when the hello is
  split over two segments, drops the connection: the read event removes the remote from the table
  and from the poll and reports it disconnected.
\<close>
theorem ssl_partial_hello_disconnects:
  assumes "remote_registry d i = Some remote" and "resource_type i = Remote" and "ready (properties remote)"
    and "ssl_stream (resource remote) = RustlsStreamAcceptor sock c"
    and "tls_read io 0 = Ok n" and "tls_accept io 0 = Ok False" and "mio_accepts mio"
  shows "process_read SslAdapter mio debug io d i =
    Some (Done (d\<lparr>remote_registry := (remote_registry d)(i := None)\<rparr>,
      [Emit (Disconnected (Endpoint_new i (peer_addr (properties remote)))), Poll_Call (Deregistered sock)]))"
proof -
  have "acceptor_wrap_stream io 0 sock c = Err (OtherKind, sock, c)"
    using assms(5,6) by (simp add: acceptor_wrap_stream_def)
  then have "ssl_receive_loop io (RustlsStreamAcceptor sock c) 0 0 [] =
      Some (1, 0, RustlsStreamAcceptor sock c, [], ReadDisconnected)"
    by (simp add: ssl_receive_loop_acceptor)
  then show ?thesis
    using assms
    by (simp add: process_read_def registry_get_def read_from_remote_def SslAdapter_def ssl_receive_def
        registry_shared_def registry_deregister_def drop_clone_def Register_drop_def PollRegistry_remove_def
        mio_accepts_def Let_def)
qed

definition demo_ssl :: "bool \<Rightarrow> (SslRemote, SslLocal) driver" where
  "demo_ssl ready_flag = (driver_new (ResourceIdGenerator_new Remote))\<lparr>remote_registry :=
     [demo_id \<mapsto> \<lparr>resource = \<lparr>ssl_stream = RustlsStreamAcceptor 10 3, ssl_keepalive_opt = None\<rparr>,
       properties = \<lparr>peer_addr = V4 7 80, local = Some demo_listener, ready = ready_flag\<rparr>\<rparr>]\<rparr>"

theorem ssl_partial_hello_disconnects_witness:
  "process_read SslAdapter mio_ok True tls_demo (demo_ssl True) demo_id =
    Some (Done ((demo_ssl True)\<lparr>remote_registry := (remote_registry (demo_ssl True))(demo_id := None)\<rparr>,
      [Emit (Disconnected (Endpoint_new demo_id (V4 7 80))), Poll_Call (Deregistered 10)]))"
  using ssl_partial_hello_disconnects [of "demo_ssl True" demo_id "the (remote_registry (demo_ssl True) demo_id)"
      10 3 tls_demo 5 mio_ok True]
  by (simp add: demo_ssl_def demo_ids tls_demo_simps)

text \<open>
  C35: The TLS \<open>send\<close> on an established connection whose socket is fair returns \<open>Sent\<close> and has put
  exactly the data on the wire; on a socket that never takes a byte it does not return, and before
  the client hello is accepted it panics.
\<close>
theorem ssl_send_delivers:
  assumes "established (ssl_stream r)" and "data \<noteq> []"
  shows "(fair_writes io \<and> write_ok io \<longrightarrow>
      (\<exists>io'. ssl_send io r data = Some (Done (io', r, Sent)) \<and> wire io' = wire io @ data)) \<and>
    (writes io = (\<lambda>_ _. Err WouldBlock) \<longrightarrow> ssl_send io r data = None) \<and>
    ssl_send io (r\<lparr>ssl_stream := RustlsStreamAcceptor sock c\<rparr>) data = Some Panic"
proof (intro conjI impI)
  have send: "ssl_send io r data = obind (ssl_send_loop io data 0) (\<lambda>(io, status). Some (Done (io, r, status)))"
    using assms(1) by (simp add: ssl_send_def established_def split: SslStream.splits)
  show "\<exists>io'. ssl_send io r data = Some (Done (io', r, Sent)) \<and> wire io' = wire io @ data"
    if "fair_writes io \<and> write_ok io"
    using ssl_send_loop_sends [of io 0 data] that assms(2) by (auto simp: send sends_rest_def)
  show "ssl_send io r data = None" if "writes io = (\<lambda>_ _. Err WouldBlock)"
    using ssl_send_loop_met_end [of io data 0] that by (cases "ssl_send_loop io data 0") (auto simp: send)
qed (simp add: ssl_send_def)

lemma fair_writes_demo: "fair_writes tls_demo" "write_ok tls_demo"
proof -
  have "takes_bytes (writes tls_demo j)" if "2 \<le> j" for j
    using that by (simp add: takes_bytes_def tls_demo_simps os_demo_def)
  then have "\<exists>j\<ge>k. takes_bytes (writes tls_demo j)" for k by (meson linear order_trans)
  moreover have "\<forall>k bs e. writes tls_demo k bs = Err e \<longrightarrow> e = WouldBlock"
    by (auto simp: tls_demo_simps os_demo_def split: if_splits)
  ultimately show "fair_writes tls_demo" by (simp add: fair_writes_def)
  show "write_ok tls_demo" using write_ok_demo by (simp add: write_ok_def tls_demo_simps)
qed

theorem ssl_send_delivers_witness:
  "\<exists>io'. ssl_send tls_demo \<lparr>ssl_stream = RustlsServerConnection 10, ssl_keepalive_opt = None\<rparr> [1, 2, 3] =
      Some (Done (io', \<lparr>ssl_stream = RustlsServerConnection 10, ssl_keepalive_opt = None\<rparr>, Sent)) \<and>
    wire io' = wire tls_demo @ [1, 2, 3]"
  using ssl_send_delivers [of "\<lparr>ssl_stream = RustlsServerConnection 10, ssl_keepalive_opt = None\<rparr>" "[1, 2, 3]" tls_demo]
    fair_writes_demo
  by (simp add: established_def)

text \<open>
  C40: On a write event an accepted TLS remote is declared ready, and reported as accepted to the user, as soon as its
  TCP socket is connected, before any byte of the client hello was read; a message the user sends at
  that moment makes the worker panic.
\<close>
theorem ssl_send_after_accepted_panics:
  assumes "remote_registry d i = Some remote" and "resource_type i = Remote" and "\<not> ready (properties remote)"
    and "ssl_stream (resource remote) = RustlsStreamAcceptor sock c" and "local (properties remote) = Some l"
    and "take_error io = Ok None" and "stream_peer io = Ok a"
  shows "\<exists>d'. process_write SslAdapter mio io d i =
      Some (Done (d', [Emit (Accepted (Endpoint_new i (peer_addr (properties remote))) l)])) \<and>
    process_send SslAdapter io' d' (Endpoint_new i (peer_addr (properties remote))) data = Some Panic"
  using assms
  by (simp add: process_write_def registry_get_def resolve_pending_remote_def SslAdapter_def ssl_pending_def
      check_stream_ready_def check_tcp_stream_ready_def registry_shared_def mark_as_ready_def write_to_remote_def
      ready_to_write_default_def drop_clone_def process_send_def ssl_send_def Let_def)

theorem ssl_send_after_accepted_panics_witness:
  "\<exists>d'. process_write SslAdapter mio_ok tls_demo (demo_ssl False) demo_id =
      Some (Done (d', [Emit (Accepted (Endpoint_new demo_id (V4 7 80)) demo_listener)])) \<and>
    process_send SslAdapter tls_demo d' (Endpoint_new demo_id (V4 7 80)) [1] = Some Panic"
  using ssl_send_after_accepted_panics [of "demo_ssl False" demo_id "the (remote_registry (demo_ssl False) demo_id)"
      10 3 demo_listener tls_demo "V4 7 80" mio_ok tls_demo "[1]"]
  by (simp add: demo_ssl_def demo_ids tls_demo_simps)

text \<open>
  A TLS connection to a host name is impossible: for every string address the worker panics
  before anything is sent. For a socket address the name the server's certificate is checked
  against is the host part of the address's own text.
\<close>
theorem ssl_connect_needs_socket:
  "process_connect SslAdapter io d config i (Str s) cb = Panic \<and>
   (process_connect SslAdapter io d config i (Socket a) cb = Done (d', effs) \<longrightarrow>
      d' = d \<and> (effs = [] \<or> (\<exists>la stream domain. effs = [Post i (ConnectRegisterRemote la (i, a) stream
          (SslConnectPayload (conn_keepalive_opt config) (Some domain)) cb)] \<and>
        parse_uri io (show_addr io a) = Ok (Some domain))))"
proof (intro conjI impI)
  show "process_connect SslAdapter io d config i (Str s) cb = Panic"
    by (simp add: process_connect_def SslAdapter_def ssl_connect_with_def is_string_def)
next
  assume run: "process_connect SslAdapter io d config i (Socket a) cb = Done (d', effs)"
  then obtain ret where ret: "ssl_connect_with io config (Socket a) = Done ret"
    by (auto simp: process_connect_def SslAdapter_def result_simps)
  show "d' = d"
    using run ret by (cases ret) (auto simp: process_connect_def SslAdapter_def split: prod.splits)
  show "effs = [] \<or> (\<exists>la stream domain. effs = [Post i (ConnectRegisterRemote la (i, a) stream
          (SslConnectPayload (conn_keepalive_opt config) (Some domain)) cb)] \<and>
        parse_uri io (show_addr io a) = Ok (Some domain))"
  proof (cases ret)
    case (Inl e)
    with run ret show ?thesis by (simp add: process_connect_def SslAdapter_def)
  next
    case (Inr info)
    with ret obtain la stream domain where "info = (stream, la, a, SslConnectPayload (conn_keepalive_opt config) (Some domain))"
      "parse_uri io (show_addr io a) = Ok (Some domain)"
      by (fastforce simp: ssl_connect_with_def is_string_def RemoteAddr_to_string_def socket_addr_def
          ssl_remote_connect_with_def result_simps split: option.splits)
    with Inr run ret show ?thesis by (auto simp: process_connect_def SslAdapter_def)
  qed
qed

theorem ssl_connect_needs_socket_witness:
  "\<exists>la stream domain. process_connect SslAdapter tls_demo (demo_ssl True) ConnectConfig_default demo_id
      (Socket (V4 7 80)) 0 = Done (demo_ssl True, [Post demo_id (ConnectRegisterRemote la (demo_id, V4 7 80) stream
        (SslConnectPayload None (Some domain)) 0)]) \<and>
    parse_uri tls_demo (show_addr tls_demo (V4 7 80)) = Ok (Some domain)"
proof -
  have "process_connect SslAdapter tls_demo (demo_ssl True) ConnectConfig_default demo_id (Socket (V4 7 80)) 0 =
      Done (demo_ssl True, [Post demo_id (ConnectRegisterRemote (V4 1 99) (demo_id, V4 7 80) 5
        (SslConnectPayload None (Some ''10.0.0.1:443'')) 0)])"
    by (simp add: process_connect_def SslAdapter_def ssl_connect_with_def is_string_def RemoteAddr_to_string_def
        socket_addr_def ssl_remote_connect_with_def ConnectConfig_default_def bind_device_if_def
        tls_demo_def os.defs tls.defs os_demo_def)
  with ssl_connect_needs_socket [of tls_demo "demo_ssl True" ConnectConfig_default demo_id "[]" 0 "V4 7 80"]
  show ?thesis by (auto simp: ConnectConfig_default_def)
qed

text \<open>
  C25: In every run of the TLS event processor from its start, the events about one remote id are the
  life of one connection, as for TCP, and the poll watches exactly the resources in its tables.
\<close>
theorem ssl_lifecycle:
  assumes "driver_run SslAdapter mio (driver_new g) effs (used, d)" and "resource_type i = Remote"
  shows "lifecycle i (events_of i effs) \<and>
    watch {} (poll_calls effs) = (\<lambda>r. raw_stream (ssl_stream (resource r))) ` ran (remote_registry d) \<union>
      (ssl_listener \<circ> resource) ` ran (local_registry d)"
  using ssl.run_lifecycle [OF assms] ssl.run_watched [OF assms(1)]
  by (simp add: watched_def SslAdapter_def sources_ran image_image)

theorem ssl_lifecycle_witness:
  "\<exists>effs used d. driver_run SslAdapter mio_ok (driver_new (ResourceIdGenerator_new Remote)) effs (used, d) \<and>
    events_of demo_id effs = [Accepted (Endpoint_new demo_id (V4 7 80)) demo_listener] \<and>
    lifecycle demo_id (events_of demo_id effs)"
proof -
  let ?g = "ResourceIdGenerator_new Remote"
  let ?e1 = "map Poll_Call [Registered 10 (Token_from_id demo_id) READABLE_WRITABLE] @
    [Call_Connect 0 (Ok (Endpoint_new demo_id (V4 7 80), V4 1 99))]"
  let ?e2 = "[Emit (Accepted (Endpoint_new demo_id (V4 7 80)) demo_listener)]"
  have step1: "driver_step SslAdapter mio_ok ({}, driver_new ?g) ?e1 (insert demo_id {}, demo_ssl False)"
    by (rule driver_step.Accept_Register [where local_pair = "(demo_listener, V4 1 99)" and a = "V4 7 80"
          and stream = 10 and payload = "SslAcceptPayload None 3" and cb = 0])
      (simp_all add: process_accept_register_remote_def SslAdapter_def ssl_accepted_resource_def
        registry_register_def PollRegistry_add_def mio_ok_def demo_ssl_def driver_new_def registry_new_def
        Register_new_def RemoteProperties_new_def demo_ids watched_def sources_def Let_def)
  have step2: "driver_step SslAdapter mio_ok ({demo_id}, demo_ssl False) ?e2 ({demo_id}, demo_ssl True)"
    by (rule driver_step.Write [where io = tls_demo and i = demo_id])
      (simp add: process_write_def registry_get_def demo_ids resolve_pending_remote_def SslAdapter_def demo_ssl_def
        ssl_pending_def check_stream_ready_def check_tcp_stream_ready_def tls_demo_simps tcp_set_keepalive_def
        registry_shared_def mark_as_ready_def write_to_remote_def ready_to_write_default_def drop_clone_def Let_def)
  have run: "driver_run SslAdapter mio_ok (driver_new ?g) (([] @ ?e1) @ ?e2) ({demo_id}, demo_ssl True)"
    by (intro driver_run.Step [OF _ step2] driver_run.Step [OF _ step1] driver_run.Start)
  from ssl_lifecycle [OF run demo_ids(1)] run show ?thesis by (intro exI conjI) (assumption, simp_all)
qed

end
