(* ===== verification/Network.thy ===== *)
theory Network
  imports Ssl
begin

text \<open>
  The multiplexor worker: \<open>src/src/network.rs\<close>, the event loop of \<open>network/poll.rs\<close>, the processor table
  and the unimplemented driver of \<open>network/loader.rs\<close>, \<open>Transport::mount_adapter\<close> and the command queue of
  \<open>src/src/events.rs\<close>. The table is the one of a build with the features \<open>tcp\<close> and \<open>ssl\<close>; the slot of the
  websocket transport is unimplemented.
\<close>

section \<open>Poll events\<close>

datatype PollEvent = NetworkRead ResourceId | NetworkWrite ResourceId | WakerEvent

record mio_event =
  ev_token :: Token
  is_readable :: bool
  is_writable :: bool

definition poll_event :: "mio_event \<Rightarrow> PollEvent list" where
  "poll_event e =
     (if WAKER_TOKEN = ev_token e then [WakerEvent]
      else
        let rid = ResourceId_from_token (ev_token e) in
        (if is_readable e then [NetworkRead rid] else []) @ (if is_writable e then [NetworkWrite rid] else []))"

text \<open>\<open>Poll::process_event\<close>: the events handed to the callback; \<open>polls n\<close> is the answer of the \<open>n\<close>-th poll.\<close>

partial_function (option) poll_process_event ::
  "(nat \<Rightarrow> io_error + mio_event list) \<Rightarrow> nat \<Rightarrow> PollEvent list exec option" where
  "poll_process_event polls n =
     (case polls n of
        Inr events \<Rightarrow> Some (Done (concat (map poll_event events)))
      | Inl e \<Rightarrow> if e = Interrupted then poll_process_event polls (Suc n) else Some Panic)"

section \<open>The command queue\<close>

text \<open>An unbounded channel: \<open>post\<close> appends, \<open>try_receive\<close> takes the oldest.\<close>

definition queue_post :: "'a list \<Rightarrow> 'a \<Rightarrow> 'a list" where
  "queue_post q e = q @ [e]"

definition try_receive :: "'a list \<Rightarrow> ('a \<times> 'a list) option" where
  "try_receive q = (case q of [] \<Rightarrow> None | e # q \<Rightarrow> Some (e, q))"

section \<open>Processors\<close>

datatype processor =
    UnimplementedDriver
  | TcpDriver "(TcpRemote, TcpLocal) driver"
  | SslDriver "(SslRemote, SslLocal) driver"

type_synonym processors = "processor list"

record net_io =
  tcp_io :: os
  ssl_io :: tls

record env =
  env_mio :: mio
  debug :: bool

definition mount_adapter :: "Transport \<Rightarrow> ResourceIdGenerator \<Rightarrow> processors \<Rightarrow> processors" where
  "mount_adapter t rgen ps =
     (case t of
        Tcp \<Rightarrow> ps[unat (Transport_id Tcp) := TcpDriver (driver_new rgen)]
      | Ssl \<Rightarrow> ps[unat (Transport_id Ssl) := SslDriver (driver_new rgen)]
      | Ws \<Rightarrow> ps)"

definition create_multiplexor_worker :: "ResourceIdGenerator \<Rightarrow> processors" where
  "create_multiplexor_worker rgen =
     fold (\<lambda>t ps. mount_adapter t rgen ps) [Tcp, Ssl]
       (map (\<lambda>_. UnimplementedDriver) [0 ..< unat MAX_ADAPTERS])"

definition get_processor :: "processors \<Rightarrow> u8 \<Rightarrow> processor exec" where
  "get_processor ps a = (if unat a < length ps then Done (ps ! unat a) else Panic)"

text \<open>
  A call on a processor. The drivers share the generator of the remote ids, so it is passed in and
  out; the unimplemented driver panics in every method.
\<close>

definition call_processor ::
  "((TcpRemote, TcpLocal) driver \<Rightarrow> ((TcpRemote, TcpLocal) driver \<times> effect list) exec option) \<Rightarrow>
   ((SslRemote, SslLocal) driver \<Rightarrow> ((SslRemote, SslLocal) driver \<times> effect list) exec option) \<Rightarrow>
   ResourceIdGenerator \<Rightarrow> processor \<Rightarrow> (ResourceIdGenerator \<times> processor \<times> effect list) exec option" where
  "call_processor tcp_call ssl_call g p =
     (case p of
        UnimplementedDriver \<Rightarrow> Some Panic
      | TcpDriver d \<Rightarrow> obind (tcp_call (d\<lparr>remote_id_generator := g\<rparr>)) (\<lambda>(d, effs).
          Some (Done (remote_id_generator d, TcpDriver d, effs)))
      | SslDriver d \<Rightarrow> obind (ssl_call (d\<lparr>remote_id_generator := g\<rparr>)) (\<lambda>(d, effs).
          Some (Done (remote_id_generator d, SslDriver d, effs))))"

definition on_processor ::
  "((TcpRemote, TcpLocal) driver \<Rightarrow> ((TcpRemote, TcpLocal) driver \<times> effect list) exec option) \<Rightarrow>
   ((SslRemote, SslLocal) driver \<Rightarrow> ((SslRemote, SslLocal) driver \<times> effect list) exec option) \<Rightarrow>
   ResourceIdGenerator \<Rightarrow> processors \<Rightarrow> u8 \<Rightarrow> (ResourceIdGenerator \<times> processors \<times> effect list) exec option" where
  "on_processor tcp_call ssl_call g ps a =
     obind (Some (get_processor ps a)) (\<lambda>p.
     obind (call_processor tcp_call ssl_call g p) (\<lambda>(g, p, effs).
     Some (Done (g, ps[unat a := p], effs))))"

section \<open>Commands\<close>

text \<open>The closures that \<open>process_poll_event\<close> passes for accepted and closed resources do nothing.\<close>

definition noop :: callback where "noop = 0"

definition quiet_send ::
  "('r, 'l, 'io) adapter \<Rightarrow> 'io \<Rightarrow> Endpoint \<Rightarrow> ('io \<times> ('r, 'l) driver \<times> SendStatus) exec option \<Rightarrow> effect list \<Rightarrow>
   (('r, 'l) driver \<times> effect list) exec option" where
  "quiet_send A io endpoint ret effs =
     obind ret (\<lambda>(io', d, status).
     Some (Done (d, Handed endpoint status (drop (length (sent_wire A io)) (sent_wire A io')) # effs)))"

datatype NodeEvent = NetworkE NetEvent | WakerE WakerCommand

text \<open>What a step of a worker does outside its own state: driver effects, and commands shown to the user.\<close>

datatype weffect = Driver_Effect effect | Emit_Waker WakerCommand

definition process_command ::
  "env \<Rightarrow> net_io \<Rightarrow> ResourceIdGenerator \<Rightarrow> processors \<Rightarrow> WakerCommand \<Rightarrow>
   (ResourceIdGenerator \<times> processors \<times> weffect list) exec option" where
  "process_command env io g ps command =
     (let mio = env_mio env;
          driver_call = (\<lambda>tcp_call ssl_call a. obind (on_processor tcp_call ssl_call g ps a)
            (\<lambda>(g, ps, effs). Some (Done (g, ps, map Driver_Effect effs))))
      in case command of
        Greet greet \<Rightarrow> Some (Done (g, ps, [Emit_Waker (Greet greet)]))
      | AcceptRegisterRemote local_pair remote_pair stream payload \<Rightarrow>
          driver_call
            (\<lambda>d. Some (process_accept_register_remote TcpAdapter mio d local_pair remote_pair stream payload noop))
            (\<lambda>d. Some (ssl_process_accept_register_remote mio d local_pair remote_pair stream payload noop))
            (adapter_id (fst remote_pair))
      | ConnectRegisterRemote local_addr remote_pair stream payload cb \<Rightarrow>
          driver_call
            (\<lambda>d. Some (process_connect_register_remote TcpAdapter mio (tcp_io io) d local_addr remote_pair stream payload cb))
            (\<lambda>d. Some (ssl_process_connect_register_remote mio (ssl_io io) d local_addr remote_pair stream payload cb))
            (adapter_id (fst remote_pair))
      | Listen config local_id a cb \<Rightarrow>
          driver_call
            (\<lambda>d. Some (process_listen TcpAdapter mio (tcp_io io) d config local_id a cb))
            (\<lambda>d. Some (ssl_process_listen mio (ssl_io io) d config local_id a cb))
            (adapter_id local_id)
      | Connect config remote_id raddr cb \<Rightarrow>
          driver_call
            (\<lambda>d. Some (process_connect TcpAdapter (tcp_io io) d config remote_id raddr cb))
            (\<lambda>d. Some (ssl_process_connect (ssl_io io) d config remote_id raddr cb))
            (adapter_id remote_id)
      | Send endpoint buffer \<Rightarrow>
          driver_call
            (\<lambda>d. quiet_send TcpAdapter (tcp_io io) endpoint
              (process_send TcpAdapter (tcp_io io) d endpoint buffer) [])
            (\<lambda>d. quiet_send SslAdapter (ssl_io io) endpoint
              (ssl_process_send (ssl_io io) d endpoint buffer) [])
            (adapter_id (resource_id endpoint))
      | SendSync endpoint buffer cb \<Rightarrow>
          driver_call
            (\<lambda>d. quiet_send TcpAdapter (tcp_io io) endpoint
              (process_send TcpAdapter (tcp_io io) d endpoint buffer) [Call_Sent cb])
            (\<lambda>d. quiet_send SslAdapter (ssl_io io) endpoint
              (ssl_process_send (ssl_io io) d endpoint buffer) [Call_Sent cb])
            (adapter_id (resource_id endpoint))
      | Close rid \<Rightarrow>
          driver_call
            (\<lambda>d. Some (process_close TcpAdapter mio d rid noop))
            (\<lambda>d. Some (ssl_process_close mio d rid noop))
            (adapter_id rid)
      | IsReady rid cb \<Rightarrow>
          driver_call
            (\<lambda>d. Some (Done (d, process_is_ready d rid cb)))
            (\<lambda>d. Some (Done (d, ssl_process_is_ready d rid cb)))
            (adapter_id rid)
      | Stop \<Rightarrow> Some (Done (g, ps, [Emit_Waker Stop])))"

text \<open>
  The \<open>while\<close> loop of the waker event, \<open>budget\<close> counting down from \<open>MAX_COMMANDS\<close>. A command that a
  handler posts to this very worker (\<open>mine\<close>) is in the queue before the next turn of the loop.
\<close>

definition MAX_COMMANDS :: nat where "MAX_COMMANDS = 1024"

definition own_posts :: "(ResourceId \<Rightarrow> bool) \<Rightarrow> weffect list \<Rightarrow> WakerCommand list" where
  "own_posts mine effs =
     concat (map (\<lambda>e. case e of Driver_Effect (Post r c) \<Rightarrow> if mine r then [c] else [] | _ \<Rightarrow> []) effs)"

fun drain_commands ::
  "env \<Rightarrow> (ResourceId \<Rightarrow> bool) \<Rightarrow> (nat \<Rightarrow> net_io) \<Rightarrow> nat \<Rightarrow> ResourceIdGenerator \<Rightarrow> processors \<Rightarrow> WakerCommand list \<Rightarrow>
   (ResourceIdGenerator \<times> processors \<times> WakerCommand list \<times> weffect list) exec option" where
  "drain_commands env mine ios 0 g ps q = Some (Done (g, ps, q, []))"
| "drain_commands env mine ios (Suc budget) g ps q =
     (case try_receive q of
        None \<Rightarrow> Some (Done (g, ps, q, []))
      | Some (command, q) \<Rightarrow>
          obind (process_command env (ios budget) g ps command) (\<lambda>(g, ps, effs).
          obind (drain_commands env mine ios budget g ps (q @ own_posts mine effs)) (\<lambda>(g, ps, q, effs').
          Some (Done (g, ps, q, effs @ effs')))))"

section \<open>Processing the events of the poll\<close>

definition process_poll_event ::
  "env \<Rightarrow> (ResourceId \<Rightarrow> bool) \<Rightarrow> (nat \<Rightarrow> net_io) \<Rightarrow> ResourceIdGenerator \<Rightarrow> processors \<Rightarrow> WakerCommand list \<Rightarrow> PollEvent \<Rightarrow>
   (ResourceIdGenerator \<times> processors \<times> WakerCommand list \<times> weffect list) exec option" where
  "process_poll_event env mine ios g ps q event =
     (case event of
        NetworkRead rid \<Rightarrow>
          obind (on_processor
            (\<lambda>d. process_read TcpAdapter (env_mio env) (debug env) (tcp_io (ios 0)) d rid)
            (\<lambda>d. ssl_process_read (env_mio env) (debug env) (ssl_io (ios 0)) d rid) g ps (adapter_id rid))
            (\<lambda>(g, ps, effs). Some (Done (g, ps, q @ own_posts mine (map Driver_Effect effs), map Driver_Effect effs)))
      | NetworkWrite rid \<Rightarrow>
          obind (on_processor
            (\<lambda>d. process_write TcpAdapter (env_mio env) (tcp_io (ios 0)) d rid)
            (\<lambda>d. ssl_process_write (env_mio env) (ssl_io (ios 0)) d rid) g ps (adapter_id rid))
            (\<lambda>(g, ps, effs). Some (Done (g, ps, q @ own_posts mine (map Driver_Effect effs), map Driver_Effect effs)))
      | WakerEvent \<Rightarrow> drain_commands env mine ios MAX_COMMANDS g ps q)"

section \<open>Events for the user\<close>

definition NodeEvent_network :: "NodeEvent \<Rightarrow> NetEvent exec" where
  "NodeEvent_network e = (case e of NetworkE n \<Rightarrow> Done n | WakerE _ \<Rightarrow> Panic)"

text \<open>What the emitter hands to the callback of the user, in order.\<close>

fun node_events :: "weffect list \<Rightarrow> NodeEvent list" where
  "node_events [] = []"
| "node_events (Driver_Effect (Emit e) # es) = NetworkE e # node_events es"
| "node_events (Emit_Waker c # es) = WakerE c # node_events es"
| "node_events (_ # es) = node_events es"

section \<open>The processor table\<close>

lemma MAX_ADAPTERS_128: "unat MAX_ADAPTERS = 128"
  by (simp add: MAX_ADAPTERS_def word_consts)

lemma get_processor_Done: "unat a < length ps \<Longrightarrow> get_processor ps a = Done (ps ! unat a)"
  by (simp add: get_processor_def)

lemma length_processors: "length (create_multiplexor_worker g) = 128"
  by (simp add: create_multiplexor_worker_def mount_adapter_def MAX_ADAPTERS_128)

text \<open>A table keeps its length and, in every slot, the kind of its processor.\<close>

fun same_kind :: "processor \<Rightarrow> processor \<Rightarrow> bool" where
  "same_kind UnimplementedDriver p = (p = UnimplementedDriver)"
| "same_kind (TcpDriver _) p = (\<exists>d. p = TcpDriver d)"
| "same_kind (SslDriver _) p = (\<exists>d. p = SslDriver d)"

lemma same_kind_refl [simp]: "same_kind p p" by (cases p) auto

definition same_table :: "processors \<Rightarrow> processors \<Rightarrow> bool" where
  "same_table ps qs = list_all2 same_kind ps qs"

lemma same_table_refl [simp]: "same_table ps ps"
  by (simp add: same_table_def list_all2_same)

lemma same_kind_trans: "same_kind p q \<Longrightarrow> same_kind q r \<Longrightarrow> same_kind p r"
  by (cases p) auto

lemma same_table_trans: "same_table ps qs \<Longrightarrow> same_table qs rs \<Longrightarrow> same_table ps rs"
  unfolding same_table_def by (rule list_all2_trans [OF same_kind_trans])

lemma same_table_length: "same_table ps qs \<Longrightarrow> length qs = length ps"
  by (simp add: same_table_def list_all2_lengthD)

lemma call_processor_kind: "call_processor tc sc g p = Some (Done (g', p', effs)) \<Longrightarrow> same_kind p p'"
  by (cases p) (auto simp: call_processor_def result_simps)

lemma on_processor_table:
  assumes "on_processor tc sc g ps a = Some (Done (g', ps', effs))"
  shows "same_table ps ps'"
proof -
  from assms obtain p' where "unat a < length ps" "call_processor tc sc g (ps ! unat a) = Some (Done (g', p', effs))"
    "ps' = ps[unat a := p']" by (auto simp: on_processor_def get_processor_def result_simps split: if_splits)
  then show ?thesis
    by (auto simp: same_table_def list_all2_conv_all_nth nth_list_update dest: call_processor_kind)
qed

lemma process_command_table:
  assumes "process_command env io g ps c = Some (Done (g', ps', effs))"
  shows "same_table ps ps'"
  using assms
  by (cases c) (auto simp: process_command_def Let_def result_simps dest: on_processor_table)

section \<open>The drain loop\<close>

text \<open>Commands handled one after the other.\<close>

fun run_commands ::
  "env \<Rightarrow> (nat \<Rightarrow> net_io) \<Rightarrow> nat \<Rightarrow> ResourceIdGenerator \<Rightarrow> processors \<Rightarrow> WakerCommand list \<Rightarrow>
   (ResourceIdGenerator \<times> processors \<times> weffect list) exec option" where
  "run_commands env ios b g ps [] = Some (Done (g, ps, []))"
| "run_commands env ios b g ps (c # cs) =
     obind (process_command env (ios (b - 1)) g ps c) (\<lambda>(g, ps, effs).
     obind (run_commands env ios (b - 1) g ps cs) (\<lambda>(g, ps, effs').
     Some (Done (g, ps, effs @ effs'))))"

lemma own_posts_append [simp]: "own_posts mine (xs @ ys) = own_posts mine xs @ own_posts mine ys"
  by (simp add: own_posts_def)

lemma drain_commands_fifo:
  assumes "drain_commands env mine ios b g ps q = Some (Done (g', ps', q', effs))"
  shows "let queued = q @ own_posts mine effs; n = min b (length queued) in
    q' = drop n queued \<and> run_commands env ios b g ps (take n queued) = Some (Done (g', ps', effs))"
  using assms
proof (induction b arbitrary: g ps q effs)
  case 0
  then show ?case by (simp add: own_posts_def)
next
  case (Suc b)
  show ?case
  proof (cases q)
    case Nil
    with Suc.prems show ?thesis by (simp add: try_receive_def own_posts_def)
  next
    case (Cons c cs)
    with Suc.prems obtain g1 ps1 effs1 effs2 where
      c: "process_command env (ios b) g ps c = Some (Done (g1, ps1, effs1))"
      and rest: "drain_commands env mine ios b g1 ps1 (cs @ own_posts mine effs1) = Some (Done (g', ps', q', effs2))"
      and effs: "effs = effs1 @ effs2" by (auto simp: try_receive_def result_simps)
    from Suc.IH [OF rest] c show ?thesis by (simp add: Let_def Cons effs)
  qed
qed

lemma drain_commands_alone:
  "drain_commands env (\<lambda>_. False) ios b g ps q =
     obind (run_commands env ios b g ps (take b q)) (\<lambda>(g, ps, effs). Some (Done (g, ps, drop b q, effs)))"
proof (induction b arbitrary: g ps q)
  case (Suc b)
  have none: "own_posts (\<lambda>_. False) effs = []" for effs
    by (induction effs) (auto simp: own_posts_def split: weffect.splits effect.splits)
  show ?case
  proof (cases q)
    case (Cons c cs)
    then show ?thesis
      by (cases "process_command env (ios b) g ps c")
        (auto simp: try_receive_def Suc.IH none obind_def split: exec.splits option.splits)
  qed (simp add: try_receive_def)
qed simp

lemma run_commands_table: "run_commands env ios b g ps cs = Some (Done (g', ps', effs)) \<Longrightarrow> same_table ps ps'"
proof (induction cs arbitrary: b g ps effs)
  case (Cons c cs)
  then obtain g1 ps1 effs1 effs2 where
    "process_command env (ios (b - 1)) g ps c = Some (Done (g1, ps1, effs1))"
    "run_commands env ios (b - 1) g1 ps1 cs = Some (Done (g', ps', effs2))" by (auto simp: result_simps)
  then show ?case by (blast intro: same_table_trans process_command_table Cons.IH)
qed simp

lemma process_poll_event_table:
  assumes "process_poll_event env mine ios g ps q e = Some (Done (g', ps', q', effs))"
  shows "same_table ps ps'"
proof (cases e)
  case WakerEvent
  with assms show ?thesis
    by (auto simp: process_poll_event_def Let_def dest!: drain_commands_fifo run_commands_table)
qed (use assms in \<open>auto simp: process_poll_event_def result_simps dest: on_processor_table\<close>)

section \<open>Callbacks\<close>

fun called :: "weffect list \<Rightarrow> callback list" where
  "called [] = []"
| "called (Driver_Effect (Call_Connect cb _) # es) = cb # called es"
| "called (Driver_Effect (Call_Listen cb _) # es) = cb # called es"
| "called (Driver_Effect (Call_Close cb _) # es) = cb # called es"
| "called (Driver_Effect (Call_Ready cb _) # es) = cb # called es"
| "called (Driver_Effect (Call_Sent cb) # es) = cb # called es"
| "called (_ # es) = called es"

lemma called_append [simp]: "called (xs @ ys) = called xs @ called ys"
  by (induction xs rule: called.induct) simp_all

lemma called_polls [simp]: "called (map (Driver_Effect \<circ> Poll_Call) cs) = []"
  by (induction cs) simp_all

lemma process_listen_cases:
  assumes "process_listen A mio io d lc l a cb = Done (d', effs)"
  obtains
    (failed) e where "listen_with A io lc a = Done (Err e)" "d' = d" "effs = [Call_Listen cb (Err e)]"
  | (listens) loc la m calls where "listen_with A io lc a = Done (Ok (loc, la))"
      "registry_register mio (local_source A) (local_registry d) l loc () False = Done (m, calls)"
      "d' = d\<lparr>local_registry := m\<rparr>" "effs = map Poll_Call calls @ [Call_Listen cb (Ok (l, la))]"
proof -
  from assms obtain ret where ret: "listen_with A io lc a = Done ret"
    by (auto simp: process_listen_def result_simps)
  show thesis
  proof (cases ret)
    case (Inl e)
    with ret assms show thesis by (intro failed) (auto simp: process_listen_def)
  next
    case (Inr x)
    with ret assms show thesis
      by (cases x) (auto simp: process_listen_def result_simps intro: listens)
  qed
qed

lemma process_connect_cases:
  assumes "process_connect A io d c i ra cb = Done (d', effs)"
  obtains
    (failed) e where "connect_with A io c ra = Done (Err e)" "d' = d" "effs = []"
  | (connecting) s la peer p where "connect_with A io c ra = Done (Ok (s, la, peer, p))" "d' = d"
      "effs = [Post i (ConnectRegisterRemote la (i, peer) s p cb)]"
proof -
  from assms obtain ret where ret: "connect_with A io c ra = Done ret"
    by (auto simp: process_connect_def result_simps)
  show thesis
  proof (cases ret)
    case (Inl e)
    with ret assms show thesis by (intro failed) (auto simp: process_connect_def)
  next
    case (Inr x)
    with ret assms show thesis by (cases x) (auto simp: process_connect_def intro: connecting)
  qed
qed

lemma driver_calls_back:
  "process_accept_register_remote A mio d lp rp s p cb = Done (d', effs) \<Longrightarrow> called (map Driver_Effect effs) = [cb]"
  "process_connect_register_remote A mio io d la rp s p cb = Done (d', effs) \<Longrightarrow> called (map Driver_Effect effs) = [cb]"
  "process_listen A mio io d lc l a cb = Done (d', effs) \<Longrightarrow> called (map Driver_Effect effs) = [cb]"
  "process_connect A io d c i ra cb = Done (d', effs) \<Longrightarrow> called (map Driver_Effect effs) = []"
  "process_close A mio d i cb = Done (d', effs) \<Longrightarrow> called (map Driver_Effect effs) = [cb]"
  "called (map Driver_Effect (process_is_ready d i cb)) = [cb]"
  by (auto simp: process_accept_register_remote_def process_connect_register_remote_def
      process_close_def process_is_ready_def Let_def result_simps elim!: process_listen_cases process_connect_cases
      split: ResourceType.splits option.splits)

text \<open>The callbacks a command calls before it is done.\<close>

fun callbacks_of :: "WakerCommand \<Rightarrow> callback list" where
  "callbacks_of (Greet _) = []"
| "callbacks_of (AcceptRegisterRemote _ _ _ _) = [noop]"
| "callbacks_of (ConnectRegisterRemote _ _ _ _ cb) = [cb]"
| "callbacks_of (Listen _ _ _ cb) = [cb]"
| "callbacks_of (Connect _ _ _ _) = []"
| "callbacks_of (Send _ _) = []"
| "callbacks_of (SendSync _ _ cb) = [cb]"
| "callbacks_of (Close _) = [noop]"
| "callbacks_of (IsReady _ cb) = [cb]"
| "callbacks_of Stop = []"

lemma on_processor_cases:
  assumes "on_processor tc sc g ps a = Some (Done (g', ps', effs))"
  obtains
    (tcp_slot) d d' where "unat a < length ps" "ps ! unat a = TcpDriver d" "g' = remote_id_generator d'"
      "tc (d\<lparr>remote_id_generator := g\<rparr>) = Some (Done (d', effs))" "ps' = ps[unat a := TcpDriver d']"
  | (ssl_slot) e e' where "unat a < length ps" "ps ! unat a = SslDriver e" "g' = remote_id_generator e'"
      "sc (e\<lparr>remote_id_generator := g\<rparr>) = Some (Done (e', effs))" "ps' = ps[unat a := SslDriver e']"
  using assms
  by (cases "ps ! unat a")
    (auto simp: on_processor_def get_processor_def call_processor_def result_simps split: if_splits)
lemma process_command_calls:
  assumes "process_command env io g ps c = Some (Done (g', ps', effs))"
  shows "called effs = callbacks_of c"
  using assms
  by (cases c) (auto simp: process_command_def Let_def result_simps quiet_send_def ssl_driver_defs
      elim!: on_processor_cases dest!: driver_calls_back(1-5) simp: driver_calls_back(6))

lemma poll_process_event_step:
  "poll_process_event polls n =
     (case polls n of
        Inr events \<Rightarrow> Some (Done (concat (map poll_event events)))
      | Inl e \<Rightarrow> if e = Interrupted then poll_process_event polls (Suc n) else Some Panic)"
  by (rule poll_process_event.simps)

lemma poll_process_event_first:
  assumes "\<forall>j < k. polls (n + j) = Inl Interrupted" and "polls (n + k) \<noteq> Inl Interrupted"
  shows "poll_process_event polls n =
    Some (case polls (n + k) of Inr events \<Rightarrow> Done (concat (map poll_event events)) | Inl _ \<Rightarrow> Panic)"
  using assms
proof (induction k arbitrary: n)
  case 0
  then show ?case by (subst poll_process_event_step) (auto split: sum.splits)
next
  case (Suc k)
  from Suc.prems(1) have first: "polls n = Inl Interrupted"
    by (metis add.right_neutral zero_less_Suc)
  have "\<forall>j < k. polls (Suc n + j) = Inl Interrupted" using Suc.prems(1) by auto
  with Suc.IH [of "Suc n"] Suc.prems(2) show ?case
    by (subst poll_process_event_step) (simp add: first)
qed

lemma poll_process_event_met:
  "poll_process_event polls n = Some r \<Longrightarrow> \<exists>j. polls (n + j) \<noteq> Inl Interrupted"
  by (drule poll_process_event.raw_induct [where P = "\<lambda>polls n r. \<exists>j. polls (n + j) \<noteq> Inl Interrupted", rotated])
    (auto split: sum.splits if_splits intro: exI [of _ 0], metis add_Suc_shift)

section \<open>Properties\<close>

text \<open>
  A wait on the poll is retried as long as a signal interrupts it. The first other answer ends
  it: the events are handed over in order, for the token of a registered resource first the read
  and then the write event with that resource's id, and any other error panics. A wait that is
  interrupted for ever never returns.
\<close>
theorem poll_retries:
  "((\<forall>j < k. polls (n + j) = Inl Interrupted) \<and> polls (n + k) \<noteq> Inl Interrupted \<longrightarrow>
     poll_process_event polls n =
       Some (case polls (n + k) of Inr events \<Rightarrow> Done (concat (map poll_event events)) | Inl _ \<Rightarrow> Panic)) \<and>
   ((\<forall>j. polls (n + j) = Inl Interrupted) \<longrightarrow> poll_process_event polls n = None) \<and>
   (raw i AND RESERVED_BYTES_MASK = 0 \<longrightarrow>
     poll_event \<lparr>ev_token = Token_from_id i, is_readable = r, is_writable = w\<rparr> =
       (if r then [NetworkRead i] else []) @ (if w then [NetworkWrite i] else []))"
proof (intro conjI impI)
  assume "\<forall>j. polls (n + j) = Inl Interrupted"
  then show "poll_process_event polls n = None"
    using poll_process_event_met [of polls n] by (cases "poll_process_event polls n") auto
next
  assume "raw i AND RESERVED_BYTES_MASK = 0"
  then have "ResourceId_from_token (Token_from_id i) = i"
    by (metis ResourceId.collapse reserved_zero_iff token_roundtrip)
  then show "poll_event \<lparr>ev_token = Token_from_id i, is_readable = r, is_writable = w\<rparr> =
       (if r then [NetworkRead i] else []) @ (if w then [NetworkWrite i] else [])"
    using token_not_waker [of i] by (auto simp: poll_event_def Let_def)
qed (use poll_process_event_first in blast)

theorem poll_retries_witness:
  "poll_process_event (\<lambda>n. if n < 2 then Inl Interrupted
     else Inr [\<lparr>ev_token = Token_from_id demo_id, is_readable = True, is_writable = True\<rparr>,
       \<lparr>ev_token = WAKER_TOKEN, is_readable = True, is_writable = False\<rparr>]) 0 =
   Some (Done [NetworkRead demo_id, NetworkWrite demo_id, WakerEvent])"
proof -
  have "raw demo_id AND RESERVED_BYTES_MASK = 0" by (simp add: demo_id_def RESERVED_BYTES_MASK_def)
  then show ?thesis
    using poll_retries [of 2 "\<lambda>n. if n < 2 then Inl Interrupted
      else Inr [\<lparr>ev_token = Token_from_id demo_id, is_readable = True, is_writable = True\<rparr>,
        \<lparr>ev_token = WAKER_TOKEN, is_readable = True, is_writable = False\<rparr>]" 0 demo_id True True]
    by (simp add: poll_event_def)
qed

text \<open>
  However many events a worker has handled, the processor of every resource id is found in its
  table: the TCP driver under the TCP adapter id, the TLS driver under the TLS adapter id, and under
  every other id, the websocket's included, the driver whose methods panic.
\<close>
theorem processor_lookup_total:
  assumes "run_commands env ios b g (create_multiplexor_worker g0) cs = Some (Done (g', ps, effs))"
  shows "\<exists>p. get_processor ps (adapter_id rid) = Done p \<and>
    (case p of
       TcpDriver _ \<Rightarrow> adapter_id rid = Transport_id Tcp
     | SslDriver _ \<Rightarrow> adapter_id rid = Transport_id Ssl
     | UnimplementedDriver \<Rightarrow> adapter_id rid \<noteq> Transport_id Tcp \<and> adapter_id rid \<noteq> Transport_id Ssl)"
proof -
  let ?ps = "create_multiplexor_worker g0" and ?k = "unat (adapter_id rid)"
  have k: "?k < 128" using adapter_id_le [of rid] by (simp add: MAX_vals word_le_nat_alt)
  have tab: "same_table ?ps ps" using assms by (rule run_commands_table)
  then have kind: "same_kind (?ps ! ?k) (ps ! ?k)"
    using k by (simp add: same_table_def list_all2_conv_all_nth length_processors)
  have slot: "?ps ! ?k = (if adapter_id rid = Transport_id Tcp then TcpDriver (driver_new g0)
      else if adapter_id rid = Transport_id Ssl then SslDriver (driver_new g0) else UnimplementedDriver)"
    using k by (auto simp: create_multiplexor_worker_def mount_adapter_def MAX_ADAPTERS_128 nth_list_update
        Transport_id_def word_unat_eq_iff)
  have "get_processor ps (adapter_id rid) = Done (ps ! ?k)"
    using k same_table_length [OF tab] by (simp add: get_processor_def length_processors)
  then show ?thesis using kind slot by (auto split: if_splits)
qed

theorem processor_lookup_total_witness:
  "\<exists>p. get_processor (create_multiplexor_worker (ResourceIdGenerator_new Remote)) (adapter_id demo_id) = Done p \<and>
    (case p of
       TcpDriver _ \<Rightarrow> adapter_id demo_id = Transport_id Tcp
     | SslDriver _ \<Rightarrow> adapter_id demo_id = Transport_id Ssl
     | UnimplementedDriver \<Rightarrow> adapter_id demo_id \<noteq> Transport_id Tcp \<and> adapter_id demo_id \<noteq> Transport_id Ssl)"
  by (rule processor_lookup_total [of "\<lparr>env_mio = mio_ok, debug = True\<rparr>" "\<lambda>_. \<lparr>tcp_io = os_demo, ssl_io = tls_demo\<rparr>" 1
    "ResourceIdGenerator_new Remote" _ "[Greet ''hi'']" "ResourceIdGenerator_new Remote" _ "[Emit_Waker (Greet ''hi'')]"])
    (simp add: process_command_def Let_def)

text \<open>
  A waker event handles commands strictly in the order they were posted, those that a handler
  posts to its own worker after the ones already queued, and at most 1024 of them. What is beyond
  the first 1024 stays queued, untouched and in order, after the only wake-up for it was consumed.
\<close>
theorem waker_event_fifo:
  "(process_poll_event env mine ios g ps q WakerEvent = Some (Done (g', ps', q', effs)) \<longrightarrow>
     (let queued = q @ own_posts mine effs; n = min 1024 (length queued) in
        q' = drop n queued \<and> run_commands env ios 1024 g ps (take n queued) = Some (Done (g', ps', effs)))) \<and>
   process_poll_event env (\<lambda>_. False) ios g ps q WakerEvent =
     obind (run_commands env ios 1024 g ps (take 1024 q)) (\<lambda>(g, ps, effs). Some (Done (g, ps, drop 1024 q, effs)))"
  using drain_commands_fifo [of env mine ios 1024 g ps q g' ps' q' effs]
  by (simp add: process_poll_event_def MAX_COMMANDS_def drain_commands_alone)

theorem waker_event_fifo_witness:
  "process_poll_event \<lparr>env_mio = mio_ok, debug = True\<rparr> (\<lambda>_. False) (\<lambda>_. \<lparr>tcp_io = os_demo, ssl_io = tls_demo\<rparr>) (ResourceIdGenerator_new Remote) []
     [Greet ''a'', Stop] WakerEvent = Some (Done (ResourceIdGenerator_new Remote, [], [], [Emit_Waker (Greet ''a''), Emit_Waker Stop])) \<and>
   run_commands \<lparr>env_mio = mio_ok, debug = True\<rparr> (\<lambda>_. \<lparr>tcp_io = os_demo, ssl_io = tls_demo\<rparr>) 1024 (ResourceIdGenerator_new Remote) [] [Greet ''a'', Stop] =
     Some (Done (ResourceIdGenerator_new Remote, [], [Emit_Waker (Greet ''a''), Emit_Waker Stop]))"
  using waker_event_fifo [of "\<lparr>env_mio = mio_ok, debug = True\<rparr>" "\<lambda>_. False" "\<lambda>_. \<lparr>tcp_io = os_demo, ssl_io = tls_demo\<rparr>" "ResourceIdGenerator_new Remote" "[]"
    "[Greet ''a'', Stop]" "ResourceIdGenerator_new Remote" "[]" "[]" "[Emit_Waker (Greet ''a''), Emit_Waker Stop]"]
  by (simp add: process_command_def Let_def own_posts_def)

text \<open>
  C26: A command that returns has called the callback it carries exactly once, with one exception: a
  \<open>Connect\<close> calls none. When the connection attempt starts it hands its callback on, in a
  registration posted for the new remote id; when the attempt fails at once it posts nothing, so the
  callback is dropped without a call.
\<close>
theorem command_calls_back:
  "(process_command env io g ps c = Some (Done (g', ps', effs)) \<longrightarrow> called effs = callbacks_of c) \<and>
   (process_command env io g ps (Connect config i ra cb) = Some (Done (g', ps', effs)) \<longrightarrow>
     effs = [] \<or> (\<exists>la peer s p. effs = [Driver_Effect (Post i (ConnectRegisterRemote la (i, peer) s p cb))])) \<and>
   (adapter_id i = Transport_id Tcp \<and> length ps = 128 \<and> ps ! unat (Transport_id Tcp) = TcpDriver d \<and>
     tcp_connect_with (tcp_io io) config ra = Done (Err e) \<longrightarrow>
     process_command env io g ps (Connect config i ra cb) =
       Some (Done (g, ps[unat (Transport_id Tcp) := TcpDriver (d\<lparr>remote_id_generator := g\<rparr>)], [])))"
proof (intro conjI impI)
  assume "process_command env io g ps (Connect config i ra cb) = Some (Done (g', ps', effs))"
  then show "effs = [] \<or> (\<exists>la peer s p. effs = [Driver_Effect (Post i (ConnectRegisterRemote la (i, peer) s p cb))])"
    by (auto simp: process_command_def Let_def result_simps ssl_driver_defs
        elim!: on_processor_cases process_connect_cases)
next
  assume "adapter_id i = Transport_id Tcp \<and> length ps = 128 \<and> ps ! unat (Transport_id Tcp) = TcpDriver d \<and>
     tcp_connect_with (tcp_io io) config ra = Done (Err e)"
  then show "process_command env io g ps (Connect config i ra cb) =
       Some (Done (g, ps[unat (Transport_id Tcp) := TcpDriver (d\<lparr>remote_id_generator := g\<rparr>)], []))"
    by (simp add: process_command_def on_processor_def get_processor_def call_processor_def process_connect_def
        TcpAdapter_def Transport_id_def)
qed (rule process_command_calls)

theorem command_calls_back_witness:
  "process_command \<lparr>env_mio = mio_ok, debug = True\<rparr>
     \<lparr>tcp_io = os_demo\<lparr>set_nonblocking := Err OtherKind\<rparr>, ssl_io = tls_demo\<rparr> (ResourceIdGenerator_new Remote)
     (create_multiplexor_worker (ResourceIdGenerator_new Remote))
     (Connect ConnectConfig_default demo_id (Socket (V4 7 80)) 5) =
   Some (Done (ResourceIdGenerator_new Remote, (create_multiplexor_worker (ResourceIdGenerator_new Remote))
     [0 := TcpDriver ((driver_new (ResourceIdGenerator_new Remote))\<lparr>remote_id_generator := ResourceIdGenerator_new Remote\<rparr>)], []))"
proof -
  have slot: "create_multiplexor_worker g ! 0 = TcpDriver (driver_new g)" for g
    by (simp add: create_multiplexor_worker_def mount_adapter_def MAX_ADAPTERS_128 nth_list_update Transport_id_def)
  have "adapter_id demo_id = Transport_id Tcp"
    by (simp add: demo_id_def adapter_id_def ADAPTER_ID_MASK_def Transport_id_def)
  moreover have "tcp_connect_with (os_demo\<lparr>set_nonblocking := Err OtherKind\<rparr>) ConnectConfig_default (Socket (V4 7 80)) =
      Done (Err OtherKind)"
    by (simp add: tcp_connect_with_def socket_addr_def tcp_remote_connect_with_def os_demo_def result_simps)
  ultimately show ?thesis
    using command_calls_back [of "\<lparr>env_mio = mio_ok, debug = True\<rparr>"
        "\<lparr>tcp_io = os_demo\<lparr>set_nonblocking := Err OtherKind\<rparr>, ssl_io = tls_demo\<rparr>"
        "ResourceIdGenerator_new Remote" "create_multiplexor_worker (ResourceIdGenerator_new Remote)" Stop
        _ _ _ ConnectConfig_default demo_id "Socket (V4 7 80)" 5 "driver_new (ResourceIdGenerator_new Remote)" OtherKind]
    by (simp add: length_processors slot Transport_id_def)
qed

end
