(* ===== verification/Worker_Commands.thy ===== *)
theory Worker_Commands
  imports Network "HOL-Library.Multiset"
begin

text \<open>
  One command at one driver: the handling of a command, split into the choice of the driver and
  what the driver does; the table of a worker seen as its two drivers; and the commands that a
  handler posts, with the remote ids they carry.
\<close>

section \<open>One command at one driver\<close>

fun driver_command ::
  "('r, 'l, 'io) adapter \<Rightarrow> mio \<Rightarrow> 'io \<Rightarrow> ('r, 'l) driver \<Rightarrow> WakerCommand \<Rightarrow> (('r, 'l) driver \<times> effect list) exec option" where
  "driver_command A mio io d (AcceptRegisterRemote lp rp s p) = Some (process_accept_register_remote A mio d lp rp s p noop)"
| "driver_command A mio io d (ConnectRegisterRemote la rp s p cb) =
     Some (process_connect_register_remote A mio io d la rp s p cb)"
| "driver_command A mio io d (Listen config l a cb) = Some (process_listen A mio io d config l a cb)"
| "driver_command A mio io d (Connect config i ra cb) = Some (process_connect A io d config i ra cb)"
| "driver_command A mio io d (Send e data) = quiet_send A io e (process_send A io d e data) []"
| "driver_command A mio io d (SendSync e data cb) = quiet_send A io e (process_send A io d e data) [Call_Sent cb]"
| "driver_command A mio io d (Close i) = Some (process_close A mio d i noop)"
| "driver_command A mio io d (IsReady i cb) = Some (Done (d, process_is_ready d i cb))"
| "driver_command A mio io d _ = Some (Done (d, []))"

fun cmd_id :: "WakerCommand \<Rightarrow> ResourceId option" where
  "cmd_id (AcceptRegisterRemote _ rp _ _) = Some (fst rp)"
| "cmd_id (ConnectRegisterRemote _ rp _ _ _) = Some (fst rp)"
| "cmd_id (Listen _ l _ _) = Some l"
| "cmd_id (Connect _ i _ _) = Some i"
| "cmd_id (Send e _) = Some (resource_id e)"
| "cmd_id (SendSync e _ _) = Some (resource_id e)"
| "cmd_id (Close i) = Some i"
| "cmd_id (IsReady i _) = Some i"
| "cmd_id (Greet _) = None"
| "cmd_id Stop = None"

lemma process_command_eq:
  "process_command env io g ps c =
     (case cmd_id c of
        None \<Rightarrow> Some (Done (g, ps, [Emit_Waker c]))
      | Some i \<Rightarrow>
          obind (on_processor (\<lambda>d. driver_command TcpAdapter (env_mio env) (tcp_io io) d c)
              (\<lambda>d. driver_command SslAdapter (env_mio env) (ssl_io io) d c) g ps (adapter_id i))
            (\<lambda>(g, ps, effs). Some (Done (g, ps, map Driver_Effect effs))))"
  by (cases c) (simp_all add: process_command_def Let_def ssl_driver_defs)

text \<open>The ids a command registers, and what a registration needs.\<close>

fun registers :: "WakerCommand \<Rightarrow> ResourceId list" where
  "registers (AcceptRegisterRemote _ rp _ _) = [fst rp]"
| "registers (ConnectRegisterRemote _ rp _ _ _) = [fst rp]"
| "registers _ = []"

fun registrable :: "('r, 'l, 'io) adapter \<Rightarrow> 'io \<Rightarrow> ('r, 'l) driver \<Rightarrow> WakerCommand \<Rightarrow> bool" where
  "registrable A io d (AcceptRegisterRemote _ _ s _) = (s \<notin> watched A d)"
| "registrable A io d (ConnectRegisterRemote _ _ s _ _) = (s \<notin> watched A d)"
| "registrable A io d (Listen config l a _) = (resource_type l = Local \<and>
     (\<forall>loc la. listen_with A io config a = Done (Ok (loc, la)) \<longrightarrow> local_source A loc \<notin> watched A d))"
| "registrable A io d _ = True"

lemma driver_command_step:
  assumes "driver_command A mio io d c = Some (Done (d', effs))" and "cmd_id c \<noteq> None"
    and "registrable A io d c" and "\<forall>i \<in> set (registers c). resource_type i = Remote \<and> i \<notin> used"
  shows "driver_step A mio (used, d) effs (used \<union> set (registers c), d')"
  using assms
proof (cases c)
  case (AcceptRegisterRemote lp rp s p)
  with assms show ?thesis
    by (cases rp) (auto intro!: driver_step.Accept_Register)
next
  case (ConnectRegisterRemote la rp s p cb)
  with assms show ?thesis by (cases rp) (auto intro!: driver_step.Connect_Register)
next
  case (Listen config l a cb)
  with assms show ?thesis by (auto intro!: driver_step.Listen)
next
  case (IsReady i cb)
  with assms show ?thesis by (auto intro: driver_step.Is_Ready)
qed (auto simp: quiet_send_def result_simps intro: driver_step.intros)

section \<open>The table of a worker\<close>

definition table :: "processors \<Rightarrow> (TcpRemote, TcpLocal) driver \<Rightarrow> ssl_driver \<Rightarrow> bool" where
  "table ps dt ds \<longleftrightarrow> length ps = 128 \<and> ps ! 0 = TcpDriver dt \<and> ps ! 2 = SslDriver ds \<and>
     (\<forall>k < 128. k \<noteq> 0 \<longrightarrow> k \<noteq> 2 \<longrightarrow> ps ! k = UnimplementedDriver)"

lemma table_new: "table (create_multiplexor_worker g) (driver_new g) (driver_new g)"
  by (simp add: table_def create_multiplexor_worker_def mount_adapter_def MAX_ADAPTERS_128 Transport_id_def)

lemma on_processor_on_table:
  assumes "on_processor tc sc g ps a = Some (Done (g', ps', effs))" and "table ps dt ds"
  obtains
    (tcp) dt' where "a = Transport_id Tcp" "tc (dt\<lparr>remote_id_generator := g\<rparr>) = Some (Done (dt', effs))"
      "table ps' dt' ds" "g' = remote_id_generator dt'"
  | (ssl) ds' where "a = Transport_id Ssl" "sc (ds\<lparr>remote_id_generator := g\<rparr>) = Some (Done (ds', effs))"
      "table ps' dt ds'" "g' = remote_id_generator ds'"
  using assms(1)
proof (cases rule: on_processor_cases)
  case (tcp_slot d d')
  with assms(2) have "unat a = 0" by (cases "unat a = 0"; cases "unat a = 2") (auto simp: table_def)
  with tcp_slot assms(2) show thesis
    by (intro tcp) (auto simp: table_def Transport_id_def word_unat_eq_iff nth_list_update)
next
  case (ssl_slot d d')
  with assms(2) have "unat a = 2" by (cases "unat a = 0"; cases "unat a = 2") (auto simp: table_def)
  with ssl_slot assms(2) show thesis
    by (intro ssl) (auto simp: table_def Transport_id_def word_unat_eq_iff nth_list_update)
qed

lemma table_set: "table ps dt ds \<Longrightarrow> TcpDriver dt \<in> set ps \<and> SslDriver ds \<in> set ps"
  using nth_mem [of 0 ps] nth_mem [of 2 ps] by (auto simp: table_def)

section \<open>Posted commands\<close>

fun posts :: "effect list \<Rightarrow> (ResourceId \<times> WakerCommand) list" where
  "posts [] = []"
| "posts (Post r c # es) = (r, c) # posts es"
| "posts (_ # es) = posts es"

fun driver_effs :: "weffect list \<Rightarrow> effect list" where
  "driver_effs [] = []"
| "driver_effs (Driver_Effect e # es) = e # driver_effs es"
| "driver_effs (Emit_Waker _ # es) = driver_effs es"

lemma driver_effs_map [simp]: "driver_effs (map Driver_Effect es) = es"
  by (induction es) simp_all

lemma posts_append [simp]: "posts (xs @ ys) = posts xs @ posts ys"
  by (induction xs rule: posts.induct) simp_all

lemma posts_other [simp]:
  "posts (map Poll_Call cs) = []" "posts (map (\<lambda>x. Emit (f x)) xs) = []"
  by (induction cs, simp_all) (induction xs, simp_all)

text \<open>The remote ids a command stands for: the one it connects, or the one it registers.\<close>

fun claims :: "WakerCommand \<Rightarrow> ResourceId list" where
  "claims (Connect _ i _ _) = [i]"
| "claims c = registers c"

definition posted :: "effect list \<Rightarrow> ResourceId list" where
  "posted effs = concat (map (claims \<circ> snd) (posts effs))"

lemma posted_simps [simp]: "posted [] = []" "posted (xs @ ys) = posted xs @ posted ys"
  "posted (Post r c # es) = claims c @ posted es"
  by (simp_all add: posted_def)

definition own_registrations :: "effect list \<Rightarrow> bool" where
  "own_registrations effs \<longleftrightarrow> (\<forall>(r, c) \<in> set (posts effs). registers c = [r] \<and> claims c = [r])"

lemma driver_command_posts:
  assumes "driver_command A mio io d c = Some (Done (d', effs))"
  shows "own_registrations effs" and "mset (posted effs) + mset (registers c) \<subseteq># mset (claims c)"
    and "remote_id_generator d' = remote_id_generator d"
    and "local_registry d = Map.empty \<Longrightarrow> (\<And>cf l a cb. c \<noteq> Listen cf l a cb) \<Longrightarrow> local_registry d' = Map.empty"
proof -
  have "own_registrations effs \<and> mset (posted effs) + mset (registers c) \<subseteq># mset (claims c) \<and>
      remote_id_generator d' = remote_id_generator d \<and>
      ((\<forall>cf l a cb. c \<noteq> Listen cf l a cb) \<longrightarrow> local_registry d = Map.empty \<longrightarrow> local_registry d' = Map.empty)"
  proof (cases c)
    case (Listen cf l a cb)
    with assms have "process_listen A mio io d cf l a cb = Done (d', effs)" by simp
    then show ?thesis
      by (cases rule: process_listen_cases) (auto simp: own_registrations_def posted_def Listen)
  next
    case (Connect cf i ra cb)
    with assms have "process_connect A io d cf i ra cb = Done (d', effs)" by simp
    then show ?thesis
      by (cases rule: process_connect_cases) (auto simp: own_registrations_def posted_def Connect)
  qed (use assms in \<open>auto simp: own_registrations_def posted_def process_accept_register_remote_def
        process_connect_register_remote_def process_close_def process_is_ready_def quiet_send_def process_send_def
        registry_deregister_def Let_def result_simps split: ResourceType.splits option.splits if_splits\<close>)
  then show "own_registrations effs" "mset (posted effs) + mset (registers c) \<subseteq># mset (claims c)"
    "remote_id_generator d' = remote_id_generator d"
    "local_registry d = Map.empty \<Longrightarrow> (\<And>cf l a cb. c \<noteq> Listen cf l a cb) \<Longrightarrow> local_registry d' = Map.empty" by auto
qed

lemma resolve_pending_posts:
  assumes "resolve_pending_remote A mio io d remote e = Some (Done (io', d', remote', effs))"
  shows "posts effs = [] \<and> remote_id_generator d' = remote_id_generator d \<and> local_registry d' = local_registry d"
proof -
  from assms obtain io1 res st where "pending A io (resource remote) = Some (Done (io1, res, st))"
    by (auto simp: resolve_pending_remote_def result_simps)
  with assms show ?thesis
    by (cases st) (auto simp: resolve_pending_remote_def Let_def result_simps split: if_splits)
qed

lemma read_from_remote_posts:
  assumes "read_from_remote A mio io d remote e = Some (Done (d', remote', effs))"
  shows "posts effs = [] \<and> remote_id_generator d' = remote_id_generator d \<and> local_registry d' = local_registry d"
proof -
  from assms obtain io1 res ds st where "receive A io (resource remote) = Some (Done (io1, res, ds, st))"
    by (auto simp: read_from_remote_def result_simps)
  with assms show ?thesis
    by (cases st) (auto simp: read_from_remote_def Let_def result_simps split: if_splits)
qed

lemma drop_clone_posts: "drop_clone A mio d i remote = Done effs \<Longrightarrow> posts effs = []"
  by (auto simp: drop_clone_def result_simps split: if_splits)

lemma post_accepted_generates:
  "post_accepted A dbg io d loc l as = Done (d', effs) \<Longrightarrow>
   \<exists>k. generate_all dbg (remote_id_generator d) (replicate k (adapter_id l)) = Done (posted effs, remote_id_generator d') \<and>
     own_registrations effs \<and> local_registry d' = local_registry d"
proof (induction A dbg io d loc l as arbitrary: d' effs rule: post_accepted.induct)
  case (1 A dbg io d loc l)
  then show ?case by (auto simp: own_registrations_def intro: exI [of _ 0])
next
  case (2 A dbg io d loc l a st p as)
  then obtain la r g effs2 where *: "listener_addr A io loc = Inr la"
    "generate dbg (remote_id_generator d) (adapter_id l) = Done (r, g)"
    "post_accepted A dbg io (d\<lparr>remote_id_generator := g\<rparr>) loc l as = Done (d', effs2)"
    "effs = Post r (AcceptRegisterRemote (l, la) (r, a) st p) # effs2"
    by (auto simp: result_simps next_remote_id_def)
  from 2(1) [OF *(3)] obtain k where
    "generate_all dbg g (replicate k (adapter_id l)) = Done (posted effs2, remote_id_generator d')"
    "own_registrations effs2" "local_registry d' = local_registry d" by auto
  with * show ?case by (intro exI [of _ "Suc k"]) (auto simp: own_registrations_def)
next
  case (3 A dbg io d loc l a data as)
  then show ?case by (fastforce simp: result_simps own_registrations_def posted_def)
qed

lemma process_read_posts:
  assumes "process_read A mio dbg io d i = Some (Done (d', effs))"
  shows "\<exists>k. generate_all dbg (remote_id_generator d) (replicate k (adapter_id i)) = Done (posted effs, remote_id_generator d') \<and>
     own_registrations effs \<and> local_registry d' = local_registry d"
proof (cases "resource_type i")
  case Local
  show ?thesis
  proof (cases "registry_get (local_registry d) i")
    case None
    with Local assms show ?thesis
      by (auto simp: process_read_def own_registrations_def intro: exI [of _ 0])
  next
    case (Some loc)
    with Local assms show ?thesis
      by (auto simp: process_read_def read_from_local_def split: option.splits dest: post_accepted_generates)
  qed
next
  case Remote
  have "posts effs = [] \<and> remote_id_generator d' = remote_id_generator d \<and> local_registry d' = local_registry d"
    using assms Remote
    by (auto simp: process_read_def Let_def result_simps split: option.splits if_splits
        dest!: resolve_pending_posts read_from_remote_posts drop_clone_posts)
  then show ?thesis by (auto simp: own_registrations_def posted_def intro: exI [of _ 0])
qed

lemma process_write_posts:
  assumes "process_write A mio io d i = Some (Done (d', effs))"
  shows "posts effs = [] \<and> remote_id_generator d' = remote_id_generator d \<and> local_registry d' = local_registry d"
  using assms
  by (auto simp: process_write_def write_to_remote_def Let_def result_simps
      split: ResourceType.splits option.splits if_splits dest!: resolve_pending_posts drop_clone_posts)

end
