(* ===== verification/Node.thy ===== *)
theory Node
  imports Worker_Commands
begin

text \<open>
  The node: \<open>src/src/node.rs\<close> with the controllers of \<open>src/src/network.rs\<close> and the multiplexor of
  \<open>network/loader.rs\<close>. A node is one master and a number of workers, each a thread with a command
  queue and a table of drivers; the handler posts commands to them. The threads run interleaved,
  one command or one poll event at a time.
\<close>

section \<open>Controllers and workers\<close>

text \<open>
  A controller and the worker thread that reads its queue. \<open>woken\<close>: the poll has a wake-up to
  report; \<open>in_batch\<close>: the thread is inside a call of \<open>process_poll_event\<close>, which handles the events of one
  poll; \<open>draining\<close>: how many commands the loop of the waker event may still take.
\<close>

record worker =
  ctl_id :: nat
  commands :: "WakerCommand list"
  woken :: bool
  in_batch :: bool
  draining :: nat
  procs :: processors

definition worker_new :: "ResourceIdGenerator \<Rightarrow> nat \<Rightarrow> worker" where
  "worker_new g k = \<lparr>ctl_id = k, commands = [], woken = False, in_batch = False, draining = 0, procs = create_multiplexor_worker g\<rparr>"

text \<open>
  \<open>post\<close> of \<open>events.rs\<close> sends the command and unwraps the answers of the channel, which cannot be closed while the
  thread lives, and of the waker, which is taken to succeed.
\<close>

definition do_post :: "worker \<Rightarrow> WakerCommand \<Rightarrow> worker" where
  "do_post w c = w\<lparr>commands := queue_post (commands w) c, woken := True\<rparr>"

section \<open>The node\<close>

record node =
  rgen :: ResourceIdGenerator
  lgen :: ResourceIdGenerator
  master :: worker
  workers :: "worker list"
  running :: bool

definition MULTIPLEXOR_WORKER_NUM :: nat where "MULTIPLEXOR_WORKER_NUM = 4"
definition CONTROLLER_ID_BASE :: nat where "CONTROLLER_ID_BASE = 7000"

definition split_id_generator :: "ResourceIdGenerator \<times> ResourceIdGenerator" where
  "split_id_generator = (ResourceIdGenerator_new Remote, ResourceIdGenerator_new Local)"

definition create_node_handler :: "nat \<Rightarrow> node" where
  "create_node_handler worker_num =
     (let (rgen, lgen) = split_id_generator in
      \<lparr>rgen = rgen, lgen = lgen, master = worker_new rgen CONTROLLER_ID_BASE,
       workers = map (\<lambda>i. worker_new rgen (CONTROLLER_ID_BASE + i)) [1 ..< Suc worker_num],
       running = True\<rparr>)"

definition split :: node where
  "split = create_node_handler MULTIPLEXOR_WORKER_NUM"

text \<open>\<open>%\<close> panics on a zero divisor.\<close>

definition to_worker_index :: "nat \<Rightarrow> ResourceId \<Rightarrow> nat exec" where
  "to_worker_index worker_num rid = (if worker_num = 0 then Panic else Done (unat (raw rid) mod worker_num))"

definition post :: "node \<Rightarrow> ResourceId \<Rightarrow> WakerCommand \<Rightarrow> node exec" where
  "post n rid c =
     xbind (to_worker_index (length (workers n)) rid) (\<lambda>k.
     Done (n\<lparr>workers := (workers n)[k := do_post (workers n ! k) c]\<rparr>))"

definition post_to_master :: "node \<Rightarrow> WakerCommand \<Rightarrow> node" where
  "post_to_master n c = n\<lparr>master := do_post (master n) c\<rparr>"

section \<open>Operations of the handler\<close>

text \<open>
  \<open>raddr\<close> and \<open>addrs\<close> are what \<open>to_remote_addr\<close> and \<open>to_socket_addrs\<close> return for the address argument.
\<close>

definition handler_next_remote_id :: "bool \<Rightarrow> node \<Rightarrow> u8 \<Rightarrow> (ResourceId \<times> node) exec" where
  "handler_next_remote_id dbg n a = xbind (generate dbg (rgen n) a) (\<lambda>(r, g). Done (r, n\<lparr>rgen := g\<rparr>))"

definition handler_next_local_id :: "bool \<Rightarrow> node \<Rightarrow> u8 \<Rightarrow> (ResourceId \<times> node) exec" where
  "handler_next_local_id dbg n a = xbind (generate dbg (lgen n) a) (\<lambda>(r, g). Done (r, n\<lparr>lgen := g\<rparr>))"

definition handler_connect_with ::
  "bool \<Rightarrow> node \<Rightarrow> ConnectConfig \<Rightarrow> Transport \<Rightarrow> io_error + RemoteAddr \<Rightarrow> callback \<Rightarrow> node exec" where
  "handler_connect_with dbg n config transport raddr cb =
     xbind (handler_next_remote_id dbg n (Transport_id transport)) (\<lambda>(remote_id, n).
     xbind (unwrap raddr) (\<lambda>a.
     Done (post_to_master n (Connect config remote_id a cb))))"

definition handler_connect ::
  "bool \<Rightarrow> node \<Rightarrow> Transport \<Rightarrow> io_error + RemoteAddr \<Rightarrow> callback \<Rightarrow> node exec" where
  "handler_connect dbg n transport raddr cb = handler_connect_with dbg n ConnectConfig_default transport raddr cb"

definition handler_listen_with ::
  "bool \<Rightarrow> node \<Rightarrow> ListenConfig \<Rightarrow> Transport \<Rightarrow> io_error + SocketAddr list \<Rightarrow> callback \<Rightarrow> node exec" where
  "handler_listen_with dbg n config transport addrs cb =
     xbind (handler_next_local_id dbg n (Transport_id transport)) (\<lambda>(local_id, n).
     xbind (unwrap addrs) (\<lambda>as.
     case as of
       [] \<Rightarrow> Panic
     | a # _ \<Rightarrow> Done (post_to_master n (Listen config local_id a cb))))"

definition handler_listen ::
  "bool \<Rightarrow> node \<Rightarrow> Transport \<Rightarrow> io_error + SocketAddr list \<Rightarrow> callback \<Rightarrow> node exec" where
  "handler_listen dbg n transport addrs cb = handler_listen_with dbg n ListenConfig_default transport addrs cb"

definition handler_send :: "node \<Rightarrow> Endpoint \<Rightarrow> bytes \<Rightarrow> node exec" where
  "handler_send n endpoint buffer = post n (resource_id endpoint) (Send endpoint buffer)"

definition handler_send_sync :: "node \<Rightarrow> Endpoint \<Rightarrow> bytes \<Rightarrow> callback \<Rightarrow> node exec" where
  "handler_send_sync n endpoint buffer cb = post n (resource_id endpoint) (SendSync endpoint buffer cb)"

definition handler_is_ready :: "node \<Rightarrow> ResourceId \<Rightarrow> callback \<Rightarrow> node exec" where
  "handler_is_ready n rid cb = post n rid (IsReady rid cb)"

definition handler_close :: "node \<Rightarrow> ResourceId \<Rightarrow> node exec" where
  "handler_close n rid =
     (case resource_type rid of
        Local \<Rightarrow> Done (post_to_master n (Close rid))
      | Remote \<Rightarrow> post n rid (Close rid))"

definition handler_stop :: "node \<Rightarrow> node" where
  "handler_stop n = n\<lparr>running := False\<rparr>"

text \<open>
  The blocking variants: they post like the others, with a callback that fulfils a promise, and
  wait for it. What \<open>wait\<close> of a promise comes to: \<open>None\<close> when it never returns, \<open>Some Panic\<close> when it panics. \<open>promise\<close>
  is the wait for the callback of the connect; \<open>answers k\<close> the one of the \<open>k\<close>-th \<open>is_ready_sync\<close>.
\<close>

type_synonym 'a waited = "'a exec option"

definition connect_sync_post ::
  "bool \<Rightarrow> node \<Rightarrow> ConnectConfig \<Rightarrow> Transport \<Rightarrow> io_error + RemoteAddr \<Rightarrow> callback \<Rightarrow> node exec" where
  "connect_sync_post dbg n config transport raddr cb =
     xbind (unwrap raddr) (\<lambda>a. handler_connect_with dbg n config transport (to_remote_addr_remote a) cb)"

fun ready_loop ::
  "nat \<Rightarrow> (nat \<Rightarrow> bool option waited) \<Rightarrow> nat \<Rightarrow> Endpoint \<times> SocketAddr \<Rightarrow> (io_error + Endpoint \<times> SocketAddr) waited" where
  "ready_loop 0 answers k ret = Some (Done (Err ConnectionAborted))"
| "ready_loop (Suc left) answers k ret =
     obind (answers k) (\<lambda>status.
     case status of
       Some True \<Rightarrow> Some (Done (Ok ret))
     | Some False \<Rightarrow> ready_loop left answers (Suc k) ret
     | None \<Rightarrow> Some (Done (Err ConnectionRefused)))"

definition connect_sync_wait ::
  "(io_error + Endpoint \<times> SocketAddr) waited \<Rightarrow> (nat \<Rightarrow> bool option waited) \<Rightarrow>
   (io_error + Endpoint \<times> SocketAddr) waited" where
  "connect_sync_wait promise answers =
     obind promise (\<lambda>ret.
     case ret of
       Inr ret \<Rightarrow> ready_loop 1000 answers 0 ret
     | Inl e \<Rightarrow> Some (Done (Err e)))"

definition listen_sync_post ::
  "bool \<Rightarrow> node \<Rightarrow> ListenConfig \<Rightarrow> Transport \<Rightarrow> io_error + SocketAddr list \<Rightarrow> callback \<Rightarrow> node exec" where
  "listen_sync_post dbg n config transport addrs cb =
     xbind (unwrap addrs) (\<lambda>as.
     case as of [] \<Rightarrow> Panic | a # _ \<Rightarrow> handler_listen_with dbg n config transport (Ok [a]) cb)"

definition connect_sync ::
  "bool \<Rightarrow> node \<Rightarrow> Transport \<Rightarrow> io_error + RemoteAddr \<Rightarrow> callback \<Rightarrow> node exec" where
  "connect_sync dbg n transport raddr cb = connect_sync_post dbg n ConnectConfig_default transport raddr cb"

definition listen_sync ::
  "bool \<Rightarrow> node \<Rightarrow> Transport \<Rightarrow> io_error + SocketAddr list \<Rightarrow> callback \<Rightarrow> node exec" where
  "listen_sync dbg n transport addrs cb = listen_sync_post dbg n ListenConfig_default transport addrs cb"

text \<open>
  The calls a user can make, from any thread or from within a callback. \<open>post\<close> and \<open>post_to_master\<close> take any
  command. A run has them with the commands that belong to no one else: \<open>plain_command\<close> leaves out those that
  register a resource, carry an id to be registered or data, which the library makes itself.
\<close>

datatype op =
    Op_Connect ConnectConfig Transport "io_error + RemoteAddr" callback
  | Op_Connect_Sync ConnectConfig Transport "io_error + RemoteAddr" callback
  | Op_Listen ListenConfig Transport "io_error + SocketAddr list" callback
  | Op_Listen_Sync ListenConfig Transport "io_error + SocketAddr list" callback
  | Op_Send Endpoint bytes
  | Op_Send_Sync Endpoint bytes callback
  | Op_Is_Ready ResourceId callback
  | Op_Close ResourceId
  | Op_Post ResourceId WakerCommand
  | Op_Post_Master WakerCommand
  | Op_Stop

fun plain_command :: "WakerCommand \<Rightarrow> bool" where
  "plain_command (Greet _) = True"
| "plain_command (Close _) = True"
| "plain_command (IsReady _ _) = True"
| "plain_command Stop = True"
| "plain_command _ = False"

fun plain_op :: "op \<Rightarrow> bool" where
  "plain_op (Op_Post _ c) = plain_command c"
| "plain_op (Op_Post_Master c) = plain_command c"
| "plain_op _ = True"

definition handler_call :: "bool \<Rightarrow> node \<Rightarrow> op \<Rightarrow> node exec" where
  "handler_call dbg n op =
     (case op of
        Op_Connect config t a cb \<Rightarrow> handler_connect_with dbg n config t a cb
      | Op_Connect_Sync config t a cb \<Rightarrow> connect_sync_post dbg n config t a cb
      | Op_Listen config t a cb \<Rightarrow> handler_listen_with dbg n config t a cb
      | Op_Listen_Sync config t a cb \<Rightarrow> listen_sync_post dbg n config t a cb
      | Op_Send e b \<Rightarrow> handler_send n e b
      | Op_Send_Sync e b cb \<Rightarrow> handler_send_sync n e b cb
      | Op_Is_Ready i cb \<Rightarrow> handler_is_ready n i cb
      | Op_Close i \<Rightarrow> handler_close n i
      | Op_Post i c \<Rightarrow> post n i c
      | Op_Post_Master c \<Rightarrow> Done (post_to_master n c)
      | Op_Stop \<Rightarrow> Done (handler_stop n))"

section \<open>The threads\<close>

datatype who = Master | Worker nat

fun on_duty :: "node \<Rightarrow> who \<Rightarrow> bool" where
  "on_duty n Master = True"
| "on_duty n (Worker k) = (k < length (workers n))"

fun worker_at :: "node \<Rightarrow> who \<Rightarrow> worker" where
  "worker_at n Master = master n"
| "worker_at n (Worker k) = workers n ! k"

fun set_worker :: "node \<Rightarrow> who \<Rightarrow> worker \<Rightarrow> node" where
  "set_worker n Master w = n\<lparr>master := w\<rparr>"
| "set_worker n (Worker k) w = n\<lparr>workers := (workers n)[k := w]\<rparr>"

text \<open>The commands a handler posts reach the queues of the workers they are for.\<close>

fun deliver :: "node \<Rightarrow> weffect list \<Rightarrow> node exec" where
  "deliver n [] = Done n"
| "deliver n (Driver_Effect (Post r c) # es) = xbind (post n r c) (\<lambda>n. deliver n es)"
| "deliver n (_ # es) = deliver n es"

text \<open>
  The operating system never hands out a stream or listener that is still registered in the poll
  of the worker: \<open>new_source\<close> says so of the command about to be handled.
\<close>

fun watched_by :: "processor \<Rightarrow> source set" where
  "watched_by UnimplementedDriver = {}"
| "watched_by (TcpDriver d) = watched TcpAdapter d"
| "watched_by (SslDriver d) = watched SslAdapter d"

fun new_source :: "net_io \<Rightarrow> processors \<Rightarrow> WakerCommand \<Rightarrow> bool" where
  "new_source io ps (AcceptRegisterRemote _ _ stream _) = (\<forall>p \<in> set ps. stream \<notin> watched_by p)"
| "new_source io ps (ConnectRegisterRemote _ _ stream _ _) = (\<forall>p \<in> set ps. stream \<notin> watched_by p)"
| "new_source io ps (Listen config _ a _) = (\<forall>p \<in> set ps.
     (\<forall>l la. tcp_listen_with (tcp_io io) config a = Done (Ok (l, la)) \<longrightarrow> tcp_listener l \<notin> watched_by p) \<and>
     (\<forall>l la. ssl_listen_with (ssl_io io) config a = Done (Ok (l, la)) \<longrightarrow> ssl_listener l \<notin> watched_by p))"
| "new_source io ps _ = True"

datatype label =
    Call op
  | Silent
  | Cmd who WakerCommand "weffect list"
  | Event who PollEvent "weffect list"

text \<open>
  \<open>is_running\<close> is asked between two calls of \<open>process_poll_event\<close>, so a thread goes on with the events of its batch after
  \<open>stop\<close>. The events of a batch are whatever the poll reports, in any order and number.
\<close>

inductive node_step :: "env \<Rightarrow> node \<Rightarrow> label \<Rightarrow> node \<Rightarrow> bool" for env :: env where
  User: "handler_call (debug env) n op = Done n' \<Longrightarrow> plain_op op \<Longrightarrow> node_step env n (Call op) n'"
| Batch: "running n \<Longrightarrow> on_duty n who \<Longrightarrow> w = worker_at n who \<Longrightarrow> \<not> in_batch w \<Longrightarrow>
    node_step env n Silent (set_worker n who (w\<lparr>in_batch := True\<rparr>))"
| Batch_End: "on_duty n who \<Longrightarrow> w = worker_at n who \<Longrightarrow> in_batch w \<Longrightarrow> draining w = 0 \<Longrightarrow>
    node_step env n Silent (set_worker n who (w\<lparr>in_batch := False\<rparr>))"
| Wake: "on_duty n who \<Longrightarrow> w = worker_at n who \<Longrightarrow> in_batch w \<Longrightarrow> woken w \<Longrightarrow> draining w = 0 \<Longrightarrow>
    node_step env n Silent (set_worker n who (w\<lparr>woken := False, draining := MAX_COMMANDS\<rparr>))"
| Command: "on_duty n who \<Longrightarrow> w = worker_at n who \<Longrightarrow> draining w = Suc b \<Longrightarrow> try_receive (commands w) = Some (c, q) \<Longrightarrow>
    process_command env io (rgen n) (procs w) c = Some (Done (g, ps, effs)) \<Longrightarrow> new_source io (procs w) c \<Longrightarrow>
    deliver (set_worker (n\<lparr>rgen := g\<rparr>) who (w\<lparr>commands := q, draining := b, procs := ps\<rparr>)) effs = Done n' \<Longrightarrow>
    node_step env n (Cmd who c effs) n'"
| Drained: "on_duty n who \<Longrightarrow> w = worker_at n who \<Longrightarrow> draining w \<noteq> 0 \<Longrightarrow> try_receive (commands w) = None \<Longrightarrow>
    node_step env n Silent (set_worker n who (w\<lparr>draining := 0\<rparr>))"
| Poll: "on_duty n who \<Longrightarrow> w = worker_at n who \<Longrightarrow> in_batch w \<Longrightarrow> draining w = 0 \<Longrightarrow>
    e = NetworkRead i \<or> e = NetworkWrite i \<Longrightarrow>
    process_poll_event env (\<lambda>_. False) (\<lambda>_. io) (rgen n) (procs w) (commands w) e = Some (Done (g, ps, q, effs)) \<Longrightarrow>
    deliver (set_worker (n\<lparr>rgen := g\<rparr>) who (w\<lparr>procs := ps\<rparr>)) effs = Done n' \<Longrightarrow>
    node_step env n (Event who e effs) n'"

inductive node_run :: "env \<Rightarrow> node \<Rightarrow> label list \<Rightarrow> node \<Rightarrow> bool" for env :: env and n0 :: node where
  Start: "node_run env n0 [] n0"
| Step: "node_run env n0 tr n \<Longrightarrow> node_step env n l n' \<Longrightarrow> node_run env n0 (tr @ [l]) n'"

end
