(* ===== verification/Node_Invariant.thy ===== *)
theory Node_Invariant
  imports Node
begin

text \<open>
  The invariant of a node. Every thread is a TCP and a TLS event processor that run as in
  \<open>Lifecycle\<close>; what the threads share is the generator of remote ids and the queues. The invariant
  accounts for the ids in flight: an id is drawn once, sits in at most one command of the queues or
  in the history of one driver, and a registration is queued at the worker its id selects. Ids are
  drawn as in a debug build, where the constructor of ids checks their range.
\<close>

section \<open>Ids drawn in a debug build\<close>

lemma generate_debug:
  assumes "generate True g a = Done (r, g')"
  shows "adapter_id r = a" "resource_type r = gen_type g" "unat (base_value r) = unat (last_id g)"
    "unat (last_id g') = Suc (unat (last_id g))" "gen_type g' = gen_type g" "unat (last_id g) < 2 ^ 48"
proof -
  from assms have ok: "a \<le> MAX_ADAPTER_ID" "last_id g \<le> MAX_BASE_VALUE"
    and r: "r = pack a (gen_type g) (last_id g)" and g': "g' = g\<lparr>last_id := last_id g + 1\<rparr>"
    by (auto simp: generate_def ResourceId_new_def assert_that_def result_simps split: if_splits)
  from ok(2) show lt: "unat (last_id g) < 2 ^ 48" by (simp add: unat_le_MAX_BASE)
  then show "unat (last_id g') = Suc (unat (last_id g))" by (simp add: g' unat_word_ariths)
  show "adapter_id r = a" "resource_type r = gen_type g" "unat (base_value r) = unat (last_id g)"
    "gen_type g' = gen_type g" by (simp_all add: r pack_fields [OF ok] g')
qed

lemma generate_all_debug:
  "generate_all True g as = Done (rs, g') \<Longrightarrow>
   map (\<lambda>r. unat (base_value r)) rs = [unat (last_id g) ..< unat (last_id g')] \<and>
   unat (last_id g) \<le> unat (last_id g') \<and> (\<forall>r \<in> set rs. resource_type r = gen_type g) \<and> gen_type g' = gen_type g"
proof (induction as arbitrary: g rs)
  case (Cons a as)
  then obtain r g1 rs1 where gen: "generate True g a = Done (r, g1)" and rs: "rs = r # rs1"
    and rest: "generate_all True g1 as = Done (rs1, g')" by (auto simp: result_simps)
  note d = generate_debug [OF gen]
  from Cons.IH [OF rest] d show ?case by (auto simp: rs upt_conv_Cons)
qed auto

section \<open>Queues\<close>

lemma nth_update: "j < length xs \<Longrightarrow> xs[i := y] ! j = (if i = j then y else xs ! j)"
  by (cases "i = j") simp_all

definition worker_claims :: "worker \<Rightarrow> ResourceId multiset" where
  "worker_claims w = mset (concat (map claims (commands w)))"

definition node_claims :: "node \<Rightarrow> ResourceId multiset" where
  "node_claims n = worker_claims (master n) + (\<Sum>w\<leftarrow>workers n. worker_claims w)"

lemma worker_claims_post [simp]: "worker_claims (do_post w c) = worker_claims w + mset (claims c)"
  by (simp add: worker_claims_def do_post_def queue_post_def)

lemma sum_list_map_update:
  fixes f :: "'a \<Rightarrow> 'b :: comm_monoid_add"
  shows "k < length xs \<Longrightarrow> (\<Sum>x\<leftarrow>xs[k := y]. f x) + f (xs ! k) = (\<Sum>x\<leftarrow>xs. f x) + f y"
proof (induction xs arbitrary: k)
  case (Cons x xs)
  show ?case
  proof (cases k)
    case (Suc j)
    with Cons.IH [of j] Cons.prems show ?thesis by (simp add: add_ac)
  qed (simp add: add_ac)
qed simp

lemma node_claims_set_worker:
  "on_duty n who \<Longrightarrow> node_claims (set_worker n who w) + worker_claims (worker_at n who) = node_claims n + worker_claims w"
  using sum_list_map_update [where xs = "workers n" and y = w and f = worker_claims]
  by (cases who) (auto simp: node_claims_def add_ac)

lemma node_claims_post: "post n r c = Done n' \<Longrightarrow> node_claims n' = node_claims n + mset (claims c)"
  using sum_list_map_update [where k = "unat (raw r) mod length (workers n)" and xs = "workers n" and f = worker_claims
      and y = "do_post (workers n ! (unat (raw r) mod length (workers n))) c"]
  by (auto simp: post_def to_worker_index_def node_claims_def split: if_splits)

lemma node_claims_post_to_master: "node_claims (post_to_master n c) = node_claims n + mset (claims c)"
  by (simp add: post_to_master_def node_claims_def)

lemma node_claims_update [simp]:
  "node_claims (n\<lparr>rgen := g\<rparr>) = node_claims n" "node_claims (n\<lparr>lgen := g\<rparr>) = node_claims n"
  "node_claims (n\<lparr>running := b\<rparr>) = node_claims n"
  by (simp_all add: node_claims_def)

text \<open>What posting keeps: everything but the queues and the wake-ups.\<close>

definition same_but_queues :: "node \<Rightarrow> node \<Rightarrow> bool" where
  "same_but_queues n n' \<longleftrightarrow> rgen n' = rgen n \<and> lgen n' = lgen n \<and> running n' = running n \<and>
     length (workers n') = length (workers n) \<and>
     (\<forall>who. on_duty n who \<longrightarrow> procs (worker_at n' who) = procs (worker_at n who) \<and>
        draining (worker_at n' who) = draining (worker_at n who))"

lemma same_but_queues_refl [simp]: "same_but_queues n n"
  by (simp add: same_but_queues_def)

lemma on_duty_cong: "length (workers n') = length (workers n) \<Longrightarrow> on_duty n' who = on_duty n who"
  by (cases who) simp_all

lemma same_but_queues_trans: "same_but_queues n n' \<Longrightarrow> same_but_queues n' n'' \<Longrightarrow> same_but_queues n n''"
  by (auto simp: same_but_queues_def on_duty_cong [of n' n])

lemma same_but_queues_post: "post n r c = Done n' \<Longrightarrow> same_but_queues n n'"
proof -
  assume "post n r c = Done n'"
  then have n': "n' = n\<lparr>workers := (workers n)[unat (raw r) mod length (workers n) :=
      do_post (workers n ! (unat (raw r) mod length (workers n))) c]\<rparr>"
    by (auto simp: post_def to_worker_index_def split: if_splits)
  have "procs (worker_at n' who) = procs (worker_at n who) \<and> draining (worker_at n' who) = draining (worker_at n who)"
    if "on_duty n who" for who
    using that by (cases who) (auto simp: n' nth_update do_post_def)
  then show ?thesis by (simp add: same_but_queues_def n')
qed

lemma same_but_queues_master: "same_but_queues n (post_to_master n c)"
proof -
  have "procs (worker_at (post_to_master n c) who) = procs (worker_at n who) \<and>
      draining (worker_at (post_to_master n c) who) = draining (worker_at n who)" for who
    by (cases who) (auto simp: post_to_master_def do_post_def)
  then show ?thesis by (simp add: same_but_queues_def post_to_master_def)
qed

lemma deliver_keeps:
  "deliver n effs = Done n' \<Longrightarrow>
   same_but_queues n n' \<and> node_claims n' = node_claims n + mset (posted (driver_effs effs))"
proof (induction n effs rule: deliver.induct)
  case (2 n r c es)
  then obtain n1 where "post n r c = Done n1" "deliver n1 es = Done n'" by (auto simp: result_simps)
  with 2 show ?case
    using same_but_queues_post [of n r c n1] same_but_queues_trans [of n n1 n'] node_claims_post [of n r c n1]
    by (simp add: add_ac)
qed (simp_all add: posted_def)

section \<open>Routing\<close>

text \<open>The queue a command belongs to, in a node of \<open>N\<close> workers.\<close>

fun route_ok :: "nat \<Rightarrow> who \<Rightarrow> WakerCommand \<Rightarrow> bool" where
  "route_ok N who (Listen _ l _ _) = (who = Master \<and> resource_type l = Local)"
| "route_ok N who (Connect _ _ _ _) = (who = Master)"
| "route_ok N who c = (\<forall>i \<in> set (registers c). who = Worker (unat (raw i) mod N))"

definition routed :: "node \<Rightarrow> bool" where
  "routed n \<longleftrightarrow> (\<forall>who. on_duty n who \<longrightarrow>
     (\<forall>c \<in> set (commands (worker_at n who)). route_ok (length (workers n)) who c))"

lemma routed_post:
  assumes "routed n" and "post n r c = Done n'" and "route_ok (length (workers n)) (Worker (unat (raw r) mod length (workers n))) c"
  shows "routed n'"
proof -
  let ?N = "length (workers n)" and ?k = "unat (raw r) mod length (workers n)"
  from assms(2) have n': "n' = n\<lparr>workers := (workers n)[?k := do_post (workers n ! ?k) c]\<rparr>"
    by (auto simp: post_def to_worker_index_def split: if_splits)
  have "route_ok ?N who c'" if "on_duty n who" "c' \<in> set (commands (worker_at n' who))" for who c'
    using that assms(1,3) by (cases who) (force simp: routed_def n' nth_update do_post_def queue_post_def split: if_splits)+
  then show ?thesis by (auto simp: routed_def n' on_duty_cong [of "n\<lparr>workers := _\<rparr>" n])
qed

lemma routed_master:
  assumes "routed n" and "route_ok (length (workers n)) Master c"
  shows "routed (post_to_master n c)"
proof -
  have "route_ok (length (workers n)) who c'"
    if "on_duty n who" "c' \<in> set (commands (worker_at (post_to_master n c) who))" for who c'
    using that assms by (cases who) (force simp: routed_def post_to_master_def do_post_def queue_post_def)+
  then show ?thesis by (auto simp: routed_def post_to_master_def on_duty_cong [of "n\<lparr>master := _\<rparr>" n])
qed

lemma routed_set_worker:
  assumes "routed n" and "on_duty n who" and "set (commands w) \<subseteq> set (commands (worker_at n who))"
  shows "routed (set_worker n who w)"
proof -
  have "route_ok (length (workers n)) who' c" if "on_duty n who'" "c \<in> set (commands (worker_at (set_worker n who w) who'))"
    for who' c
    using that assms
    by (cases who; cases who') (fastforce simp: routed_def nth_update split: if_splits)+
  moreover have "length (workers (set_worker n who w)) = length (workers n)" by (cases who) auto
  ultimately show ?thesis by (simp add: routed_def on_duty_cong [of "set_worker n who w" n])
qed

lemma routed_deliver:
  "deliver n effs = Done n' \<Longrightarrow> routed n \<Longrightarrow> own_registrations (driver_effs effs) \<Longrightarrow> routed n'"
proof (induction n effs rule: deliver.induct)
  case (2 n r c es)
  then obtain n1 where p: "post n r c = Done n1" "deliver n1 es = Done n'" by (auto simp: result_simps)
  from 2(4) have "registers c = [r]" by (simp add: own_registrations_def)
  then have "route_ok (length (workers n)) (Worker (unat (raw r) mod length (workers n))) c" by (cases c) auto
  with 2 p show ?case by (auto simp: own_registrations_def intro: routed_post)
qed (simp_all add: own_registrations_def)

section \<open>Histories\<close>

text \<open>Where a step of a thread takes place: the thread and the adapter id of the driver.\<close>

fun label_at :: "label \<Rightarrow> (who \<times> u8) option" where
  "label_at (Cmd who c _) = map_option (\<lambda>i. (who, adapter_id i)) (cmd_id c)"
| "label_at (Event who (NetworkRead i) _) = Some (who, adapter_id i)"
| "label_at (Event who (NetworkWrite i) _) = Some (who, adapter_id i)"
| "label_at _ = None"

fun label_effs :: "label \<Rightarrow> effect list" where
  "label_effs (Cmd _ _ effs) = driver_effs effs"
| "label_effs (Event _ _ effs) = driver_effs effs"
| "label_effs _ = []"

fun label_regs :: "label \<Rightarrow> ResourceId list" where
  "label_regs (Cmd _ c _) = registers c"
| "label_regs _ = []"

definition effs_at :: "label list \<Rightarrow> who \<Rightarrow> u8 \<Rightarrow> effect list" where
  "effs_at tr who a = concat (map label_effs (filter (\<lambda>l. label_at l = Some (who, a)) tr))"

definition used_at :: "label list \<Rightarrow> who \<Rightarrow> u8 \<Rightarrow> ResourceId set" where
  "used_at tr who a = set (concat (map label_regs (filter (\<lambda>l. label_at l = Some (who, a)) tr)))"

definition used_ids :: "label list \<Rightarrow> ResourceId multiset" where
  "used_ids tr = mset (concat (map label_regs tr))"

lemma history_snoc [simp]:
  "effs_at (tr @ [l]) who a = effs_at tr who a @ (if label_at l = Some (who, a) then label_effs l else [])"
  "used_at (tr @ [l]) who a = used_at tr who a \<union> (if label_at l = Some (who, a) then set (label_regs l) else {})"
  "used_ids (tr @ [l]) = used_ids tr + mset (label_regs l)"
  by (simp_all add: effs_at_def used_at_def used_ids_def)

lemma used_at_ids: "i \<in> used_at tr who a \<Longrightarrow> i \<in># used_ids tr"
  by (auto simp: used_at_def used_ids_def)

section \<open>The invariant of a node\<close>

text \<open>Every id in \<open>M\<close> is there once, is a remote id and was drawn from the generator \<open>g\<close>.\<close>

definition drawn :: "ResourceIdGenerator \<Rightarrow> ResourceId multiset \<Rightarrow> bool" where
  "drawn g M \<longleftrightarrow> gen_type g = Remote \<and> (\<forall>i. count M i \<le> 1) \<and>
     (\<forall>i \<in># M. resource_type i = Remote \<and> unat (base_value i) < unat (last_id g))"

lemma drawn_more:
  assumes "drawn g M" and gen: "generate_all True g as = Done (rs, g')" and sub: "M' \<subseteq># M + mset rs"
  shows "drawn g' M'"
proof -
  note new = generate_all_debug [OF gen]
  have "distinct rs" by (metis distinct_map distinct_upt new)
  have fresh: "unat (last_id g) \<le> unat (base_value i) \<and> unat (base_value i) < unat (last_id g')" if "i \<in> set rs" for i
  proof -
    have "unat (base_value i) \<in> set (map (\<lambda>r. unat (base_value r)) rs)" using that by simp
    then show ?thesis unfolding new [THEN conjunct1] by simp
  qed
  have "count (M + mset rs) i \<le> 1" for i
  proof (cases "i \<in> set rs")
    case True
    with fresh assms(1) have "i \<notin># M" by (fastforce simp: drawn_def)
    with \<open>distinct rs\<close> show ?thesis by (simp add: not_in_iff distinct_count_atmost_1)
  next
    case False
    then have eq: "count (M + mset rs) i = count M i" by simp
    show ?thesis unfolding eq using assms(1) by (simp add: drawn_def)
  qed
  with sub have "count M' i \<le> 1" for i by (meson le_trans mset_subset_eq_count)
  moreover have "resource_type i = Remote \<and> unat (base_value i) < unat (last_id g')" if "i \<in># M'" for i
  proof -
    from that sub have "i \<in># M + mset rs" by (rule mset_subset_eqD [rotated])
    then show ?thesis using assms(1) new fresh by (fastforce simp: drawn_def)
  qed
  ultimately show ?thesis using assms(1) new by (simp add: drawn_def)
qed

definition worker_runs :: "env \<Rightarrow> label list \<Rightarrow> who \<Rightarrow> processors \<Rightarrow> bool" where
  "worker_runs env tr who ps \<longleftrightarrow> (\<exists>dt ds. table ps dt ds \<and>
     driver_run TcpAdapter (env_mio env) (driver_new (ResourceIdGenerator_new Remote))
       (effs_at tr who (Transport_id Tcp)) (used_at tr who (Transport_id Tcp), dt) \<and>
     driver_run SslAdapter (env_mio env) (driver_new (ResourceIdGenerator_new Remote))
       (effs_at tr who (Transport_id Ssl)) (used_at tr who (Transport_id Ssl), ds) \<and>
     (who \<noteq> Master \<longrightarrow> local_registry dt = Map.empty \<and> local_registry ds = Map.empty))"

lemma worker_runs_elsewhere:
  "worker_runs env tr who ps \<Longrightarrow> (\<And>a. label_at l \<noteq> Some (who, a)) \<Longrightarrow> worker_runs env (tr @ [l]) who ps"
  by (simp add: worker_runs_def)

definition node_inv :: "env \<Rightarrow> label list \<Rightarrow> node \<Rightarrow> bool" where
  "node_inv env tr n \<longleftrightarrow> routed n \<and> gen_type (lgen n) = Local \<and>
     drawn (rgen n) (node_claims n + used_ids tr) \<and>
     (\<forall>who a. \<forall>i \<in> used_at tr who a. who = Worker (unat (raw i) mod length (workers n)) \<and> adapter_id i = a) \<and>
     (\<forall>who. on_duty n who \<longrightarrow> worker_runs env tr who (procs (worker_at n who)))"

lemma node_inv_start: "node_inv env [] (create_node_handler N)"
proof -
  let ?n = "create_node_handler N" and ?g = "ResourceIdGenerator_new Remote"
  have at: "\<exists>k. worker_at ?n who = worker_new ?g k" if "on_duty ?n who" for who
    using that by (cases who) (auto simp: create_node_handler_def split_id_generator_def simp del: upt_Suc)
  have runs: "worker_runs env [] who (procs (worker_at ?n who))" if "on_duty ?n who" for who
    using at [OF that]
    by (auto simp: worker_runs_def worker_new_def effs_at_def used_at_def
        intro!: exI [of _ "driver_new ?g"] table_new driver_run.Start)
      (simp_all add: driver_new_def registry_new_def)
  have empty: "commands (worker_at ?n who) = []" if "on_duty ?n who" for who
    using at [OF that] by (auto simp: worker_new_def)
  then have "routed ?n" by (simp add: routed_def)
  moreover have "node_claims ?n = {#}"
  proof -
    have "worker_claims (worker_new g k) = {#}" for g k by (simp add: worker_claims_def worker_new_def)
    then show ?thesis
      by (simp add: node_claims_def create_node_handler_def split_id_generator_def comp_def del: upt_Suc)
  qed
  ultimately show ?thesis
    using runs
    by (simp add: node_inv_def drawn_def used_ids_def used_at_def create_node_handler_def split_id_generator_def
        ResourceIdGenerator_new_def)
qed

section \<open>The invariant is kept\<close>

definition same_procs :: "node \<Rightarrow> node \<Rightarrow> bool" where
  "same_procs n n' \<longleftrightarrow> length (workers n') = length (workers n) \<and>
     (\<forall>who. on_duty n who \<longrightarrow> procs (worker_at n' who) = procs (worker_at n who))"

lemma same_procs_queues: "same_but_queues n n' \<Longrightarrow> same_procs n n'"
  by (simp add: same_but_queues_def same_procs_def)

lemma worker_at_update [simp]:
  "worker_at (n\<lparr>rgen := g\<rparr>) who = worker_at n who" "worker_at (n\<lparr>lgen := g\<rparr>) who = worker_at n who"
  "worker_at (n\<lparr>running := b\<rparr>) who = worker_at n who"
  "on_duty (n\<lparr>rgen := g\<rparr>) who = on_duty n who" "on_duty (n\<lparr>lgen := g\<rparr>) who = on_duty n who"
  "on_duty (n\<lparr>running := b\<rparr>) who = on_duty n who"
  by (cases who; simp)+

lemma routed_update [simp]:
  "routed (n\<lparr>rgen := g\<rparr>) = routed n" "routed (n\<lparr>lgen := g\<rparr>) = routed n" "routed (n\<lparr>running := b\<rparr>) = routed n"
  by (simp_all add: routed_def)

lemma worker_at_set: "on_duty n who \<Longrightarrow> on_duty n who' \<Longrightarrow>
    worker_at (set_worker n who w) who' = (if who' = who then w else worker_at n who')"
  by (cases who; cases who') auto

lemma set_worker_sel [simp]:
  "rgen (set_worker n who w) = rgen n" "lgen (set_worker n who w) = lgen n"
  "length (workers (set_worker n who w)) = length (workers n)" "running (set_worker n who w) = running n"
  by (cases who; simp)+

lemma on_duty_set [simp]: "on_duty (set_worker n who w) who' = on_duty n who'"
  by (rule on_duty_cong) simp

text \<open>A call of the handler draws at most one remote id and claims it.\<close>

definition handler_ok :: "node \<Rightarrow> node \<Rightarrow> bool" where
  "handler_ok n n' \<longleftrightarrow> same_procs n n' \<and> (routed n \<longrightarrow> routed n') \<and> gen_type (lgen n') = gen_type (lgen n) \<and>
     (\<exists>as fresh. generate_all True (rgen n) as = Done (fresh, rgen n') \<and> node_claims n' = node_claims n + mset fresh)"

lemma handler_okI:
  "generate_all True (rgen n) as = Done (fresh, rgen n') \<Longrightarrow> same_procs n n' \<Longrightarrow>
   node_claims n' = node_claims n + mset fresh \<Longrightarrow> (routed n \<Longrightarrow> routed n') \<Longrightarrow>
   gen_type (lgen n') = gen_type (lgen n) \<Longrightarrow> handler_ok n n'"
  unfolding handler_ok_def by blast

lemma handler_ok_post:
  assumes "post n r c = Done n'" and "claims c = []" and "\<And>cf l a cb. c \<noteq> Listen cf l a cb"
  shows "handler_ok n n'"
proof -
  have "route_ok (length (workers n)) (Worker (unat (raw r) mod length (workers n))) c"
    using assms(2,3) by (cases c) auto
  moreover have "generate_all True (rgen n) [] = Done ([], rgen n')"
    using same_but_queues_post [OF assms(1)] by (simp add: same_but_queues_def)
  ultimately show ?thesis
    using same_but_queues_post [OF assms(1)] node_claims_post [OF assms(1)] routed_post [OF _ assms(1)] assms(2)
    unfolding handler_ok_def by (intro conjI exI [of _ "[]"]) (auto simp: same_procs_queues same_but_queues_def)
qed

lemma handler_ok_connect:
  assumes "handler_connect_with True n config t ra cb = Done n'"
  shows "handler_ok n n'"
proof -
  from assms obtain i g a where gen: "generate True (rgen n) (Transport_id t) = Done (i, g)"
    and n': "n' = post_to_master (n\<lparr>rgen := g\<rparr>) (Connect config i a cb)"
    by (auto simp: handler_connect_with_def handler_next_remote_id_def result_simps)
  have "generate_all True (rgen n) [Transport_id t] = Done ([i], rgen n')"
    by (simp add: gen n' post_to_master_def)
  moreover have "same_procs n n'"
    using same_but_queues_master [of "n\<lparr>rgen := g\<rparr>" "Connect config i a cb"]
    by (auto simp: n' same_procs_def same_but_queues_def)
  moreover have "node_claims n' = node_claims n + mset [i]" by (simp add: n' node_claims_post_to_master)
  moreover have "routed n \<Longrightarrow> routed n'" by (auto simp: n' intro: routed_master)
  ultimately show ?thesis by (rule handler_okI) (simp_all add: n' post_to_master_def)
qed

lemma handler_listen_with_Done:
  assumes "handler_listen_with dbg n config t as cb = Done n'"
  obtains i g a where "generate dbg (lgen n) (Transport_id t) = Done (i, g)"
    "n' = post_to_master (n\<lparr>lgen := g\<rparr>) (Listen config i a cb)"
proof -
  from assms obtain i g as' where gen: "generate dbg (lgen n) (Transport_id t) = Done (i, g)"
    and "as = Ok as'" and rest: "(case as' of [] \<Rightarrow> Panic
      | a # _ \<Rightarrow> Done (post_to_master (n\<lparr>lgen := g\<rparr>) (Listen config i a cb))) = Done n'"
    by (auto simp: handler_listen_with_def handler_next_local_id_def result_simps)
  then obtain a where "n' = post_to_master (n\<lparr>lgen := g\<rparr>) (Listen config i a cb)"
    by (auto split: list.splits)
  with gen show thesis by (rule that)
qed

lemma handler_ok_listen:
  assumes "handler_listen_with True n config t as cb = Done n'" and "gen_type (lgen n) = Local"
  shows "handler_ok n n'"
proof -
  from assms(1) obtain i g a where gen: "generate True (lgen n) (Transport_id t) = Done (i, g)"
    and n': "n' = post_to_master (n\<lparr>lgen := g\<rparr>) (Listen config i a cb)" by (rule handler_listen_with_Done)
  note d = generate_debug [OF gen]
  have "generate_all True (rgen n) [] = Done ([], rgen n')" by (simp add: n' post_to_master_def)
  moreover have "same_procs n n'"
    using same_but_queues_master [of "n\<lparr>lgen := g\<rparr>" "Listen config i a cb"]
    by (auto simp: n' same_procs_def same_but_queues_def)
  moreover have "node_claims n' = node_claims n + mset []" by (simp add: n' node_claims_post_to_master)
  moreover have "routed n \<Longrightarrow> routed n'" using d assms(2) by (auto simp: n' intro: routed_master)
  ultimately show ?thesis by (rule handler_okI) (simp_all add: n' post_to_master_def d)
qed

lemma handler_ok_master:
  assumes "claims c = []" and "route_ok (length (workers n)) Master c"
  shows "handler_ok n (post_to_master n c)"
proof -
  let ?n = "post_to_master n c"
  have "generate_all True (rgen n) [] = Done ([], rgen ?n)" by (simp add: post_to_master_def)
  moreover have "same_procs n ?n" by (rule same_procs_queues [OF same_but_queues_master])
  moreover have "node_claims ?n = node_claims n + mset []" by (simp add: node_claims_post_to_master assms(1))
  moreover have "routed n \<Longrightarrow> routed ?n" using assms(2) by (auto intro: routed_master)
  ultimately show ?thesis by (rule handler_okI) (simp_all add: post_to_master_def)
qed

lemma handler_ok_call:
  assumes "handler_call True n op = Done n'" and "gen_type (lgen n) = Local" and "plain_op op"
  shows "handler_ok n n'"
proof (cases op)
  case (Op_Close i)
  show ?thesis
  proof (cases "resource_type i")
    case Local
    with assms Op_Close show ?thesis
      by (auto simp: handler_call_def handler_close_def intro: handler_ok_master)
  next
    case Remote
    with assms Op_Close show ?thesis
      by (auto simp: handler_call_def handler_close_def intro: handler_ok_post)
  qed
next
  case (Op_Post i c)
  with assms show ?thesis by (cases c) (auto simp: handler_call_def intro: handler_ok_post)
next
  case (Op_Post_Master c)
  with assms show ?thesis by (cases c) (auto simp: handler_call_def intro: handler_ok_master)
next
  case (Op_Listen_Sync config t as cb)
  with assms obtain as' where "as = Ok as'" by (auto simp: handler_call_def listen_sync_post_def result_simps)
  with Op_Listen_Sync assms show ?thesis
    by (cases as') (auto simp: handler_call_def listen_sync_post_def intro: handler_ok_listen)
next
  case Op_Stop
  with assms have n': "n' = n\<lparr>running := False\<rparr>" by (simp add: handler_call_def handler_stop_def)
  show ?thesis by (rule handler_okI [of _ "[]" "[]"]) (simp_all add: n' same_procs_def)
qed (use assms in \<open>auto simp: handler_call_def handler_send_def handler_send_sync_def handler_is_ready_def
      connect_sync_post_def result_simps
      intro: handler_ok_post handler_ok_connect handler_ok_listen\<close>)

lemma run_extends:
  assumes "driver_run A mio d0 effs (used, d)" and "driver_step A mio (used, d\<lparr>remote_id_generator := g\<rparr>) effs' s'"
  shows "driver_run A mio d0 (effs @ effs') s'"
  using driver_run.Step [OF driver_run.Step [OF assms(1) driver_step.Shared] assms(2)] by simp

lemma new_source_registrable:
  assumes new: "new_source io ps c" and tab: "table ps dt ds" and route: "route_ok N who c"
  shows "registrable TcpAdapter (tcp_io io) (dt\<lparr>remote_id_generator := g\<rparr>) c"
    and "registrable SslAdapter (ssl_io io) (ds\<lparr>remote_id_generator := g\<rparr>) c"
proof -
  have w: "watched A (d\<lparr>remote_id_generator := g\<rparr>) = watched A d" for A :: "('r, 'l, 'io) adapter" and d
    by (simp add: watched_def)
  have sel: "listen_with TcpAdapter = tcp_listen_with" "local_source TcpAdapter = tcp_listener"
    "listen_with SslAdapter = ssl_listen_with" "local_source SslAdapter = ssl_listener"
    by (simp_all add: TcpAdapter_def SslAdapter_def)
  have t: "TcpDriver dt \<in> set ps" and s: "SslDriver ds \<in> set ps" using table_set [OF tab] by auto
  show "registrable TcpAdapter (tcp_io io) (dt\<lparr>remote_id_generator := g\<rparr>) c"
    using new route by (cases c) (auto simp: w sel dest!: bspec [OF _ t])
  show "registrable SslAdapter (ssl_io io) (ds\<lparr>remote_id_generator := g\<rparr>) c"
    using new route by (cases c) (auto simp: w sel dest!: bspec [OF _ s])
qed

lemma Transport_id_neq [simp]: "Transport_id Tcp \<noteq> Transport_id Ssl" "Transport_id Ssl \<noteq> Transport_id Tcp"
  by (simp_all add: Transport_id_def)

lemma worker_runs_tcp:
  assumes "label_at l = Some (who, Transport_id Tcp)" and "table ps dt ds"
    and "driver_run TcpAdapter (env_mio env) (driver_new (ResourceIdGenerator_new Remote))
       (effs_at tr who (Transport_id Tcp) @ label_effs l) (used_at tr who (Transport_id Tcp) \<union> set (label_regs l), dt)"
    and "driver_run SslAdapter (env_mio env) (driver_new (ResourceIdGenerator_new Remote))
       (effs_at tr who (Transport_id Ssl)) (used_at tr who (Transport_id Ssl), ds)"
    and "who \<noteq> Master \<Longrightarrow> local_registry dt = Map.empty \<and> local_registry ds = Map.empty"
  shows "worker_runs env (tr @ [l]) who ps"
  unfolding worker_runs_def using assms by (intro exI [of _ dt] exI [of _ ds]) simp

lemma worker_runs_ssl:
  assumes "label_at l = Some (who, Transport_id Ssl)" and "table ps dt ds"
    and "driver_run TcpAdapter (env_mio env) (driver_new (ResourceIdGenerator_new Remote))
       (effs_at tr who (Transport_id Tcp)) (used_at tr who (Transport_id Tcp), dt)"
    and "driver_run SslAdapter (env_mio env) (driver_new (ResourceIdGenerator_new Remote))
       (effs_at tr who (Transport_id Ssl) @ label_effs l) (used_at tr who (Transport_id Ssl) \<union> set (label_regs l), ds)"
    and "who \<noteq> Master \<Longrightarrow> local_registry dt = Map.empty \<and> local_registry ds = Map.empty"
  shows "worker_runs env (tr @ [l]) who ps"
  unfolding worker_runs_def using assms by (intro exI [of _ dt] exI [of _ ds]) simp

text \<open>
  What a thread did when it handled the step \<open>l\<close>: the drivers went one step on, new ids came from
  the generator, and every id in a posted or handled registration was claimed before or is new.
\<close>

definition thread_ok ::
  "env \<Rightarrow> label list \<Rightarrow> label \<Rightarrow> who \<Rightarrow> ResourceId list \<Rightarrow> ResourceIdGenerator \<Rightarrow> ResourceIdGenerator \<Rightarrow> processors \<Rightarrow> bool" where
  "thread_ok env tr l who cl g g' ps \<longleftrightarrow> worker_runs env (tr @ [l]) who ps \<and> own_registrations (label_effs l) \<and>
     (\<exists>as fresh. generate_all True g as = Done (fresh, g') \<and>
        mset (posted (label_effs l)) + mset (label_regs l) \<subseteq># mset cl + mset fresh)"

lemma thread_ok_command:
  assumes runs: "worker_runs env tr who ps" and c: "process_command env io g ps c = Some (Done (g', ps', effs))"
    and new: "new_source io ps c" and route: "route_ok N who c"
    and fresh: "\<forall>i \<in> set (registers c). resource_type i = Remote \<and> (\<forall>a. i \<notin> used_at tr who a)"
  shows "thread_ok env tr (Cmd who c effs) who (claims c) g g' ps'"
proof (cases "cmd_id c")
  case None
  with c have "ps' = ps" "g' = g" "driver_effs effs = []" "registers c = []" by (cases c; auto simp: process_command_eq)+
  moreover have "generate_all True g [] = Done ([], g)" by simp
  ultimately show ?thesis
    using worker_runs_elsewhere [OF runs, of "Cmd who c effs"] None
    unfolding thread_ok_def by (intro conjI exI [of _ "[]"]) (auto simp: own_registrations_def posted_def)
next
  case (Some i)
  from runs obtain dt ds where tab: "table ps dt ds"
    and tr: "driver_run TcpAdapter (env_mio env) (driver_new (ResourceIdGenerator_new Remote))
       (effs_at tr who (Transport_id Tcp)) (used_at tr who (Transport_id Tcp), dt)"
      "driver_run SslAdapter (env_mio env) (driver_new (ResourceIdGenerator_new Remote))
       (effs_at tr who (Transport_id Ssl)) (used_at tr who (Transport_id Ssl), ds)"
    and loc: "who \<noteq> Master \<longrightarrow> local_registry dt = Map.empty \<and> local_registry ds = Map.empty"
    unfolding worker_runs_def by blast
  from c Some obtain es where effs: "effs = map Driver_Effect es"
    and on: "on_processor (\<lambda>d. driver_command TcpAdapter (env_mio env) (tcp_io io) d c)
              (\<lambda>d. driver_command SslAdapter (env_mio env) (ssl_io io) d c) g ps (adapter_id i) = Some (Done (g', ps', es))"
    by (auto simp: process_command_eq result_simps)
  have at: "label_at (Cmd who c effs) = Some (who, adapter_id i)" by (simp add: Some)
  have gen: "\<exists>as. generate_all True g as = Done ([], g)" by (rule exI [of _ "[]"]) simp
  have notlisten: "who \<noteq> Master \<Longrightarrow> c \<noteq> Listen cf l a cb" for cf l a cb using route by auto
  from on tab show ?thesis
  proof (cases rule: on_processor_on_table)
    case (tcp dt')
    note p = driver_command_posts [OF tcp(2)]
    have "driver_step TcpAdapter (env_mio env) (used_at tr who (Transport_id Tcp), dt\<lparr>remote_id_generator := g\<rparr>) es
        (used_at tr who (Transport_id Tcp) \<union> set (registers c), dt')"
      using fresh Some by (intro driver_command_step [OF tcp(2)] new_source_registrable(1) [OF new tab route]) auto
    from run_extends [OF tr(1) this] have "worker_runs env (tr @ [Cmd who c effs]) who ps'"
      using tcp(1) at loc p(4) notlisten by (intro worker_runs_tcp [OF _ tcp(3) _ tr(2)]) (auto simp: effs)
    with p gen show ?thesis unfolding thread_ok_def by (auto simp: effs tcp(4) intro!: exI [of _ "[]"])
  next
    case (ssl ds')
    note p = driver_command_posts [OF ssl(2)]
    have "driver_step SslAdapter (env_mio env) (used_at tr who (Transport_id Ssl), ds\<lparr>remote_id_generator := g\<rparr>) es
        (used_at tr who (Transport_id Ssl) \<union> set (registers c), ds')"
      using fresh Some by (intro driver_command_step [OF ssl(2)] new_source_registrable(2) [OF new tab route]) auto
    from run_extends [OF tr(2) this] have "worker_runs env (tr @ [Cmd who c effs]) who ps'"
      using ssl(1) at loc p(4) notlisten by (intro worker_runs_ssl [OF _ ssl(3) tr(1)]) (auto simp: effs)
    with p gen show ?thesis unfolding thread_ok_def by (auto simp: effs ssl(4) intro!: exI [of _ "[]"])
  qed
qed

lemma thread_okI:
  "worker_runs env (tr @ [l]) who ps \<Longrightarrow> own_registrations (label_effs l) \<Longrightarrow> generate_all True g as = Done (fresh, g') \<Longrightarrow>
   mset (posted (label_effs l)) + mset (label_regs l) \<subseteq># mset cl + mset fresh \<Longrightarrow> thread_ok env tr l who cl g g' ps"
  unfolding thread_ok_def by blast

lemma thread_ok_event:
  assumes runs: "worker_runs env tr who ps" and dbg: "debug env" and e: "e = NetworkRead i \<or> e = NetworkWrite i"
    and p: "process_poll_event env (\<lambda>_. False) (\<lambda>_. io) g ps q e = Some (Done (g', ps', q', effs))"
  shows "thread_ok env tr (Event who e effs) who [] g g' ps'"
proof -
  let ?tc = "\<lambda>d. if e = NetworkRead i then process_read TcpAdapter (env_mio env) True (tcp_io io) d i
     else process_write TcpAdapter (env_mio env) (tcp_io io) d i"
  let ?sc = "\<lambda>d. if e = NetworkRead i then process_read SslAdapter (env_mio env) True (ssl_io io) d i
     else process_write SslAdapter (env_mio env) (ssl_io io) d i"
  from runs obtain dt ds where tab: "table ps dt ds"
    and tr: "driver_run TcpAdapter (env_mio env) (driver_new (ResourceIdGenerator_new Remote))
       (effs_at tr who (Transport_id Tcp)) (used_at tr who (Transport_id Tcp), dt)"
      "driver_run SslAdapter (env_mio env) (driver_new (ResourceIdGenerator_new Remote))
       (effs_at tr who (Transport_id Ssl)) (used_at tr who (Transport_id Ssl), ds)"
    and loc: "who \<noteq> Master \<longrightarrow> local_registry dt = Map.empty \<and> local_registry ds = Map.empty"
    unfolding worker_runs_def by blast
  from p e dbg obtain es where effs: "effs = map Driver_Effect es"
    and on: "on_processor ?tc ?sc g ps (adapter_id i) = Some (Done (g', ps', es))"
    by (auto simp: process_poll_event_def ssl_driver_defs result_simps)
  have at: "label_at (Event who e effs) = Some (who, adapter_id i)" using e by auto
  have step: "driver_step A mio (used, d) es (used, d') \<and> own_registrations es \<and> local_registry d' = local_registry d \<and>
      (\<exists>as. generate_all True (remote_id_generator d) as = Done (posted es, remote_id_generator d'))"
    if "(if e = NetworkRead i then process_read A mio True aio d i else process_write A mio aio d i) = Some (Done (d', es))"
    for A :: "('r, 'l, 'io) adapter" and mio aio d d' used
  proof (cases "e = NetworkRead i")
    case True
    with that have r: "process_read A mio True aio d i = Some (Done (d', es))" by simp
    show ?thesis using process_read_posts [OF r] driver_step.Read [OF r] by blast
  next
    case False
    with that have w: "process_write A mio aio d i = Some (Done (d', es))" by simp
    have "generate_all True (remote_id_generator d) [] = Done (posted es, remote_id_generator d')"
      using process_write_posts [OF w] by (simp add: posted_def)
    moreover have "own_registrations es" using process_write_posts [OF w] by (simp add: own_registrations_def)
    ultimately show ?thesis using process_write_posts [OF w] driver_step.Write [OF w] by blast
  qed
  from on tab show ?thesis
  proof (cases rule: on_processor_on_table)
    case (tcp dt')
    note st = step [OF tcp(2)]
    have "worker_runs env (tr @ [Event who e effs]) who ps'"
      using run_extends [OF tr(1) st [THEN conjunct1]] st tcp(1) at loc
      by (intro worker_runs_tcp [OF _ tcp(3) _ tr(2)]) (auto simp: effs)
    moreover obtain as where "generate_all True g as = Done (posted es, g')" using st tcp(4) by auto
    ultimately show ?thesis using st by (auto simp: effs intro!: thread_okI)
  next
    case (ssl ds')
    note st = step [OF ssl(2)]
    have "worker_runs env (tr @ [Event who e effs]) who ps'"
      using run_extends [OF tr(2) st [THEN conjunct1]] st ssl(1) at loc
      by (intro worker_runs_ssl [OF _ ssl(3) tr(1)]) (auto simp: effs)
    moreover obtain as where "generate_all True g as = Done (posted es, g')" using st ssl(4) by auto
    ultimately show ?thesis using st by (auto simp: effs intro!: thread_okI)
  qed
qed

lemma node_inv_thread:
  assumes inv: "node_inv env tr n" and duty: "on_duty n who"
    and ok: "thread_ok env tr l who cl (rgen n) g ps"
    and l: "\<And>who' a. label_at l = Some (who', a) \<Longrightarrow> who' = who"
    and q: "set q \<subseteq> set (commands (worker_at n who))"
      "worker_claims (worker_at n who) = mset cl + mset (concat (map claims q))"
    and w: "commands w = q" "procs w = ps"
    and del: "deliver (set_worker (n\<lparr>rgen := g\<rparr>) who w) effs = Done n'" and effs: "driver_effs effs = label_effs l"
    and used: "\<And>a i. label_at l = Some (who, a) \<Longrightarrow> i \<in> set (label_regs l) \<Longrightarrow>
      who = Worker (unat (raw i) mod length (workers n)) \<and> adapter_id i = a"
  shows "node_inv env (tr @ [l]) n'"
proof -
  let ?n = "set_worker (n\<lparr>rgen := g\<rparr>) who w"
  from ok obtain as fresh where runs: "worker_runs env (tr @ [l]) who ps" and own: "own_registrations (label_effs l)"
    and gen: "generate_all True (rgen n) as = Done (fresh, g)"
    and bal: "mset (posted (label_effs l)) + mset (label_regs l) \<subseteq># mset cl + mset fresh"
    unfolding thread_ok_def by blast
  note d = deliver_keeps [OF del]
  then have same: "rgen n' = g" "lgen n' = lgen n" "length (workers n') = length (workers n)"
    "\<And>who'. on_duty n who' \<Longrightarrow> procs (worker_at n' who') = procs (worker_at ?n who')"
    by (auto simp: same_but_queues_def on_duty_cong [of ?n n])
  have "routed ?n" using inv duty q(1) w(1) by (intro routed_set_worker) (auto simp: node_inv_def)
  then have "routed n'" using routed_deliver [OF del] own effs by simp
  moreover have "drawn (rgen n') (node_claims n' + used_ids (tr @ [l]))"
  proof -
    have "node_claims ?n + worker_claims (worker_at n who) = node_claims n + worker_claims w"
      using node_claims_set_worker [of "n\<lparr>rgen := g\<rparr>" who w] duty by simp
    then have "node_claims ?n + mset cl = node_claims n" by (simp add: q(2) w(1) worker_claims_def [of w])
    then have "node_claims n' + mset cl = node_claims n + mset (posted (label_effs l))"
      using d effs by (metis add.assoc add.commute)
    then have "node_claims n' + used_ids (tr @ [l]) + mset cl =
        node_claims n + used_ids tr + (mset (posted (label_effs l)) + mset (label_regs l))"
      by (simp add: add_ac)
    also have "\<dots> \<subseteq># node_claims n + used_ids tr + (mset cl + mset fresh)" using bal by simp
    finally have "node_claims n' + used_ids (tr @ [l]) \<subseteq># node_claims n + used_ids tr + mset fresh"
      by (simp add: add.assoc [symmetric] add.commute [of _ "mset cl"])
    with inv show ?thesis unfolding same(1) by (intro drawn_more [OF _ gen]) (auto simp: node_inv_def)
  qed
  moreover have "worker_runs env (tr @ [l]) who' (procs (worker_at n' who'))" if "on_duty n who'" for who'
  proof (cases "who' = who")
    case True
    with that duty runs w(2) show ?thesis by (simp add: same(4) worker_at_set)
  next
    case False
    with that duty have "procs (worker_at n' who') = procs (worker_at n who')" by (simp add: same(4) worker_at_set)
    with inv that False l show ?thesis by (auto simp: node_inv_def intro!: worker_runs_elsewhere)
  qed
  moreover have "who' = Worker (unat (raw i) mod length (workers n)) \<and> adapter_id i = a" if "i \<in> used_at (tr @ [l]) who' a" for i who' a
  proof (cases "i \<in> used_at tr who' a")
    case True
    then show ?thesis using inv unfolding node_inv_def by blast
  next
    case False
    with that have "label_at l = Some (who', a)" "i \<in> set (label_regs l)" by (simp_all split: if_splits)
    then show ?thesis using used l by blast
  qed
  ultimately show ?thesis using inv by (simp add: node_inv_def same on_duty_cong [of n' n])
qed

lemma node_inv_silent:
  assumes "node_inv env tr n" and "on_duty n who" and "w' = worker_at n who\<lparr>woken := x, in_batch := y, draining := b\<rparr>"
  shows "node_inv env (tr @ [Silent]) (set_worker n who w')"
proof (rule node_inv_thread [where cl = "[]" and effs = "[]" and q = "commands w'" and w = w' and g = "rgen n"])
  show "thread_ok env tr Silent who [] (rgen n) (rgen n) (procs (worker_at n who))"
    using assms(1,2)
    by (intro thread_okI [where as = "[]" and fresh = "[]"] worker_runs_elsewhere)
      (auto simp: node_inv_def own_registrations_def)
qed (use assms in \<open>auto simp: worker_claims_def\<close>)

lemma sum_list_mset_in: "x \<in> set xs \<Longrightarrow> i \<in># f x \<Longrightarrow> i \<in># (\<Sum>x\<leftarrow>xs. f x)"
  by (induction xs) auto

lemma node_claims_in:
  "on_duty n who \<Longrightarrow> c \<in> set (commands (worker_at n who)) \<Longrightarrow> i \<in> set (claims c) \<Longrightarrow> i \<in># node_claims n"
  by (cases who) (auto simp: node_claims_def worker_claims_def intro!: sum_list_mset_in [OF nth_mem])

lemma drawn_once: "drawn g (M + N) \<Longrightarrow> i \<in># M \<Longrightarrow> i \<notin># N"
proof
  assume *: "drawn g (M + N)" "i \<in># M" "i \<in># N"
  then have "count M i > 0" "count N i > 0" by simp_all
  moreover have "count M i + count N i \<le> 1" using *(1) by (simp add: drawn_def)
  ultimately show False by linarith
qed

lemma registers_claims: "i \<in> set (registers c) \<Longrightarrow> i \<in> set (claims c) \<and> cmd_id c = Some i"
  by (cases c) auto

lemma label_at_event: "e = NetworkRead i \<or> e = NetworkWrite i \<Longrightarrow> label_at (Event who e effs) = Some (who, adapter_id i)"
  by auto

lemma node_inv_step:
  assumes inv: "node_inv env tr n" and step: "node_step env n l n'" and dbg: "debug env"
  shows "node_inv env (tr @ [l]) n'"
  using step
proof (cases rule: node_step.cases)
  case (User op)
  with dbg inv have ok: "handler_ok n n'" using User(3) by (auto simp: node_inv_def intro: handler_ok_call)
  then obtain as fresh where gen: "generate_all True (rgen n) as = Done (fresh, rgen n')"
    and cl: "node_claims n' = node_claims n + mset fresh" unfolding handler_ok_def by blast
  have "drawn (rgen n') (node_claims n' + used_ids tr)"
    using inv cl by (intro drawn_more [OF _ gen]) (auto simp: node_inv_def add_ac)
  moreover have "worker_runs env (tr @ [l]) who (procs (worker_at n' who))" if "on_duty n who" for who
    using ok that inv User(1)
    by (auto simp: handler_ok_def same_procs_def node_inv_def intro!: worker_runs_elsewhere)
  ultimately show ?thesis
    using ok inv User(1)
    by (simp add: node_inv_def handler_ok_def same_procs_def on_duty_cong [of n' n])
next
  case (Batch who w)
  with inv show ?thesis
    by (auto intro!: node_inv_silent [where x = "woken w" and y = True and b = "draining w"])
next
  case (Batch_End who w)
  with inv show ?thesis by (auto intro!: node_inv_silent [where x = "woken w" and y = False and b = 0])
next
  case (Wake who w)
  with inv show ?thesis by (auto intro!: node_inv_silent [where x = False and y = True and b = MAX_COMMANDS])
next
  case (Command who w b c q io g ps effs)
  have q: "commands (worker_at n who) = c # q" using Command(3,5) by (auto simp: try_receive_def split: list.splits)
  then have c: "c \<in> set (commands (worker_at n who))" by simp
  with inv Command(2) have route: "route_ok (length (workers n)) who c" by (simp add: node_inv_def routed_def)
  have fresh: "resource_type i = Remote \<and> (\<forall>a. i \<notin> used_at tr who a)" if i: "i \<in> set (registers c)" for i
  proof -
    have cl: "i \<in># node_claims n" using node_claims_in [OF Command(2) c] registers_claims [OF i] by blast
    have d: "drawn (rgen n) (node_claims n + used_ids tr)" using inv by (simp add: node_inv_def)
    have "i \<notin># used_ids tr" by (rule drawn_once [OF d cl])
    then show ?thesis using d cl used_at_ids by (auto simp: drawn_def)
  qed
  have runs: "worker_runs env tr who (procs w)" using inv Command(2,3) by (simp add: node_inv_def)
  show ?thesis
  proof (rule node_inv_thread [OF inv Command(2) _ _ _ _ _ _ Command(8)])
    show "thread_ok env tr l who (claims c) (rgen n) g ps"
      using thread_ok_command [OF runs Command(6,7) route] fresh Command(1) by blast
    show "who = Worker (unat (raw i) mod length (workers n)) \<and> adapter_id i = a"
      if "label_at l = Some (who, a)" "i \<in> set (label_regs l)" for a i
      using that route registers_claims [of i c] Command(1) by (cases c) auto
  qed (use q Command(1) in \<open>auto simp: worker_claims_def\<close>)
next
  case (Drained who w)
  with inv show ?thesis by (auto intro!: node_inv_silent [where x = "woken w" and y = "in_batch w" and b = 0])
next
  case (Poll who w e i io g ps q effs)
  have runs: "worker_runs env tr who (procs w)" using inv Poll(2,3) by (simp add: node_inv_def)
  show ?thesis
  proof (rule node_inv_thread [OF inv Poll(2) _ _ _ _ _ _ Poll(8)])
    show "thread_ok env tr l who [] (rgen n) g ps"
      using thread_ok_event [OF runs dbg Poll(6,7)] Poll(1) by simp
    show "commands (w\<lparr>procs := ps\<rparr>) = commands (worker_at n who)" using Poll(3) by simp
  qed (use Poll(1) label_at_event [OF Poll(6)] in \<open>auto simp: worker_claims_def\<close>)
qed

lemma node_inv_run:
  assumes "node_run env (create_node_handler N) tr n" and "debug env"
  shows "node_inv env tr n"
  using assms by (induction rule: node_run.induct) (auto intro: node_inv_start node_inv_step)

section \<open>Wake-ups\<close>

text \<open>A worker that would not look at its queue has nothing queued.\<close>

definition attentive :: "worker \<Rightarrow> bool" where
  "attentive w \<longleftrightarrow> commands w = [] \<or> woken w \<or> draining w > 0"

definition all_attentive :: "node \<Rightarrow> bool" where
  "all_attentive n \<longleftrightarrow> (\<forall>who. on_duty n who \<longrightarrow> attentive (worker_at n who))"

lemma attentive_do_post [simp]: "attentive (do_post w c)"
  by (simp add: attentive_def do_post_def)

lemma all_attentive_post: "post n r c = Done n' \<Longrightarrow> all_attentive n \<Longrightarrow> all_attentive n'"
proof -
  assume p: "post n r c = Done n'" and ok: "all_attentive n"
  let ?k = "unat (raw r) mod length (workers n)"
  from p have n': "n' = n\<lparr>workers := (workers n)[?k := do_post (workers n ! ?k) c]\<rparr>"
    by (auto simp: post_def to_worker_index_def split: if_splits)
  have "attentive (worker_at n' who)" if "on_duty n who" for who
    using that ok by (cases who) (auto simp: n' nth_update all_attentive_def dest: spec [of _ Master] spec [of _ "Worker _"])
  then show ?thesis by (simp add: all_attentive_def n' on_duty_cong [of "n\<lparr>workers := _\<rparr>" n])
qed

lemma all_attentive_master: "all_attentive n \<Longrightarrow> all_attentive (post_to_master n c)"
proof -
  assume ok: "all_attentive n"
  have "attentive (worker_at (post_to_master n c) who)" if "on_duty n who" for who
    using that ok by (cases who) (auto simp: post_to_master_def all_attentive_def dest: spec [of _ "Worker _"])
  then show ?thesis by (simp add: all_attentive_def post_to_master_def on_duty_cong [of "n\<lparr>master := _\<rparr>" n])
qed

lemma all_attentive_update [simp]:
  "all_attentive (n\<lparr>rgen := g\<rparr>) = all_attentive n" "all_attentive (n\<lparr>lgen := g\<rparr>) = all_attentive n"
  "all_attentive (n\<lparr>running := b\<rparr>) = all_attentive n"
  by (simp_all add: all_attentive_def)

lemma all_attentive_set: "all_attentive n \<Longrightarrow> on_duty n who \<Longrightarrow> attentive w \<Longrightarrow> all_attentive (set_worker n who w)"
  by (auto simp: all_attentive_def worker_at_set on_duty_cong [of "set_worker n who w" n])

lemma all_attentive_deliver: "deliver n effs = Done n' \<Longrightarrow> all_attentive n \<Longrightarrow> all_attentive n'"
  by (induction n effs rule: deliver.induct) (auto simp: result_simps dest: all_attentive_post)

lemma all_attentive_call:
  assumes "handler_call dbg n op = Done n'" and "all_attentive n"
  shows "all_attentive n'"
proof -
  have listen: "handler_listen_with dbg n c t as cb = Done n' \<Longrightarrow> all_attentive n'" for c t as cb
    using assms(2) by (elim handler_listen_with_Done) (auto intro!: all_attentive_master)
  have connect: "handler_connect_with dbg n c t ra cb = Done n' \<Longrightarrow> all_attentive n'" for c t ra cb
    using assms(2)
    by (auto simp: handler_connect_with_def handler_next_remote_id_def result_simps intro!: all_attentive_master)
  show ?thesis
  proof (cases op)
    case (Op_Listen_Sync c t as cb)
    with assms obtain as' where "as = Ok as'" by (auto simp: handler_call_def listen_sync_post_def result_simps)
    with Op_Listen_Sync assms show ?thesis
      by (cases as') (auto simp: handler_call_def listen_sync_post_def intro: listen)
  qed (use assms in \<open>auto simp: handler_call_def handler_send_def handler_send_sync_def handler_is_ready_def
        handler_close_def handler_stop_def connect_sync_post_def result_simps split: ResourceType.splits
        intro: connect listen all_attentive_post all_attentive_master\<close>)
qed

section \<open>Events of a run\<close>

lemma node_step_length: "node_step env n l n' \<Longrightarrow> debug env \<Longrightarrow> gen_type (lgen n) = Local \<Longrightarrow>
    length (workers n') = length (workers n)"
  by (induction rule: node_step.induct)
    (auto simp: handler_ok_def same_procs_def same_but_queues_def dest!: handler_ok_call deliver_keeps)

definition label_ok :: "node \<Rightarrow> label \<Rightarrow> bool" where
  "label_ok n l \<longleftrightarrow> (case label_at l of
     None \<Rightarrow> label_effs l = []
   | Some (who, a) \<Rightarrow> on_duty n who \<and> (a = Transport_id Tcp \<or> a = Transport_id Ssl))"

lemma on_processor_adapter:
  "worker_runs env tr who ps \<Longrightarrow> on_processor tc sc g ps a = Some (Done r) \<Longrightarrow> a = Transport_id Tcp \<or> a = Transport_id Ssl"
  by (cases r) (auto simp: worker_runs_def elim: on_processor_on_table)

lemma label_ok_step:
  assumes "node_inv env tr n" and "node_step env n l n'"
  shows "label_ok n l"
  using assms(2)
proof (cases rule: node_step.cases)
  case (Command who w b c q io g ps effs)
  then have runs: "worker_runs env tr who (procs w)" using assms(1) by (simp add: node_inv_def)
  show ?thesis
  proof (cases "cmd_id c")
    case None
    with Command show ?thesis by (auto simp: label_ok_def process_command_eq)
  next
    case (Some i)
    with Command(6) obtain r where "on_processor (\<lambda>d. driver_command TcpAdapter (env_mio env) (tcp_io io) d c)
       (\<lambda>d. driver_command SslAdapter (env_mio env) (ssl_io io) d c) (rgen n) (procs w) (adapter_id i) = Some (Done r)"
      by (auto simp: process_command_eq result_simps)
    from on_processor_adapter [OF runs this] Some Command(1,2) show ?thesis by (simp add: label_ok_def)
  qed
next
  case (Poll who w e i io g ps q effs)
  then have runs: "worker_runs env tr who (procs w)" using assms(1) by (simp add: node_inv_def)
  from Poll(6,7) obtain tc sc r where "on_processor tc sc (rgen n) (procs w) (adapter_id i) = Some (Done r)"
    by (auto simp: process_poll_event_def result_simps)
  from on_processor_adapter [OF runs this] Poll(1,2) label_at_event [OF Poll(6)] show ?thesis
    by (simp add: label_ok_def)
qed (simp_all add: label_ok_def)

lemma label_ok_run:
  assumes "node_run env (create_node_handler N) tr n" and "debug env"
  shows "\<forall>l \<in> set tr. label_ok n l"
  using assms
proof (induction rule: node_run.induct)
  case (Step tr n l n')
  note inv = node_inv_run [OF Step(1,4)]
  then have "length (workers n') = length (workers n)"
    using node_step_length [OF Step(2,4)] by (simp add: node_inv_def)
  note on_duty_cong [OF this]
  then have "label_ok n' = label_ok n" by (auto simp: label_ok_def fun_eq_iff split: option.splits)
  then show ?case using Step label_ok_step [OF inv Step(2)] by simp
qed simp

lemma events_of_concat: "events_of i (concat xss) = concat (map (events_of i) xss)"
  by (induction xss) simp_all

lemma events_at:
  assumes "\<And>l. l \<in> set tr \<Longrightarrow> label_at l \<noteq> Some (who, a) \<Longrightarrow> events_of i (label_effs l) = []"
  shows "events_of i (concat (map label_effs tr)) = events_of i (effs_at tr who a)"
  using assms by (induction tr) (auto simp: effs_at_def)

lemma worker_runs_events:
  assumes "worker_runs env tr who ps" and "a = Transport_id Tcp \<or> a = Transport_id Ssl" and "resource_type i = Remote"
  shows "lifecycle i (events_of i (effs_at tr who a))"
    and "i \<notin> used_at tr who a \<Longrightarrow> events_of i (effs_at tr who a) = []"
  using assms tcp.run_ok_driver_run ssl.run_ok_driver_run
  by (auto simp: worker_runs_def intro: tcp.run_lifecycle ssl.run_lifecycle)
    (fastforce simp: tcp.run_ok_def ssl.run_ok_def)+

end
