(* ===== verification/Node_Runs.thy ===== *)
theory Node_Runs
  imports Node_Invariant
begin

text \<open>What the invariant of a node means for its user, and a concrete run.\<close>

section \<open>A concrete run\<close>

text \<open>A node with one worker that connects: the call, the attempt, the registration, the handshake.\<close>

definition demo_env :: env where "demo_env = \<lparr>env_mio = mio_ok, debug = True\<rparr>"
definition demo_io :: net_io where "demo_io = \<lparr>tcp_io = os_demo, ssl_io = tls_demo\<rparr>"
definition demo_gen :: ResourceIdGenerator where "demo_gen = \<lparr>last_id = 2, gen_type = Remote\<rparr>"

definition demo_connect :: WakerCommand where
  "demo_connect = Connect ConnectConfig_default demo_id (Socket (V4 7 80)) 5"

definition demo_register :: WakerCommand where
  "demo_register = ConnectRegisterRemote (V4 1 99) (demo_id, V4 7 80) 5 (TcpConnectPayload None) 5"

definition demo_driver :: "bool \<Rightarrow> (TcpRemote, TcpLocal) driver" where
  "demo_driver b = \<lparr>remote_id_generator = demo_gen, remote_registry = Map.empty(demo_id \<mapsto>
     \<lparr>resource = \<lparr>tcp_stream = 5, tcp_keepalive_opt = None\<rparr>, properties = \<lparr>peer_addr = V4 7 80, local = None, ready = b\<rparr>\<rparr>),
     local_registry = Map.empty\<rparr>"

definition demo_registered :: "effect list" where
  "demo_registered = [Poll_Call (Registered 5 (Token_from_id demo_id) READABLE_WRITABLE),
     Call_Connect 5 (Ok (Endpoint_new demo_id (V4 7 80), V4 1 99))]"

definition demo_connected :: "effect list" where
  "demo_connected = [Emit (Connected (Endpoint_new demo_id (V4 7 80)) True)]"

definition demo_node :: "worker \<Rightarrow> worker \<Rightarrow> node" where
  "demo_node m w = \<lparr>rgen = demo_gen, lgen = ResourceIdGenerator_new Local, master = m, workers = [w], running = True\<rparr>"

definition demo_worker :: "nat \<Rightarrow> WakerCommand list \<Rightarrow> bool \<Rightarrow> nat \<Rightarrow> processors \<Rightarrow> worker" where
  "demo_worker k q x b ps = \<lparr>ctl_id = k, commands = q, woken = x, in_batch = True, draining = b, procs = ps\<rparr>"

abbreviation demo_start :: processors where
  "demo_start \<equiv> create_multiplexor_worker (ResourceIdGenerator_new Remote)"

lemmas demo_defs = demo_node_def demo_worker_def worker_new_def post_def to_worker_index_def do_post_def
  queue_post_def try_receive_def

lemma process_command_tcp:
  assumes "table ps dt ds" and "cmd_id c = Some i" and "adapter_id i = Transport_id Tcp"
    and "driver_command TcpAdapter (env_mio env) (tcp_io io) (dt\<lparr>remote_id_generator := g\<rparr>) c = Some (Done (dt', es))"
  shows "process_command env io g ps c =
      Some (Done (remote_id_generator dt', ps[0 := TcpDriver dt'], map Driver_Effect es))"
  using assms by (simp add: process_command_eq on_processor_def get_processor_def call_processor_def table_def
      Transport_id_def)

lemma table_tcp: "table ps dt ds \<Longrightarrow> table (ps[0 := TcpDriver dt']) dt' ds"
  by (simp add: table_def nth_list_update)

lemma demo_id_eq: "pack 0 Remote 1 = demo_id" "adapter_id demo_id = Transport_id Tcp"
  by (simp_all add: pack_def demo_id_def adapter_id_def ADAPTER_ID_MASK_def Transport_id_def word_consts)

lemma generate_first: "generate True (ResourceIdGenerator_new Remote) (Transport_id Tcp) = Done (demo_id, demo_gen)"
  by (simp add: generate_def ResourceIdGenerator_new_def ResourceId_new_Done MAX_vals Transport_id_def demo_id_eq
      unat_le_MAX_BASE [unfolded MAX_vals] demo_gen_def)

lemma demo_attempt:
  "process_command demo_env demo_io demo_gen demo_start demo_connect =
     Some (Done (demo_gen, demo_start[0 := TcpDriver ((driver_new (ResourceIdGenerator_new Remote))\<lparr>remote_id_generator := demo_gen\<rparr>)],
       [Driver_Effect (Post demo_id demo_register)]))"
proof -
  let ?d = "(driver_new (ResourceIdGenerator_new Remote))\<lparr>remote_id_generator := demo_gen\<rparr> :: (TcpRemote, TcpLocal) driver"
  have "driver_command TcpAdapter (env_mio demo_env) (tcp_io demo_io) ?d demo_connect =
      Some (Done (?d, [Post demo_id demo_register]))"
    by (simp add: process_connect_def TcpAdapter_def tcp_connect_with_def socket_addr_def tcp_remote_connect_with_def
        demo_io_def os_demo_def ConnectConfig_default_def bind_device_if_def result_simps demo_connect_def demo_register_def)
  from process_command_tcp [OF table_new _ demo_id_eq(2) this] show ?thesis by (simp add: demo_connect_def)
qed

lemma demo_registration:
  "process_command demo_env demo_io demo_gen demo_start demo_register =
     Some (Done (demo_gen, demo_start[0 := TcpDriver (demo_driver False)], map Driver_Effect demo_registered))"
proof -
  let ?d = "(driver_new (ResourceIdGenerator_new Remote))\<lparr>remote_id_generator := demo_gen\<rparr> :: (TcpRemote, TcpLocal) driver"
  have "driver_command TcpAdapter (env_mio demo_env) (tcp_io demo_io) ?d demo_register =
      Some (Done (demo_driver False, demo_registered))"
    by (simp add: process_connect_register_remote_def TcpAdapter_def tcp_connected_resource_def registry_register_def
        PollRegistry_add_def demo_env_def mio_ok_def driver_new_def registry_new_def Register_new_def
        RemoteProperties_new_def demo_driver_def demo_register_def demo_registered_def Let_def)
  from process_command_tcp [OF table_new _ demo_id_eq(2) this] show ?thesis
    by (simp add: demo_register_def demo_driver_def)
qed

lemma demo_new_source: "new_source demo_io demo_start demo_register"
proof -
  have "watched_by p = {}" if "p \<in> set demo_start" for p
  proof -
    from that obtain k where "k < 128" "p = demo_start ! k" by (auto simp: in_set_conv_nth length_processors)
    then show ?thesis
      using table_new [of "ResourceIdGenerator_new Remote"]
      by (cases "k = 0"; cases "k = 2") (auto simp: table_def watched_def driver_new_def registry_new_def sources_def)
  qed
  then show ?thesis by (simp add: demo_register_def)
qed

lemma demo_handshake:
  assumes "table ps (demo_driver False) ds"
  shows "process_poll_event demo_env (\<lambda>_. False) (\<lambda>_. demo_io) demo_gen ps [] (NetworkWrite demo_id) =
      Some (Done (demo_gen, ps[0 := TcpDriver (demo_driver True)], [], map Driver_Effect demo_connected))"
proof -
  have "process_write TcpAdapter mio_ok os_demo (demo_driver False) demo_id = Some (Done (demo_driver True, demo_connected))"
    by (simp add: process_write_def registry_get_def demo_ids resolve_pending_remote_def TcpAdapter_def demo_driver_def
        tcp_pending_def check_tcp_stream_ready_def os_demo_def tcp_set_keepalive_def registry_shared_def demo_connected_def
        mark_as_ready_def write_to_remote_def ready_to_write_default_def drop_clone_def Let_def)
  moreover have "demo_driver False\<lparr>remote_id_generator := demo_gen\<rparr> = demo_driver False"
    "remote_id_generator (demo_driver True) = demo_gen" by (simp_all add: demo_driver_def)
  ultimately show ?thesis
    using assms
    by (simp add: process_poll_event_def on_processor_def get_processor_def call_processor_def table_def demo_id_eq
        Transport_id_def demo_env_def demo_io_def own_posts_def demo_connected_def)
qed

text \<open>The steps of the run; \<open>m\<close> is the master after its part.\<close>

lemma demo_call:
  "node_step demo_env (create_node_handler 1) (Call (Op_Connect_Sync ConnectConfig_default Tcp (Ok (Socket (V4 7 80))) 5))
    (demo_node (demo_worker 7000 [demo_connect] True 0 demo_start\<lparr>in_batch := False\<rparr>)
       (demo_worker 7001 [] False 0 demo_start\<lparr>in_batch := False\<rparr>))"
  by (rule node_step.User)
    (simp_all add: handler_call_def connect_sync_post_def to_remote_addr_remote_def handler_connect_with_def handler_next_remote_id_def create_node_handler_def
      split_id_generator_def demo_env_def generate_first post_to_master_def CONTROLLER_ID_BASE_def demo_defs demo_connect_def)

lemma in_batch_True: "in_batch w \<Longrightarrow> w\<lparr>in_batch := True\<rparr> = w"
  by (cases w) simp

lemma demo_batch:
  "in_batch m \<Longrightarrow> node_step demo_env (demo_node (m\<lparr>in_batch := False\<rparr>) w) Silent (demo_node m w)"
  "in_batch w \<Longrightarrow> node_step demo_env (demo_node m (w\<lparr>in_batch := False\<rparr>)) Silent (demo_node m w)"
  using node_step.Batch [of "demo_node (m\<lparr>in_batch := False\<rparr>) w" Master _ demo_env]
    node_step.Batch [of "demo_node m (w\<lparr>in_batch := False\<rparr>)" "Worker 0" _ demo_env]
  by (simp_all add: demo_node_def in_batch_True)

lemma demo_wake:
  "node_step demo_env (demo_node (demo_worker k q True 0 ps) w) Silent (demo_node (demo_worker k q False 1024 ps) w)"
  "node_step demo_env (demo_node m (demo_worker k q True 0 ps)) Silent (demo_node m (demo_worker k q False 1024 ps))"
  using node_step.Wake [of "demo_node (demo_worker k q True 0 ps) w" Master _ demo_env]
    node_step.Wake [of "demo_node m (demo_worker k q True 0 ps)" "Worker 0" _ demo_env]
  by (simp_all add: demo_defs MAX_COMMANDS_def)

definition demo_tried :: processors where
  "demo_tried = demo_start[0 := TcpDriver ((driver_new (ResourceIdGenerator_new Remote))\<lparr>remote_id_generator := demo_gen\<rparr>)]"

lemma demo_commands:
  "node_step demo_env (demo_node (demo_worker 7000 [demo_connect] False 1024 demo_start) (demo_worker 7001 [] False 0 demo_start))
     (Cmd Master demo_connect [Driver_Effect (Post demo_id demo_register)])
     (demo_node (demo_worker 7000 [] False 1023 demo_tried) (demo_worker 7001 [demo_register] True 0 demo_start))"
  "node_step demo_env (demo_node m (demo_worker 7001 [demo_register] False 1024 demo_start))
     (Cmd (Worker 0) demo_register (map Driver_Effect demo_registered))
     (demo_node m (demo_worker 7001 [] False 1023 (demo_start[0 := TcpDriver (demo_driver False)])))"
  using node_step.Command [OF _ refl, of "demo_node (demo_worker 7000 [demo_connect] False 1024 demo_start) (demo_worker 7001 [] False 0 demo_start)"
      Master 1023 demo_connect "[]" demo_env demo_io demo_gen demo_tried "[Driver_Effect (Post demo_id demo_register)]"]
    node_step.Command [OF _ refl, of "demo_node m (demo_worker 7001 [demo_register] False 1024 demo_start)" "Worker 0" 1023
      demo_register "[]" demo_env demo_io demo_gen "demo_start[0 := TcpDriver (demo_driver False)]" "map Driver_Effect demo_registered"]
  by (simp_all add: demo_defs demo_attempt demo_tried_def demo_registration demo_new_source demo_registered_def)
    (simp add: demo_connect_def)

lemma demo_poll:
  "node_step demo_env (demo_node m (demo_worker k [] x b ps)) Silent (demo_node m (demo_worker k [] x 0 ps))" if "b = 1023"
  using that node_step.Drained [of "demo_node m (demo_worker k [] x b ps)" "Worker 0" _ demo_env] by (simp add: demo_defs)

lemma demo_event:
  "table ps (demo_driver False) ds \<Longrightarrow>
   node_step demo_env (demo_node m (demo_worker k [] x 0 ps)) (Event (Worker 0) (NetworkWrite demo_id) (map Driver_Effect demo_connected))
     (demo_node m (demo_worker k [] x 0 (ps[0 := TcpDriver (demo_driver True)])))"
  by (rule node_step.Poll [OF _ refl, where i = demo_id and io = demo_io and g = demo_gen])
    (simp_all add: demo_defs demo_handshake demo_connected_def)

definition demo_trace :: "label list" where
  "demo_trace = [] @ [Call (Op_Connect_Sync ConnectConfig_default Tcp (Ok (Socket (V4 7 80))) 5)] @ [Silent] @ [Silent] @ [Silent] @
     [Cmd Master demo_connect [Driver_Effect (Post demo_id demo_register)]] @ [Silent] @
     [Cmd (Worker 0) demo_register (map Driver_Effect demo_registered)] @ [Silent] @
     [Event (Worker 0) (NetworkWrite demo_id) (map Driver_Effect demo_connected)]"

definition demo_procs :: processors where
  "demo_procs = demo_start[0 := TcpDriver (demo_driver False), 0 := TcpDriver (demo_driver True)]"

definition demo_end :: node where
  "demo_end = demo_node (demo_worker 7000 [] False 1023 demo_tried) (demo_worker 7001 [] False 0 demo_procs)"

lemma demo_table: "table demo_procs (demo_driver True) (driver_new (ResourceIdGenerator_new Remote))"
  unfolding demo_procs_def by (rule table_tcp [OF table_tcp [OF table_new]])

lemma demo_reaches_end: "node_run demo_env (create_node_handler 1) demo_trace demo_end"
proof -
  have tab: "table (demo_start[0 := TcpDriver (demo_driver False)]) (demo_driver False) (driver_new (ResourceIdGenerator_new Remote))"
    using table_new by (rule table_tcp)
  show ?thesis
    unfolding append_assoc [symmetric] demo_trace_def demo_end_def demo_procs_def
    by (intro node_run.Step [OF _ demo_event [OF tab]] node_run.Step [OF _ demo_poll [OF refl]] node_run.Step [OF _ demo_commands(2)]
        node_run.Step [OF _ demo_wake(2)] node_run.Step [OF _ demo_commands(1)] node_run.Step [OF _ demo_wake(1)]
        node_run.Step [OF _ demo_batch(2)] node_run.Step [OF _ demo_batch(1)] node_run.Step [OF _ demo_call] node_run.Start)
      (simp_all add: demo_worker_def)
qed

lemma demo_node_run:
  obtains tr n where "node_run demo_env (create_node_handler 1) tr n"
    "events_of demo_id (concat (map label_effs tr)) = [Connected (Endpoint_new demo_id (V4 7 80)) True]"
    "TcpDriver (demo_driver True) \<in> set (procs (worker_at n (Worker 0)))" "workers n \<noteq> []"
  by (rule that [OF demo_reaches_end])
    (simp_all add: demo_trace_def demo_end_def demo_procs_def demo_registered_def demo_connected_def demo_node_def
      demo_worker_def length_processors set_update_memI)

lemma run_length:
  assumes "node_run env (create_node_handler N) tr n" and "debug env"
  shows "length (workers n) = N"
  using assms
proof (induction rule: node_run.induct)
  case (Step tr n l n')
  then show ?case
    using node_step_length [OF Step(2,4)] node_inv_run [OF Step(1,4)] by (simp add: node_inv_def)
qed (simp add: create_node_handler_def split_id_generator_def)

fun has_remote :: "processor \<Rightarrow> ResourceId \<Rightarrow> bool" where
  "has_remote UnimplementedDriver i = False"
| "has_remote (TcpDriver d) i = (remote_registry d i \<noteq> None)"
| "has_remote (SslDriver d) i = (remote_registry d i \<noteq> None)"

fun has_listener :: "processor \<Rightarrow> ResourceId \<Rightarrow> bool" where
  "has_listener UnimplementedDriver l = False"
| "has_listener (TcpDriver d) l = (local_registry d l \<noteq> None)"
| "has_listener (SslDriver d) l = (local_registry d l \<noteq> None)"

lemma table_member: "table ps dt ds \<Longrightarrow> p \<in> set ps \<Longrightarrow> p = UnimplementedDriver \<or> p = TcpDriver dt \<or> p = SslDriver ds"
  by (auto simp: table_def in_set_conv_nth)

lemma worker_runs_tables:
  assumes "worker_runs env tr who ps" and p: "p \<in> set ps"
  shows "(has_remote p i \<longrightarrow> resource_type i = Remote \<and> (\<exists>a. i \<in> used_at tr who a \<and> get_processor ps a = Done p)) \<and>
    (has_listener p i \<longrightarrow> resource_type i = Local \<and> who = Master)"
proof -
  from assms(1) obtain dt ds where tab: "table ps dt ds"
    and "driver_run TcpAdapter (env_mio env) (driver_new (ResourceIdGenerator_new Remote))
       (effs_at tr who (Transport_id Tcp)) (used_at tr who (Transport_id Tcp), dt)"
      "driver_run SslAdapter (env_mio env) (driver_new (ResourceIdGenerator_new Remote))
       (effs_at tr who (Transport_id Ssl)) (used_at tr who (Transport_id Ssl), ds)"
    and loc: "who \<noteq> Master \<longrightarrow> local_registry dt = Map.empty \<and> local_registry ds = Map.empty"
    unfolding worker_runs_def by blast
  then have inv: "driver_inv TcpAdapter (used_at tr who (Transport_id Tcp)) dt"
    "driver_inv SslAdapter (used_at tr who (Transport_id Ssl)) ds" by (auto intro: tcp.run_inv ssl.run_inv)
  have ids: "(remote_registry d j \<noteq> None \<longrightarrow> resource_type j = Remote \<and> j \<in> used) \<and>
      (local_registry d j \<noteq> None \<longrightarrow> resource_type j = Local)" if "driver_inv A used d"
    for A :: "('r, 'l, 'io) adapter" and used d j
    using that by (simp add: driver_inv_def rt.all_ids_def registry_get_def)
  have slots: "get_processor ps (Transport_id Tcp) = Done (TcpDriver dt)" "get_processor ps (Transport_id Ssl) = Done (SslDriver ds)"
    using tab by (simp_all add: get_processor_def table_def Transport_id_def)
  from table_member [OF tab p] show ?thesis
    using ids [OF inv(1), of i] ids [OF inv(2), of i] loc slots by auto
qed

text \<open>A query for an id that no table has is answered as for an unknown resource.\<close>

lemma is_ready_absent:
  assumes "process_command env io g ps (IsReady i cb) = Some (Done (g', ps', effs))" and "\<forall>q \<in> set ps. \<not> has_remote q i"
  shows "effs = [Driver_Effect (Call_Ready cb None)]"
proof -
  have absent: "remote_registry d i = None" if "unat a < length ps" "ps ! unat a = TcpDriver d" for a :: u8 and d
    using that assms(2) by (metis has_remote.simps(2) nth_mem)
  have absent': "remote_registry d i = None" if "unat a < length ps" "ps ! unat a = SslDriver d" for a :: u8 and d
    using that assms(2) by (metis has_remote.simps(3) nth_mem)
  from assms(1) show ?thesis
    by (auto simp: process_command_eq process_is_ready_def registry_get_def absent absent' Let_def result_simps
        elim!: on_processor_cases split: ResourceType.splits option.splits)
qed

lemma all_attentive_step:
  assumes "node_step env n l n'" and "all_attentive n"
    and "\<And>who c effs. l = Cmd who c effs \<Longrightarrow> draining (worker_at n who) > 1"
  shows "all_attentive n'"
  using assms
proof (induction rule: node_step.induct)
  case (User n op n')
  then show ?case by (auto intro: all_attentive_call)
next
  case (Batch n who w)
  then have "attentive w" by (simp add: all_attentive_def)
  with Batch show ?case by (auto simp: attentive_def intro!: all_attentive_set)
next
  case (Batch_End n who w)
  then have "attentive w" by (simp add: all_attentive_def)
  with Batch_End show ?case by (auto simp: attentive_def intro!: all_attentive_set)
next
  case (Wake n who w)
  then show ?case by (auto simp: attentive_def MAX_COMMANDS_def intro!: all_attentive_set)
next
  case (Command n who w b c q io g ps effs n')
  then show ?case by (auto simp: attentive_def intro!: all_attentive_deliver [OF Command(7)] all_attentive_set)
next
  case (Drained n who w)
  then show ?case by (auto simp: attentive_def try_receive_def intro!: all_attentive_set split: list.splits)
next
  case (Poll n who w e i io g ps q effs n')
  from Poll(1,2,8) have "attentive w" by (simp add: all_attentive_def)
  with Poll(1,2,8) show ?case
    by (auto simp: attentive_def intro!: all_attentive_deliver [OF Poll(7)] all_attentive_set)
qed

section \<open>Properties\<close>

text \<open>
  C1: In every run of a node of a debug build, whatever the operating system answers, whatever the
  user calls and however the threads interleave, the events about one remote id, taken over all
  threads in the order they are emitted, are the life of one connection: the ids the threads draw
  from the shared generator never meet, so no two connections are ever reported under one id.
\<close>
theorem node_lifecycle:
  assumes "node_run env (create_node_handler N) tr n" and "debug env" and "resource_type i = Remote"
  shows "lifecycle i (events_of i (concat (map label_effs tr)))"
proof -
  note inv = node_inv_run [OF assms(1,2)]
  let ?who = "Worker (unat (raw i) mod length (workers n))" and ?a = "adapter_id i"
  have ok: "label_ok n l" if "l \<in> set tr" for l using label_ok_run [OF assms(1,2)] that by blast
  have elsewhere: "events_of i (label_effs l) = []" if l: "l \<in> set tr" "label_at l \<noteq> Some (?who, ?a)" for l
  proof (cases "label_at l")
    case None
    with ok [OF l(1)] show ?thesis by (simp add: label_ok_def)
  next
    case (Some at)
    obtain who a where at: "at = (who, a)" by (cases at)
    with Some l inv have "i \<notin> used_at tr who a" by (auto simp: node_inv_def)
    then have "events_of i (effs_at tr who a) = []"
      using ok [OF l(1)] Some at inv assms(3)
      by (intro worker_runs_events(2) [of env _ _ "procs (worker_at n who)"]) (auto simp: label_ok_def node_inv_def)
    then show ?thesis using l(1) Some at by (auto simp: effs_at_def events_of_concat)
  qed
  show ?thesis
  proof (cases "\<exists>l \<in> set tr. label_at l = Some (?who, ?a)")
    case True
    with ok have *: "on_duty n ?who" "?a = Transport_id Tcp \<or> ?a = Transport_id Ssl"
      by (fastforce simp: label_ok_def)+
    then have "worker_runs env tr ?who (procs (worker_at n ?who))" using inv unfolding node_inv_def by blast
    from worker_runs_events(1) [OF this *(2) assms(3)]
    have "lifecycle i (events_of i (effs_at tr ?who ?a))" .
    then show ?thesis using events_at [of tr ?who ?a i] elsewhere by simp
  next
    case False
    then have "effs_at tr ?who ?a = []" by (auto simp: effs_at_def)
    then show ?thesis using events_at [of tr ?who ?a i] elsewhere by (simp add: lifecycle_def)
  qed
qed

theorem node_lifecycle_witness:
  "\<exists>tr n. node_run demo_env (create_node_handler 1) tr n \<and>
     events_of demo_id (concat (map label_effs tr)) = [Connected (Endpoint_new demo_id (V4 7 80)) True] \<and>
     lifecycle demo_id (events_of demo_id (concat (map label_effs tr)))"
proof -
  obtain tr n where "node_run demo_env (create_node_handler 1) tr n"
    "events_of demo_id (concat (map label_effs tr)) = [Connected (Endpoint_new demo_id (V4 7 80)) True]"
    by (rule demo_node_run)
  moreover from node_lifecycle [OF this(1) _ demo_ids(1)]
  have "lifecycle demo_id (events_of demo_id (concat (map label_effs tr)))" by (simp add: demo_env_def)
  ultimately show ?thesis by blast
qed

text \<open>
  C2: In every run of a node of a debug build, a remote is in a table of the one worker its id
  selects, so each call of the handler for it (send, query, close) puts its command into the queue of the
  very thread that has it. A listener is in a table of the master, and only \<open>close\<close> sends its command there:
  \<open>is_ready_sync\<close>, \<open>send\<close> and \<open>post\<close> for a listener go to the worker its id selects, no table of which has it,
  so the query is always answered as for an unknown resource.
\<close>
theorem node_routing:
  assumes "node_run env (create_node_handler N) tr n" and "debug env"
    and "on_duty n who" and "p \<in> set (procs (worker_at n who))"
  shows "(has_remote p i \<longrightarrow> who = Worker (unat (raw i) mod N) \<and>
      post n i c = Done (set_worker n who (do_post (worker_at n who) c)) \<and>
      handler_send n (Endpoint_new i a) data = Done (set_worker n who (do_post (worker_at n who) (Send (Endpoint_new i a) data))) \<and>
      handler_is_ready n i cb = Done (set_worker n who (do_post (worker_at n who) (IsReady i cb))) \<and>
      handler_close n i = Done (set_worker n who (do_post (worker_at n who) (Close i)))) \<and>
    (has_listener p i \<longrightarrow> who = Master \<and>
      handler_close n i = Done (set_worker n who (do_post (worker_at n who) (Close i))) \<and>
      (N \<noteq> 0 \<longrightarrow> (let w = Worker (unat (raw i) mod N) in
        handler_is_ready n i cb = Done (set_worker n w (do_post (worker_at n w) (IsReady i cb))) \<and>
        handler_send n (Endpoint_new i a) data = Done (set_worker n w (do_post (worker_at n w) (Send (Endpoint_new i a) data))) \<and>
        (\<forall>q \<in> set (procs (worker_at n w)). \<not> has_listener q i \<and> \<not> has_remote q i) \<and>
        (\<forall>io g ps effs. process_command env io (rgen n) (procs (worker_at n w)) (IsReady i cb) = Some (Done (g, ps, effs)) \<longrightarrow>
          effs = [Driver_Effect (Call_Ready cb None)]))))"
proof -
  have runs: "worker_runs env tr who (procs (worker_at n who))" if "on_duty n who" for who
    using node_inv_run [OF assms(1,2)] that by (simp add: node_inv_def)
  have N: "length (workers n) = N" using run_length [OF assms(1,2)] .
  have used: "\<And>who a j. j \<in> used_at tr who a \<Longrightarrow> who = Worker (unat (raw j) mod N)"
    using node_inv_run [OF assms(1,2)] N by (auto simp: node_inv_def)
  note tables = worker_runs_tables [OF runs]
  have posts: "post n i c' = Done (set_worker n w (do_post (worker_at n w) c'))"
    if "w = Worker (unat (raw i) mod N)" "N \<noteq> 0" for c' w using that N by (auto simp: post_def to_worker_index_def)
  show ?thesis
  proof (intro conjI impI)
    assume live: "has_remote p i"
    with tables [OF assms(3,4)] used show who: "who = Worker (unat (raw i) mod N)" by blast
    with assms(3) N have "N \<noteq> 0" by auto
    note posts = posts [OF who this]
    from posts show "post n i c = Done (set_worker n who (do_post (worker_at n who) c))"
      "handler_send n (Endpoint_new i a) data = Done (set_worker n who (do_post (worker_at n who) (Send (Endpoint_new i a) data)))"
      "handler_is_ready n i cb = Done (set_worker n who (do_post (worker_at n who) (IsReady i cb)))"
      by (simp_all add: handler_send_def handler_is_ready_def)
    from posts tables [OF assms(3,4)] live
    show "handler_close n i = Done (set_worker n who (do_post (worker_at n who) (Close i)))"
      by (simp add: handler_close_def)
  next
    assume live: "has_listener p i"
    with tables [OF assms(3,4)] show "who = Master"
      "handler_close n i = Done (set_worker n who (do_post (worker_at n who) (Close i)))"
      by (auto simp: handler_close_def post_to_master_def)
    assume "N \<noteq> 0"
    let ?w = "Worker (unat (raw i) mod N)"
    have duty: "on_duty n ?w" using N \<open>N \<noteq> 0\<close> by simp
    have type: "resource_type i = Local" using tables [OF assms(3,4)] live by blast
    have absent: "\<not> has_listener q i \<and> \<not> has_remote q i" if "q \<in> set (procs (worker_at n ?w))" for q
      using tables [OF duty that, of i] type by auto
    with posts [OF refl \<open>N \<noteq> 0\<close>] is_ready_absent
    show "let w = ?w in
        handler_is_ready n i cb = Done (set_worker n w (do_post (worker_at n w) (IsReady i cb))) \<and>
        handler_send n (Endpoint_new i a) data = Done (set_worker n w (do_post (worker_at n w) (Send (Endpoint_new i a) data))) \<and>
        (\<forall>q \<in> set (procs (worker_at n w)). \<not> has_listener q i \<and> \<not> has_remote q i) \<and>
        (\<forall>io g ps effs. process_command env io (rgen n) (procs (worker_at n w)) (IsReady i cb) = Some (Done (g, ps, effs)) \<longrightarrow>
          effs = [Driver_Effect (Call_Ready cb None)])"
      unfolding Let_def by (auto simp: handler_send_def handler_is_ready_def Endpoint_new_def)
  qed
qed

theorem node_routing_witness:
  "\<exists>tr n. node_run demo_env (create_node_handler 1) tr n \<and>
     post n demo_id Stop = Done (set_worker n (Worker 0) (do_post (worker_at n (Worker 0)) Stop))"
proof -
  obtain tr n where run: "node_run demo_env (create_node_handler 1) tr n"
    and live: "TcpDriver (demo_driver True) \<in> set (procs (worker_at n (Worker 0)))" "workers n \<noteq> []"
    by (rule demo_node_run)
  have "post n demo_id Stop = Done (set_worker n (Worker 0) (do_post (worker_at n (Worker 0)) Stop))"
    using node_routing [OF run _ _ live(1), of demo_id Stop] live(2) by (simp add: demo_env_def demo_driver_def)
  with run show ?thesis by blast
qed

text \<open>
  C20: Every entry is where its id says, in every run of a node of a debug build: an id under which
  a processor holds a remote has the type Remote, its adapter number selects that very processor,
  and no other processor of the thread holds a remote under it; an id under which a processor holds
  a listener has the type Local. An event or a command for the id is therefore never given to a
  processor of another transport, nor is one table ever asked for an id of the other kind.
\<close>
theorem node_tables_typed:
  assumes "node_run env (create_node_handler N) tr n" and "debug env"
    and "on_duty n who" and "p \<in> set (procs (worker_at n who))"
  shows "(has_remote p i \<longrightarrow> resource_type i = Remote \<and>
      get_processor (procs (worker_at n who)) (adapter_id i) = Done p \<and>
      (\<forall>q \<in> set (procs (worker_at n who)). has_remote q i \<longrightarrow> q = p)) \<and>
    (has_listener p i \<longrightarrow> resource_type i = Local)"
proof -
  let ?ps = "procs (worker_at n who)"
  have runs: "worker_runs env tr who ?ps" and ids: "\<And>who a j. j \<in> used_at tr who a \<Longrightarrow> adapter_id j = a"
    using node_inv_run [OF assms(1,2)] assms(3) by (auto simp: node_inv_def)
  have at: "resource_type i = Remote \<and> get_processor ?ps (adapter_id i) = Done q"
    if "q \<in> set ?ps" "has_remote q i" for q
    using worker_runs_tables [OF runs that(1), of i] that(2) ids by auto
  have "q = p" if "has_remote p i" "q \<in> set ?ps" "has_remote q i" for q
    using at [OF assms(4) that(1)] at [OF that(2,3)] by simp
  then show ?thesis using at [OF assms(4)] worker_runs_tables [OF runs assms(4), of i] by blast
qed

theorem node_tables_typed_witness:
  "\<exists>tr n. node_run demo_env (create_node_handler 1) tr n \<and> has_remote (TcpDriver (demo_driver True)) demo_id \<and>
     get_processor (procs (worker_at n (Worker 0))) (adapter_id demo_id) = Done (TcpDriver (demo_driver True))"
proof -
  obtain tr n where run: "node_run demo_env (create_node_handler 1) tr n"
    and live: "TcpDriver (demo_driver True) \<in> set (procs (worker_at n (Worker 0)))" "workers n \<noteq> []"
    by (rule demo_node_run)
  have "has_remote (TcpDriver (demo_driver True)) demo_id" by (simp add: demo_driver_def)
  moreover from this have "get_processor (procs (worker_at n (Worker 0))) (adapter_id demo_id) = Done (TcpDriver (demo_driver True))"
    using node_tables_typed [OF run _ _ live(1), of demo_id] live(2) by (simp add: demo_env_def)
  ultimately show ?thesis using run by blast
qed

text \<open>
  C21: No wake-up is lost below the limit of the drain loop: as long as no drain takes its 1024th
  command, after every step of the node each thread either has an empty queue or has a wake-up
  pending or is still draining. A drain that takes its 1024th command can leave commands behind
  with neither, and they wait until the next command is posted.
\<close>
theorem no_lost_wakeup:
  "(node_step env n l n' \<and> all_attentive n \<and>
     (\<forall>who c effs. l = Cmd who c effs \<longrightarrow> draining (worker_at n who) > 1) \<longrightarrow> all_attentive n') \<and>
   (on_duty n who \<and> commands (worker_at n who) = Greet s # q \<and> q \<noteq> [] \<and> \<not> woken (worker_at n who) \<and>
     draining (worker_at n who) = 1 \<longrightarrow>
     (\<exists>n'. node_step env n (Cmd who (Greet s) [Emit_Waker (Greet s)]) n' \<and> \<not> all_attentive n'))"
proof (intro conjI impI)
  assume "node_step env n l n' \<and> all_attentive n \<and>
     (\<forall>who c effs. l = Cmd who c effs \<longrightarrow> draining (worker_at n who) > 1)"
  then show "all_attentive n'" by (blast intro: all_attentive_step)
next
  assume *: "on_duty n who \<and> commands (worker_at n who) = Greet s # q \<and> q \<noteq> [] \<and> \<not> woken (worker_at n who) \<and>
     draining (worker_at n who) = 1"
  let ?w = "worker_at n who\<lparr>commands := q, draining := 0, procs := procs (worker_at n who)\<rparr>"
  have "node_step env n (Cmd who (Greet s) [Emit_Waker (Greet s)]) (set_worker (n\<lparr>rgen := rgen n\<rparr>) who ?w)"
    by (rule node_step.Command [OF _ refl, where b = 0 and q = q and g = "rgen n" and ps = "procs (worker_at n who)"])
      (use * in \<open>auto simp: try_receive_def process_command_eq\<close>)
  moreover have "\<not> all_attentive (set_worker (n\<lparr>rgen := rgen n\<rparr>) who ?w)"
    using * by (auto simp: all_attentive_def on_duty_cong [of "set_worker n who ?w" n] worker_at_set attentive_def
        intro!: exI [of _ who])
  ultimately show "\<exists>n'. node_step env n (Cmd who (Greet s) [Emit_Waker (Greet s)]) n' \<and> \<not> all_attentive n'" by blast
qed

theorem no_lost_wakeup_witness:
  "\<exists>n'. node_step demo_env (demo_node (demo_worker 7000 [Greet ''a'', Stop] False 1 demo_start) (demo_worker 7001 [] False 0 demo_start))
     (Cmd Master (Greet ''a'') [Emit_Waker (Greet ''a'')]) n' \<and> \<not> all_attentive n'"
  using no_lost_wakeup [of demo_env "demo_node (demo_worker 7000 [Greet ''a'', Stop] False 1 demo_start) (demo_worker 7001 [] False 0 demo_start)"
      Silent split Master "''a''" "[Stop]"]
  by (simp add: demo_node_def demo_worker_def)

end
