(* ===== verification/Node_Queues.thy ===== *)
theory Node_Queues
  imports Node_Runs
begin

text \<open>
  The command queues of a node over its runs. Each queue is a first-in first-out channel: a thread
  handles what was posted to it, in that order and once. Two consequences: what a user sends to an
  endpoint is put on the wire in the order of the calls, and the boxed payload of every queued command has the type the
  driver that handles it casts it to without a check.
\<close>

section \<open>What a step posts\<close>

definition thread_of :: "node \<Rightarrow> ResourceId \<Rightarrow> who" where
  "thread_of n i = Worker (unat (raw i) mod length (workers n))"

fun op_posts :: "bool \<Rightarrow> node \<Rightarrow> op \<Rightarrow> (who \<times> WakerCommand) list" where
  "op_posts dbg n (Op_Connect config t ra cb) =
     (case (generate dbg (rgen n) (Transport_id t), ra) of
        (Done (i, _), Inr a) \<Rightarrow> [(Master, Connect config i a cb)] | _ \<Rightarrow> [])"
| "op_posts dbg n (Op_Connect_Sync config t ra cb) =
     (case (generate dbg (rgen n) (Transport_id t), ra) of
        (Done (i, _), Inr a) \<Rightarrow> [(Master, Connect config i a cb)] | _ \<Rightarrow> [])"
| "op_posts dbg n (Op_Listen config t addrs cb) =
     (case (generate dbg (lgen n) (Transport_id t), addrs) of
        (Done (i, _), Inr (a # _)) \<Rightarrow> [(Master, Listen config i a cb)] | _ \<Rightarrow> [])"
| "op_posts dbg n (Op_Listen_Sync config t addrs cb) =
     (case (generate dbg (lgen n) (Transport_id t), addrs) of
        (Done (i, _), Inr (a # _)) \<Rightarrow> [(Master, Listen config i a cb)] | _ \<Rightarrow> [])"
| "op_posts dbg n (Op_Send e b) = [(thread_of n (resource_id e), Send e b)]"
| "op_posts dbg n (Op_Send_Sync e b cb) = [(thread_of n (resource_id e), SendSync e b cb)]"
| "op_posts dbg n (Op_Is_Ready i cb) = [(thread_of n i, IsReady i cb)]"
| "op_posts dbg n (Op_Close i) =
     [(case resource_type i of Local \<Rightarrow> Master | Remote \<Rightarrow> thread_of n i, Close i)]"
| "op_posts dbg n (Op_Post i c) = [(thread_of n i, c)]"
| "op_posts dbg n (Op_Post_Master c) = [(Master, c)]"
| "op_posts dbg n Op_Stop = []"

fun step_posts :: "bool \<Rightarrow> node \<Rightarrow> label \<Rightarrow> (who \<times> WakerCommand) list" where
  "step_posts dbg n (Call op) = op_posts dbg n op"
| "step_posts dbg n l = map (\<lambda>(r, c). (thread_of n r, c)) (posts (label_effs l))"

inductive posting_run :: "env \<Rightarrow> node \<Rightarrow> label list \<Rightarrow> (who \<times> WakerCommand) list \<Rightarrow> node \<Rightarrow> bool"
  for env :: env and n0 :: node where
  Start: "posting_run env n0 [] [] n0"
| Step: "posting_run env n0 tr log n \<Longrightarrow> node_step env n l n' \<Longrightarrow>
    posting_run env n0 (tr @ [l]) (log @ step_posts (debug env) n l) n'"

text \<open>Every run has exactly one sequence of posted commands.\<close>

lemma posting_run_of: "node_run env n0 tr n \<Longrightarrow> \<exists>log. posting_run env n0 tr log n"
  by (induction rule: node_run.induct) (auto intro: posting_run.intros)

lemma posting_run_node: "posting_run env n0 tr log n \<Longrightarrow> node_run env n0 tr n"
  by (induction rule: posting_run.induct) (auto intro: node_run.intros)

definition posts_to :: "who \<Rightarrow> (who \<times> WakerCommand) list \<Rightarrow> WakerCommand list" where
  "posts_to who log = map snd (filter (\<lambda>p. fst p = who) log)"

fun handles :: "who \<Rightarrow> label \<Rightarrow> WakerCommand list" where
  "handles who (Cmd w c _) = (if w = who then [c] else [])"
| "handles who _ = []"

lemma posts_to_simps [simp]: "posts_to who [] = []" "posts_to who (p # ps) = (if fst p = who then [snd p] else []) @ posts_to who ps"
  "posts_to who (ps @ qs) = posts_to who ps @ posts_to who qs"
  by (simp_all add: posts_to_def)

section \<open>The queues\<close>

lemma queue_after_post:
  "post n r c = Done n' \<Longrightarrow> on_duty n who \<Longrightarrow>
   commands (worker_at n' who) = commands (worker_at n who) @ posts_to who [(thread_of n r, c)]"
  by (cases who) (auto simp: post_def to_worker_index_def thread_of_def do_post_def queue_post_def nth_list_update
      split: if_splits)

lemma queue_after_master:
  "commands (worker_at (post_to_master n c) who) = commands (worker_at n who) @ posts_to who [(Master, c)]"
  by (cases who) (auto simp: post_to_master_def do_post_def queue_post_def)

lemma thread_of_cong: "length (workers n') = length (workers n) \<Longrightarrow> thread_of n' = thread_of n"
  by (simp add: thread_of_def fun_eq_iff)

lemma queue_after_deliver:
  "deliver n effs = Done n' \<Longrightarrow> on_duty n who \<Longrightarrow> commands (worker_at n' who) =
   commands (worker_at n who) @ posts_to who (map (\<lambda>(r, c). (thread_of n r, c)) (posts (driver_effs effs)))"
proof (induction n effs rule: deliver.induct)
  case (2 n r c es)
  then obtain n1 where p: "post n r c = Done n1" "deliver n1 es = Done n'" by (auto simp: result_simps)
  from same_but_queues_post [OF p(1)] have "length (workers n1) = length (workers n)" by (simp add: same_but_queues_def)
  with 2 p show ?case by (simp add: queue_after_post thread_of_cong [of n1 n] on_duty_cong [of n1 n])
qed simp_all

lemma handler_listen_queue:
  assumes "handler_listen_with dbg n config t addrs cb = Done n'"
  shows "commands (worker_at n' who) = commands (worker_at n who) @ posts_to who (op_posts dbg n (Op_Listen config t addrs cb))"
proof -
  from assms obtain i g as where gen: "generate dbg (lgen n) (Transport_id t) = Done (i, g)" and as: "addrs = Ok as"
    by (auto simp: handler_listen_with_def handler_next_local_id_def result_simps)
  with assms show ?thesis
    by (cases as) (auto simp: handler_listen_with_def handler_next_local_id_def queue_after_master simp del: worker_at.simps)
qed

lemma queue_after_call:
  assumes "handler_call dbg n op = Done n'" and "on_duty n who"
  shows "commands (worker_at n' who) = commands (worker_at n who) @ posts_to who (op_posts dbg n op)"
proof (cases op)
  case (Op_Listen config t addrs cb)
  with assms show ?thesis by (simp add: handler_call_def handler_listen_queue del: op_posts.simps)
next
  case (Op_Listen_Sync config t addrs cb)
  with assms obtain as where as: "addrs = Ok as" by (auto simp: handler_call_def listen_sync_post_def result_simps)
  with Op_Listen_Sync assms obtain a rest where "as = a # rest" "handler_listen_with dbg n config t (Ok [a]) cb = Done n'"
    by (cases as) (auto simp: handler_call_def listen_sync_post_def)
  with Op_Listen_Sync as handler_listen_queue [OF this(2), of who] show ?thesis by (simp split: exec.splits)
qed (use assms in \<open>auto simp: handler_call_def handler_connect_with_def handler_next_remote_id_def connect_sync_post_def
      to_remote_addr_remote_def handler_send_def handler_send_sync_def handler_is_ready_def handler_close_def handler_stop_def
      queue_after_post queue_after_master result_simps simp del: worker_at.simps split: ResourceType.splits\<close>)

lemma queue_after_step:
  assumes "node_step env n l n'" and "on_duty n who"
  shows "commands (worker_at n who) @ posts_to who (step_posts (debug env) n l) = handles who l @ commands (worker_at n' who)"
  using assms
proof (cases rule: node_step.cases)
  case (User op)
  with assms(2) show ?thesis by (simp add: queue_after_call)
next
  case (Command w v b c q io g ps effs)
  let ?n = "set_worker (n\<lparr>rgen := g\<rparr>) w (v\<lparr>commands := q, draining := b, procs := ps\<rparr>)"
  have "thread_of ?n = thread_of n" by (rule thread_of_cong) simp
  with Command assms(2) show ?thesis
    by (auto simp: queue_after_deliver [OF Command(8)] worker_at_set try_receive_def split: list.splits)
next
  case (Poll w v e i io g ps q effs)
  let ?n = "set_worker (n\<lparr>rgen := g\<rparr>) w (v\<lparr>procs := ps\<rparr>)"
  have "thread_of ?n = thread_of n" by (rule thread_of_cong) simp
  with Poll assms(2) show ?thesis
    by (auto simp: queue_after_deliver [OF Poll(8)] worker_at_set)
qed (auto simp: worker_at_set)


text \<open>Each queue is a channel: what was posted to a thread is what it has handled and what is still queued.\<close>

lemma call_length: "handler_call dbg n op = Done n' \<Longrightarrow> length (workers n') = length (workers n)"
proof (cases op)
  case (Op_Listen_Sync config t addrs cb)
  assume "handler_call dbg n op = Done n'"
  with Op_Listen_Sync obtain as where "addrs = Ok as" by (auto simp: handler_call_def listen_sync_post_def result_simps)
  with Op_Listen_Sync \<open>handler_call dbg n op = Done n'\<close> show ?thesis
    by (cases as) (auto simp: handler_call_def listen_sync_post_def post_to_master_def elim!: handler_listen_with_Done)
qed (auto simp: handler_call_def handler_connect_with_def handler_next_remote_id_def connect_sync_post_def
    handler_send_def handler_send_sync_def handler_is_ready_def handler_close_def handler_stop_def post_to_master_def
    post_def result_simps elim!: handler_listen_with_Done split: ResourceType.splits)

lemma step_length: "node_step env n l n' \<Longrightarrow> length (workers n') = length (workers n)"
  by (induction rule: node_step.induct) (auto simp: same_but_queues_def dest!: call_length deliver_keeps)

lemma posting_run_length: "posting_run env n0 tr log n \<Longrightarrow> length (workers n) = length (workers n0)"
  by (induction rule: posting_run.induct) (auto dest: step_length)

lemma fifo:
  assumes "posting_run env n0 tr log n" and "on_duty n who" and "commands (worker_at n0 who) = []"
  shows "posts_to who log = concat (map (handles who) tr) @ commands (worker_at n who)"
  using assms
proof (induction rule: posting_run.induct)
  case (Step tr log n l n')
  then have "on_duty n who" by (simp add: on_duty_cong [OF step_length [OF Step(2)]])
  with Step queue_after_step [OF Step(2) this] show ?case by simp
qed simp

lemma queues_start: "on_duty (create_node_handler N) who \<Longrightarrow> commands (worker_at (create_node_handler N) who) = []"
  by (cases who) (auto simp: create_node_handler_def split_id_generator_def worker_new_def simp del: upt_Suc)


section \<open>Effects of poll events\<close>

text \<open>A poll event emits, asks the poll and posts; it calls nobody back and sends nothing.\<close>

fun event_effect :: "effect \<Rightarrow> bool" where
  "event_effect (Emit _) = True"
| "event_effect (Poll_Call _) = True"
| "event_effect (Post _ _) = True"
| "event_effect _ = False"

lemma resolve_pending_effects:
  assumes "resolve_pending_remote A mio io d remote e = Some (Done (io', d', remote', effs))"
  shows "\<forall>x \<in> set effs. event_effect x"
proof -
  from assms obtain io1 res st where "pending A io (resource remote) = Some (Done (io1, res, st))"
    by (auto simp: resolve_pending_remote_def result_simps)
  with assms show ?thesis by (cases st) (auto simp: resolve_pending_remote_def Let_def result_simps split: if_splits)
qed

lemma read_from_remote_effects:
  assumes "read_from_remote A mio io d remote e = Some (Done (d', remote', effs))"
  shows "\<forall>x \<in> set effs. event_effect x"
proof -
  from assms obtain io1 res ds st where "receive A io (resource remote) = Some (Done (io1, res, ds, st))"
    by (auto simp: read_from_remote_def result_simps)
  with assms show ?thesis by (cases st) (auto simp: read_from_remote_def Let_def result_simps split: if_splits)
qed

lemma drop_clone_effects: "drop_clone A mio d i remote = Done effs \<Longrightarrow> \<forall>x \<in> set effs. event_effect x"
  by (auto simp: drop_clone_def result_simps split: if_splits)

lemma post_accepted_event_effects:
  "post_accepted A dbg io d loc l as = Done (d', effs) \<Longrightarrow> \<forall>x \<in> set effs. event_effect x"
proof (induction as arbitrary: d effs)
  case (Cons x as)
  then show ?case by (cases x) (fastforce simp: result_simps next_remote_id_def)+
qed simp

lemma process_read_effects:
  assumes "process_read A mio dbg io d i = Some (Done (d', effs))"
  shows "\<forall>x \<in> set effs. event_effect x"
  using assms
  by (auto simp: process_read_def read_from_local_def Let_def result_simps
      split: ResourceType.splits option.splits if_splits
      dest!: resolve_pending_effects read_from_remote_effects drop_clone_effects post_accepted_event_effects)

lemma process_write_effects:
  assumes "process_write A mio io d i = Some (Done (d', effs))"
  shows "\<forall>x \<in> set effs. event_effect x"
  using assms
  by (auto simp: process_write_def write_to_remote_def Let_def result_simps
      split: ResourceType.splits option.splits if_splits dest!: resolve_pending_effects drop_clone_effects)

lemma node_event_effects:
  assumes "process_poll_event env (\<lambda>_. False) ios g ps q e = Some (Done (g', ps', q', effs))"
    and "e = NetworkRead i \<or> e = NetworkWrite i"
  shows "\<forall>x \<in> set (driver_effs effs). event_effect x"
  using assms
  by (auto simp: process_poll_event_def ssl_driver_defs result_simps elim!: on_processor_cases
      dest!: process_read_effects process_write_effects)


section \<open>Boxed payloads\<close>

text \<open>
  What a transport puts into a box: \<open>accept_box\<close> when it accepts a connection, \<open>connect_box\<close> when it starts
  one. The driver posts nothing else.
\<close>

locale boxing_adapter =
  fixes A :: "('r, 'l, 'io) adapter" and accept_box :: "payload \<Rightarrow> bool" and connect_box :: "payload \<Rightarrow> bool"
  assumes accepts_boxed: "accept A io loc = Some (io', accepted) \<Longrightarrow> AcceptedRemote a s p \<in> set accepted \<Longrightarrow> accept_box p"
    and connects_boxed: "connect_with A io config ra = Done (Ok (s, la, peer, p)) \<Longrightarrow> connect_box p"
begin

fun boxed :: "u8 \<Rightarrow> WakerCommand \<Rightarrow> bool" where
  "boxed a (AcceptRegisterRemote _ rp _ p) = (adapter_id (fst rp) = a \<and> accept_box p)"
| "boxed a (ConnectRegisterRemote _ rp _ p _) = (adapter_id (fst rp) = a \<and> connect_box p)"
| "boxed a _ = False"

lemma command_boxed:
  assumes "driver_command A mio io d c = Some (Done (d', effs))" and "cmd_id c = Some i" and "(r, c') \<in> set (posts effs)"
  shows "boxed (adapter_id i) c'"
proof (cases c)
  case (Connect cf j ra cb)
  with assms have "process_connect A io d cf j ra cb = Done (d', effs)" by simp
  then show ?thesis
    using assms(2,3) Connect by (cases rule: process_connect_cases) (auto dest: connects_boxed)
next
  case (Listen cf l a cb)
  with assms have "process_listen A mio io d cf l a cb = Done (d', effs)" by simp
  then show ?thesis using assms(3) by (cases rule: process_listen_cases) auto
qed (use assms in \<open>auto simp: process_accept_register_remote_def
        process_connect_register_remote_def process_close_def process_is_ready_def quiet_send_def process_send_def
        registry_deregister_def Let_def result_simps split: ResourceType.splits option.splits if_splits\<close>)

lemma post_accepted_boxed:
  "post_accepted A True io d loc l as = Done (d', effs) \<Longrightarrow> \<forall>a s p. AcceptedRemote a s p \<in> set as \<longrightarrow> accept_box p \<Longrightarrow>
   (r, c) \<in> set (posts effs) \<Longrightarrow> boxed (adapter_id l) c"
proof (induction as arbitrary: d effs)
  case (Cons x as)
  show ?case
  proof (cases x)
    case (AcceptedRemote a s p)
    with Cons obtain la j g effs2 where gen: "generate True (remote_id_generator d) (adapter_id l) = Done (j, g)"
      and *: "post_accepted A True io (d\<lparr>remote_id_generator := g\<rparr>) loc l as = Done (d', effs2)"
      "effs = Post j (AcceptRegisterRemote (l, la) (j, a) s p) # effs2"
      by (auto simp: result_simps next_remote_id_def)
    from Cons.prems(3) *(2) consider "c = AcceptRegisterRemote (l, la) (j, a) s p" | "(r, c) \<in> set (posts effs2)" by auto
    then show ?thesis
    proof cases
      case 1
      with Cons.prems(2) AcceptedRemote generate_debug(1) [OF gen] show ?thesis by simp
    next
      case 2
      with Cons.IH [OF *(1)] Cons.prems(2) show ?thesis by simp
    qed
  next
    case (AcceptedData a data)
    with Cons show ?thesis by (auto simp: result_simps)
  qed
qed simp

lemma read_boxed:
  assumes "process_read A mio True io d i = Some (Done (d', effs))" and "(r, c) \<in> set (posts effs)"
  shows "boxed (adapter_id i) c"
proof (cases "resource_type i")
  case Local
  with assms show ?thesis
    by (auto simp: process_read_def read_from_local_def split: option.splits
        intro: post_accepted_boxed dest: accepts_boxed)
next
  case Remote
  with assms have "posts effs = []"
    by (auto simp: process_read_def Let_def result_simps split: option.splits if_splits
        dest!: resolve_pending_posts read_from_remote_posts drop_clone_posts)
  with assms(2) show ?thesis by simp
qed

end

lemma accept_loop_boxes:
  assumes "accept_loop acc p n accepted = Some res" and "AcceptedRemote a s q \<in> set res"
  shows "AcceptedRemote a s q \<in> set accepted \<or> q = p"
proof -
  have "accept_loop acc p n accepted = Some res \<Longrightarrow>
      \<forall>a s q. AcceptedRemote a s q \<in> set res \<longrightarrow> AcceptedRemote a s q \<in> set accepted \<or> q = p" for acc p n accepted res
    by (erule accept_loop.raw_induct [rotated]) (fastforce split: sum.splits if_splits prod.splits)
  with assms show ?thesis by blast
qed

interpretation tcpb: boxing_adapter TcpAdapter "\<lambda>p. \<exists>k. p = TcpAcceptPayload k" "\<lambda>p. \<exists>k. p = TcpConnectPayload k"
  by unfold_locales
    (auto simp: TcpAdapter_def tcp_accept_def tcp_connect_with_def result_simps dest!: accept_loop_boxes)

interpretation sslb: boxing_adapter SslAdapter "\<lambda>p. \<exists>k c. p = SslAcceptPayload k c" "\<lambda>p. \<exists>k d. p = SslConnectPayload k d"
  by unfold_locales
    (auto simp: SslAdapter_def ssl_accept_def ssl_connect_with_def result_simps dest!: accept_loop_boxes)


section \<open>Casts\<close>

text \<open>
  The casts of the two mounted drivers: a command that registers a remote is handled by the driver its
  id names, which casts the box to its own payload.
\<close>

fun cast_ok :: "WakerCommand \<Rightarrow> bool" where
  "cast_ok (AcceptRegisterRemote _ rp _ p) =
     ((adapter_id (fst rp) = Transport_id Tcp \<longrightarrow> downcast_unchecked as_TcpAcceptPayload p \<noteq> Panic) \<and>
      (adapter_id (fst rp) = Transport_id Ssl \<longrightarrow> downcast_unchecked as_SslAcceptPayload p \<noteq> Panic))"
| "cast_ok (ConnectRegisterRemote _ rp _ p _) =
     ((adapter_id (fst rp) = Transport_id Tcp \<longrightarrow> downcast_unchecked as_TcpConnectPayload p \<noteq> Panic) \<and>
      (adapter_id (fst rp) = Transport_id Ssl \<longrightarrow> downcast_unchecked as_SslConnectPayload p \<noteq> Panic))"
| "cast_ok _ = True"

lemma boxed_cast_ok: "tcpb.boxed (Transport_id Tcp) c \<Longrightarrow> cast_ok c \<and> registers c \<noteq> []"
  "sslb.boxed (Transport_id Ssl) c \<Longrightarrow> cast_ok c \<and> registers c \<noteq> []"
  by (cases c; auto)+

lemma plain_command_cast_ok: "plain_command c \<Longrightarrow> cast_ok c \<and> registers c = []"
  by (cases c) simp_all

lemma op_posts_cast_ok: "p \<in> set (op_posts dbg n op) \<Longrightarrow> plain_op op \<Longrightarrow> cast_ok (snd p) \<and> registers (snd p) = []"
  by (cases op) (auto split: exec.splits sum.splits list.splits dest: plain_command_cast_ok)

lemma table_posts_cast_ok:
  assumes on: "on_processor tc sc g ps a = Some (Done (g', ps', es))" and tab: "table ps dt ds"
    and tcp: "\<And>d d' es r c. tc d = Some (Done (d', es)) \<Longrightarrow> (r, c) \<in> set (posts es) \<Longrightarrow> tcpb.boxed a c"
    and ssl: "\<And>d d' es r c. sc d = Some (Done (d', es)) \<Longrightarrow> (r, c) \<in> set (posts es) \<Longrightarrow> sslb.boxed a c"
    and "(r, c) \<in> set (posts es)"
  shows "cast_ok c \<and> registers c \<noteq> []"
  using on tab
proof (cases rule: on_processor_on_table)
  case (tcp dt')
  with assms show ?thesis by (intro boxed_cast_ok(1)) auto
next
  case (ssl ds')
  with assms show ?thesis by (intro boxed_cast_ok(2)) auto
qed

lemma node_tables: "node_inv env tr n \<Longrightarrow> on_duty n who \<Longrightarrow> \<exists>dt ds. table (procs (worker_at n who)) dt ds"
  unfolding node_inv_def worker_runs_def by blast

lemma step_posts_cast_ok:
  assumes inv: "node_inv env tr n" and dbg: "debug env" and step: "node_step env n l n'" and p: "p \<in> set (step_posts True n l)"
  shows "cast_ok (snd p) \<and> ((\<exists>op. l = Call op) \<or> registers (snd p) \<noteq> [])"
  using step
proof (cases rule: node_step.cases)
  case (User op)
  with p show ?thesis by (auto dest: op_posts_cast_ok)
next
  case (Command who w b c q io g ps effs)
  obtain dt ds where tab: "table (procs w) dt ds" using node_tables [OF inv] Command(2,3) by blast
  show ?thesis
  proof (cases "cmd_id c")
    case None
    with Command p show ?thesis by (auto simp: process_command_eq)
  next
    case (Some i)
    with Command obtain es where "effs = map Driver_Effect es"
      and on: "on_processor (\<lambda>d. driver_command TcpAdapter (env_mio env) (tcp_io io) d c)
        (\<lambda>d. driver_command SslAdapter (env_mio env) (ssl_io io) d c) (rgen n) (procs w) (adapter_id i) = Some (Done (g, ps, es))"
      by (auto simp: process_command_eq result_simps)
    with Command(1) p obtain r where "(r, snd p) \<in> set (posts es)" by auto
    then have "cast_ok (snd p) \<and> registers (snd p) \<noteq> []"
      by (rule table_posts_cast_ok [OF on tab, rotated 2]) (use Some in \<open>auto dest: tcpb.command_boxed sslb.command_boxed\<close>)
    then show ?thesis by blast
  qed
next
  case (Poll who w e i io g ps q effs)
  obtain dt ds where tab: "table (procs w) dt ds" using node_tables [OF inv] Poll(2,3) by blast
  show ?thesis
  proof (cases "e = NetworkRead i")
    case True
    with Poll dbg obtain es where "effs = map Driver_Effect es"
      and on: "on_processor (\<lambda>d. process_read TcpAdapter (env_mio env) True (tcp_io io) d i)
        (\<lambda>d. process_read SslAdapter (env_mio env) True (ssl_io io) d i) (rgen n) (procs w) (adapter_id i) = Some (Done (g, ps, es))"
      by (auto simp: process_poll_event_def ssl_driver_defs result_simps)
    with Poll(1) p obtain r where "(r, snd p) \<in> set (posts es)" by auto
    then have "cast_ok (snd p) \<and> registers (snd p) \<noteq> []"
      by (rule table_posts_cast_ok [OF on tab, rotated 2]) (auto dest: tcpb.read_boxed sslb.read_boxed)
    then show ?thesis by blast
  next
    case False
    with Poll obtain es where "effs = map Driver_Effect es"
      and on: "on_processor (\<lambda>d. process_write TcpAdapter (env_mio env) (tcp_io io) d i)
        (\<lambda>d. process_write SslAdapter (env_mio env) (ssl_io io) d i) (rgen n) (procs w) (adapter_id i) = Some (Done (g, ps, es))"
      by (auto simp: process_poll_event_def ssl_driver_defs result_simps)
    with Poll(1) p obtain r where "(r, snd p) \<in> set (posts es)" by auto
    then have "cast_ok (snd p) \<and> registers (snd p) \<noteq> []"
      by (rule table_posts_cast_ok [OF on tab, rotated 2]) (auto dest: process_write_posts)
    then show ?thesis by blast
  qed
qed (use p in auto)

lemma log_cast_ok:
  assumes "posting_run env (create_node_handler N) tr log n" and "debug env" and "p \<in> set log"
  shows "cast_ok (snd p)"
  using assms
proof (induction rule: posting_run.induct)
  case (Step tr log n l n')
  then show ?case
    using step_posts_cast_ok [OF node_inv_run [OF posting_run_node [OF Step(1)]] _ Step(2)] by (cases p) auto
qed simp


section \<open>Sends\<close>

text \<open>The data of the sends for an endpoint: those a command carries, and those a call of the user gives.\<close>

fun data_for :: "Endpoint \<Rightarrow> WakerCommand \<Rightarrow> bytes list" where
  "data_for e (Send e' data) = (if e' = e then [data] else [])"
| "data_for e (SendSync e' data _) = (if e' = e then [data] else [])"
| "data_for e _ = []"

fun sent_to :: "Endpoint \<Rightarrow> label \<Rightarrow> bytes list" where
  "sent_to e (Call (Op_Send e' data)) = (if e' = e then [data] else [])"
| "sent_to e (Call (Op_Send_Sync e' data _)) = (if e' = e then [data] else [])"
| "sent_to e _ = []"

fun handled_for :: "Endpoint \<Rightarrow> label \<Rightarrow> bytes list" where
  "handled_for e (Cmd _ c _) = data_for e c"
| "handled_for e _ = []"

text \<open>What became of the sends: their statuses and the bytes the sockets took, in order.\<close>

fun handed_for :: "Endpoint \<Rightarrow> effect list \<Rightarrow> (SendStatus \<times> bytes) list" where
  "handed_for e [] = []"
| "handed_for e (Handed e' st bs # es) = (if e' = e then [(st, bs)] else []) @ handed_for e es"
| "handed_for e (_ # es) = handed_for e es"

definition taken :: "bytes \<Rightarrow> SendStatus \<times> bytes \<Rightarrow> bool" where
  "taken data r \<longleftrightarrow> prefix (snd r) data \<and> (fst r = Sent \<longrightarrow> snd r = data)"

lemma handed_for_append [simp]: "handed_for e (xs @ ys) = handed_for e xs @ handed_for e ys"
  by (induction xs rule: handed_for.induct) auto

lemma handed_for_map [simp]:
  "handed_for e (map Poll_Call cs) = []" "handed_for e (map (\<lambda>x. Emit (f x)) xs) = []"
  by (induction cs, simp_all) (induction xs, simp_all)

text \<open>What a transport promises: a send puts a prefix of the data on the wire, all of it when it says so.\<close>

locale sending_adapter =
  fixes A :: "('r, 'l, 'io) adapter"
  assumes sends_prefix: "send A io r data = Some (Done (io', r', st)) \<Longrightarrow>
      \<exists>sent. sent_wire A io' = sent_wire A io @ sent \<and> taken data (st, sent)"
    and no_send_to: "send_to A io l a data \<noteq> Done st"
begin

lemma process_send_taken:
  assumes "process_send A io d e data = Some (Done (io', d', st))"
  shows "taken data (st, drop (length (sent_wire A io)) (sent_wire A io'))"
  using assms
  by (auto simp: process_send_def taken_def no_send_to Let_def result_simps split: ResourceType.splits option.splits if_splits
      dest!: sends_prefix)

lemma command_hands:
  assumes "driver_command A mio io d c = Some (Done (d', effs))"
  shows "list_all2 taken (data_for e c) (handed_for e effs)"
proof (cases c)
  case (Listen cf l a cb)
  with assms have "process_listen A mio io d cf l a cb = Done (d', effs)" by simp
  then show ?thesis by (cases rule: process_listen_cases) (auto simp: Listen)
next
  case (Connect cf i ra cb)
  with assms have "process_connect A io d cf i ra cb = Done (d', effs)" by simp
  then show ?thesis by (cases rule: process_connect_cases) (auto simp: Connect)
qed (use assms in \<open>auto simp: process_accept_register_remote_def process_connect_register_remote_def process_close_def
      process_is_ready_def quiet_send_def Let_def result_simps dest!: process_send_taken
      split: ResourceType.splits option.splits if_splits\<close>)

end

lemma tcp_send_loop_taken:
  "tcp_send_loop k io data t = Done (io', st) \<Longrightarrow>
   \<exists>sent. wire io' = wire io @ sent \<and> prefix sent (drop t data) \<and> (st = Sent \<longrightarrow> sent = drop t data)"
proof (induction k arbitrary: io t)
  case (Suc k)
  let ?io = "io\<lparr>writes := \<lambda>k. writes io (Suc k)\<rparr>"
  from Suc.prems have t: "t \<le> length data" by (auto split: if_splits)
  show ?case
  proof (cases "writes io 0 (drop t data)")
    case (Inl e)
    with Suc.prems t Suc.IH [of ?io t] show ?thesis by (cases "e = WouldBlock") auto
  next
    case (Inr n)
    let ?io' = "?io\<lparr>wire := wire io @ take n (drop t data)\<rparr>"
    show ?thesis
    proof (cases "t + n = length data")
      case True
      with Inr Suc.prems t show ?thesis by (auto intro: exI [of _ "drop t data"])
    next
      case False
      with Inr Suc.prems t have "tcp_send_loop k ?io' data (t + n) = Done (io', st)" by (simp add: Let_def)
      from Suc.IH [OF this] obtain sent where "wire io' = wire io @ take n (drop t data) @ sent"
        "prefix sent (drop (t + n) data)" "st = Sent \<longrightarrow> sent = drop (t + n) data" by auto
      then show ?thesis
        by (intro exI [of _ "take n (drop t data) @ sent"]) (metis same_prefix_prefix append_assoc take_drop_rest)
    qed
  qed
qed simp

lemma ssl_send_loop_taken:
  "ssl_send_loop io data t = Some (Done (io', st)) \<Longrightarrow>
   \<exists>sent. wire io' = wire io @ sent \<and> prefix sent (drop t data) \<and> (st = Sent \<longrightarrow> sent = drop t data)"
proof -
  have "ssl_send_loop io data t = Some r \<Longrightarrow> \<forall>io' st. r = Done (io', st) \<longrightarrow>
      (\<exists>sent. wire io' = wire io @ sent \<and> prefix sent (drop t data) \<and> (st = Sent \<longrightarrow> sent = drop t data))" for r
  proof (induction rule: ssl_send_loop.raw_induct [rotated, consumes 1, case_names turn])
    case (turn loop io data t r)
    show ?case
    proof (cases "t \<le> length data")
      case True
      show ?thesis
      proof (cases "writes io 0 (drop t data)")
        case (Inl e)
        with turn True show ?thesis by (cases "e = WouldBlock") fastforce+
      next
        case (Inr n)
        let ?io' = "next_write io\<lparr>wire := wire io @ take n (drop t data)\<rparr>"
        show ?thesis
        proof (cases "t + n = length data")
          case True
          with Inr turn(2) \<open>t \<le> length data\<close> show ?thesis by (auto intro: exI [of _ "drop t data"])
        next
          case False
          with Inr turn(2) True have "loop ?io' data (t + n) = Some r" by (simp add: Let_def)
          from turn(1) [OF this] have rest: "r = Done (io', st) \<Longrightarrow> \<exists>sent. wire io' = wire io @ take n (drop t data) @ sent \<and>
              prefix sent (drop (t + n) data) \<and> (st = Sent \<longrightarrow> sent = drop (t + n) data)" for io' st by simp
          show ?thesis
          proof (intro allI impI)
            fix io' st assume "r = Done (io', st)"
            from rest [OF this] obtain sent where "wire io' = wire io @ take n (drop t data) @ sent"
              "prefix sent (drop (t + n) data)" "st = Sent \<longrightarrow> sent = drop (t + n) data" by blast
            then show "\<exists>sent. wire io' = wire io @ sent \<and> prefix sent (drop t data) \<and> (st = Sent \<longrightarrow> sent = drop t data)"
              by (intro exI [of _ "take n (drop t data) @ sent"]) (metis same_prefix_prefix append_assoc take_drop_rest)
          qed
        qed
      qed
    qed (use turn(2) in auto)
  qed
  then show "ssl_send_loop io data t = Some (Done (io', st)) \<Longrightarrow>
    \<exists>sent. wire io' = wire io @ sent \<and> prefix sent (drop t data) \<and> (st = Sent \<longrightarrow> sent = drop t data)" by blast
qed

interpretation tcps: sending_adapter TcpAdapter
  by unfold_locales
    (auto simp: TcpAdapter_def tcp_send_def taken_def send_to_default_def result_simps dest!: tcp_send_loop_taken)

interpretation ssls: sending_adapter SslAdapter
  by unfold_locales
    (auto simp: SslAdapter_def ssl_send_def taken_def send_to_default_def result_simps split: SslStream.splits
      dest!: ssl_send_loop_taken)

text \<open>A step hands to the transports what the command it handles carries.\<close>

lemma event_effects_handed: "\<forall>x \<in> set effs. event_effect x \<Longrightarrow> handed_for e effs = []"
  by (induction effs rule: handed_for.induct) auto

lemma step_hands:
  assumes "node_step env n l n'"
  shows "list_all2 taken (handled_for e l) (handed_for e (label_effs l))"
  using assms
proof (cases rule: node_step.cases)
  case (Command who w b c q io g ps effs)
  show ?thesis
  proof (cases "cmd_id c")
    case None
    with Command show ?thesis by (cases c) (auto simp: process_command_eq)
  next
    case (Some i)
    with Command obtain es where es: "effs = map Driver_Effect es"
      "on_processor (\<lambda>d. driver_command TcpAdapter (env_mio env) (tcp_io io) d c)
        (\<lambda>d. driver_command SslAdapter (env_mio env) (ssl_io io) d c) (rgen n) (procs w) (adapter_id i) = Some (Done (g, ps, es))"
      by (auto simp: process_command_eq result_simps)
    from es(2) have "list_all2 taken (data_for e c) (handed_for e es)"
      by (cases rule: on_processor_cases) (auto dest: tcps.command_hands ssls.command_hands)
    with Command(1) es(1) show ?thesis by simp
  qed
next
  case (Poll who w e' i io g ps q effs)
  with node_event_effects [OF Poll(7,6)] show ?thesis by (simp add: event_effects_handed)
qed simp_all

lemma run_hands:
  "node_run env n0 tr n \<Longrightarrow>
   list_all2 taken (concat (map (handled_for e) tr)) (handed_for e (concat (map label_effs tr)))"
  by (induction rule: node_run.induct) (auto intro!: list_all2_appendI dest: step_hands)

lemma data_for_registers: "registers c \<noteq> [] \<Longrightarrow> data_for e c = []"
  by (cases c) simp_all

lemma op_posts_data:
  "plain_op op \<Longrightarrow> concat (map (\<lambda>p. data_for e (snd p)) (op_posts dbg n op)) = sent_to e (Call op)"
  "plain_op op \<Longrightarrow> p \<in> set (op_posts dbg n op) \<Longrightarrow> data_for e (snd p) \<noteq> [] \<Longrightarrow> fst p = thread_of n (resource_id e)"
proof -
  have "plain_command c \<Longrightarrow> data_for e c = []" for c by (cases c) simp_all
  then show "plain_op op \<Longrightarrow> concat (map (\<lambda>p. data_for e (snd p)) (op_posts dbg n op)) = sent_to e (Call op)"
    "plain_op op \<Longrightarrow> p \<in> set (op_posts dbg n op) \<Longrightarrow> data_for e (snd p) \<noteq> [] \<Longrightarrow> fst p = thread_of n (resource_id e)"
    by (cases op; auto split: exec.splits sum.splits list.splits if_splits)+
qed

lemma step_posts_data:
  assumes "node_inv env tr n" and "debug env" and "node_step env n l n'"
  shows "concat (map (\<lambda>p. data_for e (snd p)) (step_posts True n l)) = sent_to e l"
    and "p \<in> set (step_posts True n l) \<Longrightarrow> data_for e (snd p) \<noteq> [] \<Longrightarrow> fst p = thread_of n (resource_id e)"
proof -
  have other: "data_for e (snd p) = []" if "p \<in> set (step_posts True n l)" "\<nexists>op. l = Call op" for p
    using step_posts_cast_ok [OF assms that(1)] that(2) by (blast intro: data_for_registers)
  have "concat (map (\<lambda>p. data_for e (snd p)) (step_posts True n l)) = sent_to e l \<and>
      (\<forall>p \<in> set (step_posts True n l). data_for e (snd p) \<noteq> [] \<longrightarrow> fst p = thread_of n (resource_id e))"
  proof (cases "\<exists>op. l = Call op")
    case True
    then obtain op where l: "l = Call op" by blast
    with assms(3) have "plain_op op" by (auto elim: node_step.cases)
    note data = op_posts_data [OF this]
    show ?thesis unfolding l step_posts.simps(1) data(1) by (blast intro: data(2))
  next
    case False
    then have "sent_to e l = []" by (cases l) auto
    with False other show ?thesis by auto
  qed
  then show "concat (map (\<lambda>p. data_for e (snd p)) (step_posts True n l)) = sent_to e l"
    "p \<in> set (step_posts True n l) \<Longrightarrow> data_for e (snd p) \<noteq> [] \<Longrightarrow> fst p = thread_of n (resource_id e)" by auto
qed

lemma log_data:
  assumes "posting_run env (create_node_handler N) tr log n" and "debug env"
  shows "concat (map (\<lambda>p. data_for e (snd p)) log) = concat (map (sent_to e) tr) \<and>
    (\<forall>p \<in> set log. data_for e (snd p) \<noteq> [] \<longrightarrow> fst p = thread_of n (resource_id e))"
  using assms
proof (induction rule: posting_run.induct)
  case (Step tr log n l n')
  note inv = node_inv_run [OF posting_run_node [OF Step(1)] Step(4)]
  have "thread_of n' = thread_of n" by (rule thread_of_cong [OF step_length [OF Step(2)]])
  then show ?case
    using Step step_posts_data [OF inv Step(4,2), where e = e] by (auto simp: Step(4))
qed simp

lemma handled_posted:
  assumes "posting_run env (create_node_handler N) tr log n" and "Cmd w c effs \<in> set tr"
  shows "(w, c) \<in> set log"
  using assms
proof (induction rule: posting_run.induct)
  case (Step tr log n l n')
  show ?case
  proof (cases "Cmd w c effs \<in> set tr")
    case False
    with Step.prems have "l = Cmd w c effs" by simp
    with Step(2) obtain q where duty: "on_duty n w" and "try_receive (commands (worker_at n w)) = Some (c, q)"
      by (auto elim: node_step.cases)
    then have "c \<in> set (commands (worker_at n w))" by (auto simp: try_receive_def split: list.splits)
    moreover have "on_duty (create_node_handler N) w"
      using duty posting_run_length [OF Step(1)] by (simp add: on_duty_cong [of n])
    ultimately have "c \<in> set (posts_to w log)" using fifo [OF Step(1) duty queues_start] by simp
    then show ?thesis by (auto simp: posts_to_def)
  qed (use Step in auto)
qed simp

lemma concat_map_concat: "concat (map f (concat (map g xs))) = concat (map (\<lambda>x. concat (map f (g x))) xs)"
  by (induction xs) simp_all

lemma concat_map_filter: "(\<And>x. x \<in> set xs \<Longrightarrow> \<not> P x \<Longrightarrow> f x = []) \<Longrightarrow> concat (map f (filter P xs)) = concat (map f xs)"
  by (induction xs) auto


lemma sends_handled:
  assumes "node_run env (create_node_handler N) tr n" and "debug env" and "N \<noteq> 0"
  shows "concat (map (sent_to e) tr) = concat (map (handled_for e) tr) @
    concat (map (data_for e) (commands (worker_at n (Worker (unat (raw (resource_id e)) mod N)))))"
proof -
  obtain log where run: "posting_run env (create_node_handler N) tr log n" using posting_run_of [OF assms(1)] by blast
  let ?w = "Worker (unat (raw (resource_id e)) mod N)"
  have len: "length (workers n) = N" using run_length [OF assms(1,2)] .
  then have w: "thread_of n (resource_id e) = ?w" and duty: "on_duty n ?w" using assms(3) by (simp_all add: thread_of_def)
  note data = log_data [OF run assms(2), of e, unfolded w]
  have "on_duty (create_node_handler N) ?w" using duty len posting_run_length [OF run] by (simp add: on_duty_cong [of n])
  then have queue: "posts_to ?w log = concat (map (handles ?w) tr) @ commands (worker_at n ?w)"
    by (intro fifo [OF run duty] queues_start)
  have here: "data_for e c = []" if "Cmd w c effs \<in> set tr" "w \<noteq> ?w" for w c effs
    using data handled_posted [OF run that(1)] that(2) by force
  have handled: "concat (map (data_for e) (handles ?w l)) = handled_for e l" if "l \<in> set tr" for l
    using here that by (cases l) auto
  have "concat (map (sent_to e) tr) = concat (map (\<lambda>p. data_for e (snd p)) (filter (\<lambda>p. fst p = ?w) log))"
    unfolding data [THEN conjunct1, symmetric] using data [THEN conjunct2]
    by (intro concat_map_filter [symmetric]) blast
  also have "\<dots> = concat (map (data_for e) (posts_to ?w log))" by (simp add: posts_to_def comp_def)
  also have "\<dots> = concat (map (handled_for e) tr) @ concat (map (data_for e) (commands (worker_at n ?w)))"
  proof -
    have same: "map (\<lambda>l. concat (map (data_for e) (handles ?w l))) tr = map (handled_for e) tr" using handled by simp
    show ?thesis unfolding queue map_append concat_append concat_map_concat same ..
  qed
  finally show ?thesis .
qed

section \<open>Properties\<close>

text \<open>
  C17: The queue of each thread is a first-in first-out channel: in every run, what was posted to a thread,
  by the user's calls and by the other threads, is exactly what it has handled, in that order, followed by
  what is still in its queue. No command is lost, handled twice, overtaken or handled by another thread.
\<close>
theorem commands_fifo:
  assumes "posting_run env (create_node_handler N) tr log n" and "on_duty n who"
  shows "posts_to who log = concat (map (handles who) tr) @ commands (worker_at n who)"
proof -
  have "on_duty (create_node_handler N) who"
    using assms(2) posting_run_length [OF assms(1)] by (simp add: on_duty_cong [of n])
  then show ?thesis by (intro fifo [OF assms] queues_start)
qed

theorem commands_fifo_witness:
  "\<exists>tr log n. posting_run demo_env (create_node_handler 1) tr log n \<and> tr \<noteq> [] \<and>
     posts_to (Worker 0) log = concat (map (handles (Worker 0)) tr) @ commands (worker_at n (Worker 0))"
proof -
  obtain tr n where run: "node_run demo_env (create_node_handler 1) tr n" and "workers n \<noteq> []"
    and events: "events_of demo_id (concat (map label_effs tr)) = [Connected (Endpoint_new demo_id (V4 7 80)) True]"
    by (rule demo_node_run)
  from posting_run_of [OF run] obtain log where "posting_run demo_env (create_node_handler 1) tr log n" by blast
  moreover from this \<open>workers n \<noteq> []\<close> have "posts_to (Worker 0) log = concat (map (handles (Worker 0)) tr) @
      commands (worker_at n (Worker 0))" by (intro commands_fifo) simp_all
  moreover from events have "tr \<noteq> []" by auto
  ultimately show ?thesis by blast
qed

text \<open>
  C3: Data sent to an endpoint reaches its transport in the order of the calls of \<open>send\<close> and \<open>send_sync\<close>, from whatever
  threads they come, each once and unchanged: what the calls gave up to now splits into a first part, of which
  each element was given to \<open>process_send\<close> of the driver, and the rest, which is queued at the one thread that serves
  the endpoint. Of each element of the first part, in order, the sockets took a prefix, and all of it if the status
  of the send is \<open>Sent\<close>.
\<close>
theorem sends_in_order:
  assumes "node_run env (create_node_handler N) tr n" and "debug env" and "N \<noteq> 0"
  shows "\<exists>handled. concat (map (sent_to e) tr) =
      handled @ concat (map (data_for e) (commands (worker_at n (Worker (unat (raw (resource_id e)) mod N))))) \<and>
    list_all2 taken handled (handed_for e (concat (map label_effs tr)))"
  using sends_handled [OF assms] run_hands [OF assms(1)] by blast

lemma demo_send_handled:
  "process_command demo_env demo_io demo_gen demo_procs (Send (Endpoint_new demo_id (V4 7 80)) [1, 2]) =
     Some (Done (demo_gen, demo_procs[0 := TcpDriver (demo_driver True)],
       [Driver_Effect (Handed (Endpoint_new demo_id (V4 7 80)) Sent [1, 2])]))"
proof -
  have d: "demo_driver True\<lparr>remote_id_generator := demo_gen\<rparr> = demo_driver True" by (simp add: demo_driver_def)
  have send: "\<exists>io'. tcp_send os_demo r [1, 2] = Some (Done (io', r, Sent)) \<and> wire io' = [1, 2]" for r
    by (simp add: tcp_send_def os_demo_def numeral_eq_Suc)
  have "driver_command TcpAdapter (env_mio demo_env) (tcp_io demo_io) (demo_driver True\<lparr>remote_id_generator := demo_gen\<rparr>)
      (Send (Endpoint_new demo_id (V4 7 80)) [1, 2]) =
    Some (Done (demo_driver True, [Handed (Endpoint_new demo_id (V4 7 80)) Sent [1, 2]]))"
    using send [of "\<lparr>tcp_stream = 5, tcp_keepalive_opt = None\<rparr>"]
    by (auto simp: d quiet_send_def process_send_def Endpoint_new_def demo_ids registry_get_def TcpAdapter_def demo_io_def
        demo_driver_def registry_shared_def os_demo_def Let_def)
  from process_command_tcp [OF demo_table _ demo_id_eq(2) this] show ?thesis
    by (simp add: demo_driver_def Endpoint_new_def)
qed

theorem sends_in_order_witness:
  "\<exists>tr n. node_run demo_env (create_node_handler 1) tr n \<and>
     concat (map (sent_to (Endpoint_new demo_id (V4 7 80))) tr) = [[1, 2], [3]] \<and>
     handed_for (Endpoint_new demo_id (V4 7 80)) (concat (map label_effs tr)) = [(Sent, [1, 2])] \<and>
     concat (map (data_for (Endpoint_new demo_id (V4 7 80))) (commands (worker_at n (Worker 0)))) = [[3]]"
proof -
  let ?e = "Endpoint_new demo_id (V4 7 80)" and ?m = "demo_worker 7000 [] False 1023 demo_tried"
  let ?q = "[Send ?e [1, 2], Send ?e [3]]"
  let ?n = "demo_node ?m (demo_worker 7001 [Send ?e [3]] False 1023 (demo_procs[0 := TcpDriver (demo_driver True)]))"
  let ?tr = "demo_trace @ [Call (Op_Send ?e [1, 2])] @ [Call (Op_Send ?e [3])] @ [Silent] @
    [Cmd (Worker 0) (Send ?e [1, 2]) [Driver_Effect (Handed ?e Sent [1, 2])]]"
  have "node_step demo_env demo_end (Call (Op_Send ?e [1, 2])) (demo_node ?m (demo_worker 7001 [Send ?e [1, 2]] True 0 demo_procs))"
    by (rule node_step.User) (simp_all add: handler_call_def handler_send_def demo_end_def demo_defs)
  moreover have "node_step demo_env (demo_node ?m (demo_worker 7001 [Send ?e [1, 2]] True 0 demo_procs)) (Call (Op_Send ?e [3]))
      (demo_node ?m (demo_worker 7001 ?q True 0 demo_procs))"
    by (rule node_step.User) (simp_all add: handler_call_def handler_send_def demo_defs)
  moreover have "node_step demo_env (demo_node ?m (demo_worker 7001 ?q False 1024 demo_procs))
      (Cmd (Worker 0) (Send ?e [1, 2]) [Driver_Effect (Handed ?e Sent [1, 2])]) ?n"
    using node_step.Command [OF _ refl, of "demo_node ?m (demo_worker 7001 ?q False 1024 demo_procs)" "Worker 0" 1023
        "Send ?e [1, 2]" "[Send ?e [3]]" demo_env demo_io demo_gen _ "[Driver_Effect (Handed ?e Sent [1, 2])]"]
    by (simp add: demo_defs demo_send_handled)
  ultimately have run: "node_run demo_env (create_node_handler 1) ?tr ?n"
    unfolding append_assoc [symmetric]
    by (blast intro: node_run.Step demo_reaches_end demo_wake(2))
  have effs: "handed_for ?e (concat (map label_effs ?tr)) = [(Sent, [1, 2])]" and sent: "concat (map (sent_to ?e) ?tr) = [[1, 2], [3]]"
    by (simp_all add: demo_trace_def demo_registered_def demo_connected_def)
  have "debug demo_env" by (simp add: demo_env_def)
  from sends_in_order [OF run this, of ?e, unfolded effs sent] obtain x where
    "[[1, 2], [3]] = [x] @ concat (map (data_for ?e) (commands (worker_at ?n (Worker 0))))"
    by (auto simp: list_all2_Cons2)
  then have "concat (map (data_for ?e) (commands (worker_at ?n (Worker 0)))) = [[3]]" by simp
  with run effs sent show ?thesis by blast
qed

text \<open>
  C16: The unchecked casts are sound in every run of a debug build: the box in any command that waits to register a
  remote holds the payload type of the driver its id names, so the cast of the driver is one to the type the
  box really holds. The public \<open>post\<close> breaks this: it takes any command, and a command with the payload of another
  transport, which safe code can make, is queued like any other and cast to the wrong type.
\<close>
theorem downcasts_sound:
  assumes "node_run env (create_node_handler N) tr n" and "debug env" and "N \<noteq> 0"
  shows "(\<forall>who c. on_duty n who \<longrightarrow> c \<in> set (commands (worker_at n who)) \<longrightarrow> cast_ok c) \<and>
    (adapter_id i = Transport_id Tcp \<longrightarrow>
      (\<exists>n'. post n i (AcceptRegisterRemote lp (i, a) s (SslAcceptPayload k config)) = Done n') \<and>
      process_command env io (rgen n) (procs (worker_at n (Worker (unat (raw i) mod N))))
        (AcceptRegisterRemote lp (i, a) s (SslAcceptPayload k config)) = Some Panic)"
proof -
  obtain log where run: "posting_run env (create_node_handler N) tr log n" using posting_run_of [OF assms(1)] by blast
  have len: "length (workers n) = N" using run_length [OF assms(1,2)] .
  have "cast_ok c" if "on_duty n who" "c \<in> set (commands (worker_at n who))" for who c
  proof -
    have "on_duty (create_node_handler N) who"
      using that(1) posting_run_length [OF run] by (simp add: on_duty_cong [of n])
    then have "c \<in> set (posts_to who log)" using fifo [OF run that(1) queues_start] that(2) by simp
    then show ?thesis using log_cast_ok [OF run assms(2)] by (auto simp: posts_to_def)
  qed
  moreover have "process_command env io (rgen n) (procs (worker_at n (Worker (unat (raw i) mod N))))
      (AcceptRegisterRemote lp (i, a) s (SslAcceptPayload k config)) = Some Panic" if "adapter_id i = Transport_id Tcp"
  proof -
    have "on_duty n (Worker (unat (raw i) mod N))" using len assms(3) by simp
    then obtain dt ds where "table (procs (worker_at n (Worker (unat (raw i) mod N)))) dt ds"
      using node_tables [OF node_inv_run [OF assms(1,2)]] by blast
    then show ?thesis
      using that by (simp add: process_command_def on_processor_def get_processor_def call_processor_def table_def
          Transport_id_def process_accept_register_remote_def TcpAdapter_def tcp_accepted_resource_def
          downcast_unchecked_def Let_def)
  qed
  moreover have "\<exists>n'. post n i c' = Done n'" for c' using len assms(3) by (simp add: post_def to_worker_index_def)
  ultimately show ?thesis by blast
qed

theorem downcasts_sound_witness:
  "\<exists>tr n. node_run demo_env (create_node_handler 1) tr n \<and>
     (\<forall>c \<in> set (commands (worker_at n (Worker 0))). cast_ok c) \<and>
     process_command demo_env demo_io (rgen n) (procs (worker_at n (Worker 0)))
       (AcceptRegisterRemote (demo_listener, V4 1 99) (demo_id, V4 7 80) 5 (SslAcceptPayload None 3)) = Some Panic"
proof -
  obtain tr n where run: "node_run demo_env (create_node_handler 1) tr n" and "workers n \<noteq> []"
    by (rule demo_node_run)
  then have duty: "on_duty n (Worker 0)" by simp
  have dbg: "debug demo_env" by (simp add: demo_env_def)
  note sound = downcasts_sound [OF run dbg, of demo_id "(demo_listener, V4 1 99)" "V4 7 80" 5 None 3 demo_io]
  from sound duty have "\<forall>c \<in> set (commands (worker_at n (Worker 0))). cast_ok c" by blast
  with run sound demo_id_eq(2) show ?thesis by (intro exI [of _ tr] exI [of _ n]) simp
qed

end
