(* ===== verification/Node_Connect.thy ===== *)
theory Node_Connect
  imports Node_Queues
begin

text \<open>
  The blocking connect over the runs of a node: \<open>connect_sync_with\<close> of \<open>src/src/node.rs\<close> with the command it posts, the
  attempt of the driver and the registration. The callback of a connect is followed from the call to its
  end: it is in one queue at a time, until it is called or dropped.
\<close>

section \<open>Where the callback of a connect is\<close>

fun connect_cb :: "WakerCommand \<Rightarrow> callback option" where
  "connect_cb (Connect _ _ _ k) = Some k"
| "connect_cb (ConnectRegisterRemote _ _ _ _ k) = Some k"
| "connect_cb _ = None"

definition holding :: "callback \<Rightarrow> WakerCommand list \<Rightarrow> nat" where
  "holding cb cs = length (filter (\<lambda>c. connect_cb c = Some cb) cs)"

definition held :: "callback \<Rightarrow> node \<Rightarrow> nat" where
  "held cb n = holding cb (commands (master n)) + (\<Sum>w\<leftarrow>workers n. holding cb (commands w))"

text \<open>What it is called with, a connect command that ends without passing it on, and the call that brings it in.\<close>

fun connect_calls :: "callback \<Rightarrow> effect list \<Rightarrow> (io_error + Endpoint \<times> SocketAddr) list" where
  "connect_calls cb [] = []"
| "connect_calls cb (Call_Connect k r # es) = (if k = cb then [r] else []) @ connect_calls cb es"
| "connect_calls cb (_ # es) = connect_calls cb es"

fun dropped :: "callback \<Rightarrow> label \<Rightarrow> bool" where
  "dropped cb (Cmd _ (Connect _ _ _ k) effs) = (k = cb \<and> posts (driver_effs effs) = [])"
| "dropped cb _ = False"

fun connects :: "callback \<Rightarrow> label \<Rightarrow> bool" where
  "connects cb (Call (Op_Connect _ _ _ k)) = (k = cb)"
| "connects cb (Call (Op_Connect_Sync _ _ _ k)) = (k = cb)"
| "connects cb _ = False"

lemma holding_simps [simp]:
  "holding cb [] = 0" "holding cb (c # cs) = (if connect_cb c = Some cb then 1 else 0) + holding cb cs"
  "holding cb (cs @ ds) = holding cb cs + holding cb ds"
  by (simp_all add: holding_def)

lemma connect_calls_append [simp]: "connect_calls cb (xs @ ys) = connect_calls cb xs @ connect_calls cb ys"
  by (induction xs rule: connect_calls.induct) simp_all

lemma connect_calls_map [simp]: "connect_calls cb (map Poll_Call cs) = []"
  by (induction cs) simp_all

lemma event_effects_calls: "\<forall>x \<in> set effs. event_effect x \<Longrightarrow> connect_calls cb effs = []"
  by (induction effs rule: connect_calls.induct) auto

section \<open>One command\<close>

text \<open>A command passes the callback on, calls it with a success, or drops it, and touches no other.\<close>

definition passes_on :: "callback \<Rightarrow> WakerCommand \<Rightarrow> effect list \<Rightarrow> bool" where
  "passes_on cb c effs \<longleftrightarrow>
     holding cb (map snd (posts effs)) + length (connect_calls cb effs) +
       (if dropped cb (Cmd Master c (map Driver_Effect effs)) then 1 else 0) = holding cb [c] \<and>
     (\<forall>r \<in> set (connect_calls cb effs). \<exists>ret. r = Ok ret)"

lemma driver_command_passes_on:
  assumes "driver_command A mio io d c = Some (Done (d', effs))" and "cb \<noteq> noop"
  shows "passes_on cb c effs"
proof (cases c)
  case (Listen cf l a k)
  with assms have "process_listen A mio io d cf l a k = Done (d', effs)" by simp
  then show ?thesis by (cases rule: process_listen_cases) (auto simp: Listen passes_on_def)
next
  case (Connect cf i ra k)
  with assms have "process_connect A io d cf i ra k = Done (d', effs)" by simp
  then show ?thesis by (cases rule: process_connect_cases) (auto simp: Connect passes_on_def)
qed (use assms in \<open>auto simp: passes_on_def process_accept_register_remote_def process_connect_register_remote_def
      process_close_def process_is_ready_def quiet_send_def Let_def result_simps
      split: ResourceType.splits option.splits if_splits\<close>)

lemma post_accepted_no_connect:
  "post_accepted A dbg io d loc l as = Done (d', effs) \<Longrightarrow> holding cb (map snd (posts effs)) = 0"
proof (induction as arbitrary: d effs)
  case (Cons x as)
  then show ?case by (cases x) (fastforce simp: result_simps next_remote_id_def)+
qed simp

lemma process_read_no_connect:
  assumes "process_read A mio dbg io d i = Some (Done (d', effs))"
  shows "holding cb (map snd (posts effs)) = 0"
proof (cases "resource_type i")
  case Local
  with assms show ?thesis
    by (auto simp: process_read_def read_from_local_def split: option.splits dest: post_accepted_no_connect)
next
  case Remote
  with assms have "posts effs = []"
    by (auto simp: process_read_def Let_def result_simps split: option.splits if_splits
        dest!: resolve_pending_posts read_from_remote_posts drop_clone_posts)
  then show ?thesis by simp
qed

lemma node_event_no_connect:
  assumes "process_poll_event env (\<lambda>_. False) ios g ps q e = Some (Done (g', ps', q', effs))"
    and "e = NetworkRead i \<or> e = NetworkWrite i"
  shows "holding cb (map snd (posts (driver_effs effs))) = 0"
  using assms
  by (auto simp: process_poll_event_def ssl_driver_defs result_simps elim!: on_processor_cases
      dest!: process_read_no_connect [where cb = cb] process_write_posts)

section \<open>The queues\<close>

lemma held_simps [simp]:
  "held cb (n\<lparr>rgen := g\<rparr>) = held cb n" "held cb (n\<lparr>lgen := g\<rparr>) = held cb n" "held cb (n\<lparr>running := b\<rparr>) = held cb n"
  by (simp_all add: held_def)

lemma held_set_worker:
  "on_duty n who \<Longrightarrow> held cb (set_worker n who w) + holding cb (commands (worker_at n who)) = held cb n + holding cb (commands w)"
  using sum_list_map_update [where xs = "workers n" and y = w and f = "\<lambda>w. holding cb (commands w)"]
  by (cases who) (auto simp: held_def)

lemma held_same: "on_duty n who \<Longrightarrow> commands w = commands (worker_at n who) \<Longrightarrow> held cb (set_worker n who w) = held cb n"
  using held_set_worker [of n who cb w] by simp

lemma held_post: "post n r c = Done n' \<Longrightarrow> held cb n' = held cb n + holding cb [c]"
  using sum_list_map_update [where k = "unat (raw r) mod length (workers n)" and xs = "workers n"
      and f = "\<lambda>w. holding cb (commands w)" and y = "do_post (workers n ! (unat (raw r) mod length (workers n))) c"]
  by (auto simp: post_def to_worker_index_def held_def do_post_def queue_post_def split: if_splits)

lemma held_master [simp]: "held cb (post_to_master n c) = held cb n + holding cb [c]"
  by (simp add: post_to_master_def held_def do_post_def queue_post_def)

lemma held_deliver: "deliver n effs = Done n' \<Longrightarrow> held cb n' = held cb n + holding cb (map snd (posts (driver_effs effs)))"
proof (induction n effs rule: deliver.induct)
  case (2 n r c es)
  then obtain n1 where p: "post n r c = Done n1" "deliver n1 es = Done n'" by (auto simp: result_simps)
  with 2 held_post [OF p(1), of cb] show ?case by simp
qed simp_all

lemma held_listen: "handler_listen_with dbg n config t as k = Done n' \<Longrightarrow> held cb n' = held cb n"
  by (elim handler_listen_with_Done) auto

lemma held_connect:
  "handler_connect_with dbg n config t ra k = Done n' \<Longrightarrow> held cb n' = held cb n + (if k = cb then 1 else 0)"
  by (auto simp: handler_connect_with_def handler_next_remote_id_def result_simps)

lemma held_call:
  assumes "handler_call dbg n op = Done n'" and "plain_op op"
  shows "held cb n' = held cb n + (if connects cb (Call op) then 1 else 0)"
proof (cases op)
  case (Op_Listen_Sync config t as k)
  with assms obtain as' where "as = Ok as'" by (auto simp: handler_call_def listen_sync_post_def result_simps)
  with Op_Listen_Sync assms show ?thesis
    by (cases as') (auto simp: handler_call_def listen_sync_post_def held_listen)
next
  case (Op_Post i c)
  with assms show ?thesis by (cases c) (auto simp: handler_call_def dest: held_post)
next
  case (Op_Post_Master c)
  with assms show ?thesis by (cases c) (auto simp: handler_call_def)
qed (use assms in \<open>auto simp: handler_call_def handler_send_def handler_send_sync_def handler_is_ready_def handler_close_def
      handler_stop_def connect_sync_post_def result_simps held_listen held_connect dest: held_post split: ResourceType.splits\<close>)

text \<open>Each step keeps the account of the callback.\<close>

definition drops :: "callback \<Rightarrow> label list \<Rightarrow> nat" where
  "drops cb tr = length (filter (dropped cb) tr)"

lemma held_step:
  assumes "node_step env n l n'" and "cb \<noteq> noop"
  shows "held cb n' + length (connect_calls cb (label_effs l)) + drops cb [l] = held cb n + (if connects cb l then 1 else 0)"
    and "\<forall>r \<in> set (connect_calls cb (label_effs l)). \<exists>ret. r = Ok ret"
proof -
  have "held cb n' + length (connect_calls cb (label_effs l)) + drops cb [l] = held cb n + (if connects cb l then 1 else 0) \<and>
    (\<forall>r \<in> set (connect_calls cb (label_effs l)). \<exists>ret. r = Ok ret)"
    using assms(1)
  proof (cases rule: node_step.cases)
    case (User op)
    with held_call [OF User(2,3), of cb] show ?thesis by (simp add: drops_def)
  next
    case (Command who w b c q io g ps effs)
    let ?w = "w\<lparr>commands := q, draining := b, procs := ps\<rparr>"
    have "commands (worker_at n who) = c # q" using Command(3,5) by (auto simp: try_receive_def split: list.splits)
    then have set: "held cb (set_worker (n\<lparr>rgen := g\<rparr>) who ?w) + holding cb [c] = held cb n"
      using held_set_worker [of "n\<lparr>rgen := g\<rparr>" who cb ?w] Command(2) by simp
    have drop: "dropped cb (Cmd who' c es) = dropped cb (Cmd who'' c es)" for who' who'' es by (cases c) simp_all
    have "passes_on cb c (driver_effs effs) \<and> connects cb l = False"
    proof (cases "cmd_id c")
      case None
      with Command show ?thesis by (cases c) (auto simp: process_command_eq passes_on_def)
    next
      case (Some i)
      with Command obtain es where es: "effs = map Driver_Effect es"
        "on_processor (\<lambda>d. driver_command TcpAdapter (env_mio env) (tcp_io io) d c)
          (\<lambda>d. driver_command SslAdapter (env_mio env) (ssl_io io) d c) (rgen n) (procs w) (adapter_id i) = Some (Done (g, ps, es))"
        by (auto simp: process_command_eq result_simps)
      from es(2) have "passes_on cb c es"
        by (cases rule: on_processor_cases) (auto intro: driver_command_passes_on [OF _ assms(2)])
      with Command(1) es(1) show ?thesis by simp
    qed
    moreover have "dropped cb l = dropped cb (Cmd Master c (map Driver_Effect (driver_effs effs)))"
      using Command(1) by (cases c) simp_all
    ultimately show ?thesis
      using set held_deliver [OF Command(8), of cb] Command(1) by (auto simp: passes_on_def drops_def)
  next
    case (Poll who w e i io g ps q effs)
    with held_deliver [OF Poll(8), of cb] held_set_worker [of "n\<lparr>rgen := g\<rparr>" who cb "w\<lparr>procs := ps\<rparr>"]
      node_event_effects [OF Poll(7,6)] node_event_no_connect [OF Poll(7,6), of cb]
    show ?thesis by (simp add: event_effects_calls drops_def)
  qed (auto simp: drops_def held_same)
  then show "held cb n' + length (connect_calls cb (label_effs l)) + drops cb [l] = held cb n + (if connects cb l then 1 else 0)"
    "\<forall>r \<in> set (connect_calls cb (label_effs l)). \<exists>ret. r = Ok ret" by blast+
qed

lemma held_run:
  assumes "node_run env (create_node_handler N) tr n" and "cb \<noteq> noop"
  shows "held cb n + length (connect_calls cb (concat (map label_effs tr))) + drops cb tr = length (filter (connects cb) tr) \<and>
    (\<forall>r \<in> set (connect_calls cb (concat (map label_effs tr))). \<exists>ret. r = Ok ret)"
  using assms
proof (induction rule: node_run.induct)
  case Start
  have "(\<Sum>w\<leftarrow>map f xs. holding cb (commands w)) = 0" if "\<And>x. commands (f x) = []" for f and xs :: "nat list"
    using that by (induction xs) simp_all
  then show ?case
    by (simp add: held_def create_node_handler_def split_id_generator_def worker_new_def drops_def del: upt_Suc)
next
  case (Step tr n l n')
  then show ?case using held_step [OF Step(2,4)] by (auto simp: drops_def)
qed

section \<open>The blocking connect\<close>

text \<open>
  The wait for the callback: \<open>unkept\<close> is what it comes to when the callback is never called, as the promise is then not
  kept; it does not return a value.
\<close>

definition promise :: "'a waited \<Rightarrow> 'a list \<Rightarrow> 'a waited" where
  "promise unkept calls = (case calls of [] \<Rightarrow> unkept | r # _ \<Rightarrow> Some (Done r))"

lemma ready_loop_first:
  "\<forall>j < k. answers (m + j) = Some (Done (Some False)) \<Longrightarrow> answers (m + k) \<noteq> Some (Done (Some False)) \<Longrightarrow> k < left \<Longrightarrow>
   ready_loop left answers m ret = obind (answers (m + k)) (\<lambda>status.
     Some (Done (if status = None then Err ConnectionRefused else Ok ret)))"
proof (induction left arbitrary: m k)
  case (Suc left)
  show ?case
  proof (cases k)
    case 0
    with Suc.prems show ?thesis by (auto simp: obind_def split: option.splits exec.splits bool.splits)
  next
    case (Suc j)
    from Suc.prems(1) have "answers m = Some (Done (Some False))" "\<forall>i < j. answers (Suc m + i) = Some (Done (Some False))"
      unfolding Suc by (force dest: spec [of _ 0], force dest: spec [of _ "Suc _"])
    with Suc.IH [of j "Suc m"] Suc.prems Suc show ?thesis by simp
  qed
qed simp

lemma ready_loop_never:
  "\<forall>j < left. answers (m + j) = Some (Done (Some False)) \<Longrightarrow>
   ready_loop left answers m ret = Some (Done (Err ConnectionAborted))"
proof (induction left arbitrary: m)
  case (Suc left)
  then have "answers m = Some (Done (Some False))" "\<forall>j < left. answers (Suc m + j) = Some (Done (Some False))"
    by (force dest: spec [of _ 0], force dest: spec [of _ "Suc _"])
  with Suc.IH [of "Suc m"] show ?case by simp
qed simp

section \<open>Properties\<close>

text \<open>
  C22: What becomes of a blocking connect, over every run of the node. After the call its callback is at every moment in exactly one
  place: in a command that is queued, called, once, or dropped, by an attempt that failed at once. After a drop no
  further step ever calls it, so the caller never gets an answer; and it is never called with an error, so
  the error of a failed attempt is returned to nobody. Once it is called, the connect asks up to 1000 times
  whether the remote is ready: it returns the endpoint at the first yes, \<open>ConnectionRefused\<close> when the remote is gone
  before one, waits as long as a query is not answered, and after 1000 times not yet gives up with \<open>ConnectionAborted\<close>.
\<close>
theorem connect_sync_outcome:
  assumes "node_run env (create_node_handler N) tr n" and "cb \<noteq> noop"
    and "filter (connects cb) tr = [Call (Op_Connect_Sync config t ra cb)]"
    and "calls = connect_calls cb (concat (map label_effs tr))"
    and "outcome = connect_sync_wait (promise unkept calls) answers" and "unkept = None \<or> unkept = Some Panic"
  shows "held cb n + length calls + drops cb tr = 1 \<and>
    (drops cb tr = 1 \<longrightarrow> outcome = None \<or> outcome = Some Panic) \<and>
    (\<forall>e. calls \<noteq> [Err e]) \<and>
    (calls = [Ok ret] \<longrightarrow>
      (k < 1000 \<and> (\<forall>j < k. answers j = Some (Done (Some False))) \<and> answers k \<noteq> Some (Done (Some False)) \<longrightarrow>
        outcome = obind (answers k) (\<lambda>status. Some (Done (if status = None then Err ConnectionRefused else Ok ret)))) \<and>
      ((\<forall>j < 1000. answers j = Some (Done (Some False))) \<longrightarrow> outcome = Some (Done (Err ConnectionAborted))))"
proof -
  from held_run [OF assms(1,2)] assms(3,4) have account: "held cb n + length calls + drops cb tr = 1"
    and ok: "\<forall>r \<in> set calls. \<exists>ret. r = Ok ret" by simp_all
  have "outcome = None \<or> outcome = Some Panic" if "drops cb tr = 1"
    using account that assms(5,6) by (auto simp: promise_def connect_sync_wait_def)
  moreover have "outcome = ready_loop 1000 answers 0 ret" if "calls = [Ok ret]"
    using that assms(5) by (simp add: promise_def connect_sync_wait_def)
  ultimately show ?thesis
    using account ok ready_loop_first [of k answers 0 1000 ret] ready_loop_never [of 1000 answers 0 ret] by auto
qed

text \<open>A connect that fails at once: the socket cannot be set to non-blocking mode.\<close>

definition failing_io :: net_io where
  "failing_io = \<lparr>tcp_io = os_demo\<lparr>set_nonblocking := Err OtherKind\<rparr>, ssl_io = tls_demo\<rparr>"

lemma demo_failure:
  "process_command demo_env failing_io demo_gen demo_start demo_connect = Some (Done (demo_gen, demo_tried, []))"
proof -
  let ?d = "(driver_new (ResourceIdGenerator_new Remote))\<lparr>remote_id_generator := demo_gen\<rparr> :: (TcpRemote, TcpLocal) driver"
  have "driver_command TcpAdapter (env_mio demo_env) (tcp_io failing_io) ?d demo_connect = Some (Done (?d, []))"
    by (simp add: process_connect_def TcpAdapter_def tcp_connect_with_def socket_addr_def tcp_remote_connect_with_def
        failing_io_def os_demo_def ConnectConfig_default_def bind_device_if_def result_simps demo_connect_def)
  from process_command_tcp [OF table_new _ demo_id_eq(2) this] show ?thesis by (simp add: demo_connect_def demo_tried_def)
qed

lemma demo_failed_run:
  "\<exists>n. node_run demo_env (create_node_handler 1)
     [Call (Op_Connect_Sync ConnectConfig_default Tcp (Ok (Socket (V4 7 80))) 5), Silent, Silent, Cmd Master demo_connect []] n"
proof -
  let ?w = "demo_worker 7001 [] False 0 demo_start\<lparr>in_batch := False\<rparr>"
  let ?n = "demo_node (demo_worker 7000 [demo_connect] False 1024 demo_start) ?w"
  let ?n' = "demo_node (demo_worker 7000 [] False 1023 demo_tried) ?w"
  have "new_source failing_io demo_start demo_connect" by (simp add: demo_connect_def)
  then have step: "node_step demo_env ?n (Cmd Master demo_connect []) ?n'"
    using node_step.Command [OF _ refl, of ?n Master 1023 demo_connect "[]" demo_env failing_io demo_gen demo_tried "[]"]
    by (simp add: demo_defs demo_failure)
  have "node_run demo_env (create_node_handler 1)
      (((([] @ [Call (Op_Connect_Sync ConnectConfig_default Tcp (Ok (Socket (V4 7 80))) 5)]) @ [Silent]) @ [Silent]) @
        [Cmd Master demo_connect []]) ?n'"
    by (intro node_run.Step [OF _ step] node_run.Step [OF _ demo_wake(1)] node_run.Step [OF _ demo_batch(1)]
        node_run.Step [OF _ demo_call] node_run.Start) (simp add: demo_worker_def)
  then have "node_run demo_env (create_node_handler 1)
      [Call (Op_Connect_Sync ConnectConfig_default Tcp (Ok (Socket (V4 7 80))) 5), Silent, Silent, Cmd Master demo_connect []] ?n'"
    unfolding append.simps .
  then show ?thesis ..
qed

theorem connect_sync_outcome_witness:
  "(\<exists>tr n. node_run demo_env (create_node_handler 1) tr n \<and> drops 5 tr = 1 \<and>
      (\<forall>answers. connect_sync_wait (promise None (connect_calls 5 (concat (map label_effs tr)))) answers = None)) \<and>
   (\<exists>tr n. node_run demo_env (create_node_handler 1) tr n \<and>
      connect_sync_wait (promise None (connect_calls 5 (concat (map label_effs tr)))) (\<lambda>k. Some (Done (Some (k = 2)))) =
        Some (Done (Ok (Endpoint_new demo_id (V4 7 80), V4 1 99))))"
proof
  let ?call = "Call (Op_Connect_Sync ConnectConfig_default Tcp (Ok (Socket (V4 7 80))) 5)"
  let ?tr = "[?call, Silent, Silent, Cmd Master demo_connect []]"
  obtain n where run: "node_run demo_env (create_node_handler 1) ?tr n" using demo_failed_run by blast
  have drop: "drops 5 ?tr = 1" by (simp add: drops_def demo_connect_def)
  have "held 5 n + length (connect_calls 5 (concat (map label_effs ?tr))) + drops 5 ?tr = 1"
    using connect_sync_outcome [OF run _ _ refl refl, of 5 ConnectConfig_default Tcp "Ok (Socket (V4 7 80))" None]
    by (simp add: noop_def)
  with run drop show "\<exists>tr n. node_run demo_env (create_node_handler 1) tr n \<and> drops 5 tr = 1 \<and>
      (\<forall>answers. connect_sync_wait (promise None (connect_calls 5 (concat (map label_effs tr)))) answers = None)"
    by (intro exI [of _ ?tr] exI [of _ n]) (simp add: promise_def connect_sync_wait_def)
next
  let ?ret = "(Endpoint_new demo_id (V4 7 80), V4 1 99)"
  have calls: "[Ok ?ret] = connect_calls 5 (concat (map label_effs demo_trace))"
    by (simp add: demo_trace_def demo_registered_def demo_connected_def)
  have "filter (connects 5) demo_trace = [Call (Op_Connect_Sync ConnectConfig_default Tcp (Ok (Socket (V4 7 80))) 5)]"
    by (simp add: demo_trace_def)
  from connect_sync_outcome [OF demo_reaches_end _ this calls refl, of None "\<lambda>k. Some (Done (Some (k = 2)))" ?ret 2]
  have "connect_sync_wait (promise None [Ok ?ret]) (\<lambda>k. Some (Done (Some (k = 2)))) = Some (Done (Ok ?ret))"
    by (simp add: noop_def)
  with calls demo_reaches_end show "\<exists>tr n. node_run demo_env (create_node_handler 1) tr n \<and>
      connect_sync_wait (promise None (connect_calls 5 (concat (map label_effs tr)))) (\<lambda>k. Some (Done (Some (k = 2)))) =
        Some (Done (Ok ?ret))" by (intro exI [of _ demo_trace] exI [of _ demo_end]) simp
qed

end
