(* ===== verification/Node_Task.thy ===== *)
theory Node_Task
  imports Node_Runs
begin

text \<open>
  Starting a node and waiting for its end: \<open>node_listener_for_each_async\<close>, \<open>launch_thread\<close> and \<open>NodeTask\<close> of
  \<open>src/src/node.rs\<close>, the multiplexor of \<open>network/loader.rs\<close> and the named threads of \<open>util/thread.rs\<close>. The caller
  launches the threads and then sleeps until all of them have counted themselves; caller and threads
  run interleaved.
\<close>

section \<open>Named threads\<close>

text \<open>A join handle is the number of the thread. \<open>spawn\<close> unwraps the answer \<open>ok\<close> of the system.\<close>

record NamespacedThread =
  namespace :: string
  join_handle :: "nat option"

definition NamespacedThread_spawn :: "bool \<Rightarrow> string option \<Rightarrow> string \<Rightarrow> nat \<Rightarrow> NamespacedThread exec" where
  "NamespacedThread_spawn ok current name t =
     (if ok then Done \<lparr>namespace = (case current of None \<Rightarrow> [] | Some c \<Rightarrow> c) @ ''/'' @ name, join_handle = Some t\<rparr>
      else Panic)"

text \<open>
  How a thread ends: \<open>finish t\<close> is \<open>None\<close> while thread \<open>t\<close> never ends, and joining it then never returns;
  joining a thread that panicked panics.
\<close>

datatype thread_end = Thread_Finished | Thread_Panicked

definition join :: "(nat \<Rightarrow> thread_end option) \<Rightarrow> NamespacedThread \<Rightarrow> NamespacedThread exec option" where
  "join finish thr =
     (case join_handle thr of
        None \<Rightarrow> Some Panic
      | Some t \<Rightarrow>
          (case finish t of
             None \<Rightarrow> None
           | Some Thread_Finished \<Rightarrow> Some (Done (thr\<lparr>join_handle := None\<rparr>))
           | Some Thread_Panicked \<Rightarrow> Some Panic))"

definition try_join :: "(nat \<Rightarrow> thread_end option) \<Rightarrow> NamespacedThread \<Rightarrow> NamespacedThread exec option" where
  "try_join finish thr = (if join_handle thr \<noteq> None then join finish thr else Some (Done thr))"

type_synonym NodeTask = "NamespacedThread list"

fun NodeTask_wait :: "(nat \<Rightarrow> thread_end option) \<Rightarrow> NodeTask \<Rightarrow> NodeTask exec option" where
  "NodeTask_wait finish [] = Some (Done [])"
| "NodeTask_wait finish (thr # thrs) =
     obind (try_join finish thr) (\<lambda>thr.
     obind (NodeTask_wait finish thrs) (\<lambda>thrs. Some (Done (thr # thrs))))"

section \<open>The multiplexor\<close>

text \<open>A worker parameter holds the poll and the queue of one controller and is named by its id.\<close>

type_synonym param = nat

record Multiplexor =
  mux_rgen :: ResourceIdGenerator
  mux_lgen :: ResourceIdGenerator
  master_param :: "param option"
  worker_params :: "param option list"

definition Multiplexor_default :: Multiplexor where
  "Multiplexor_default =
     (let (rgen, lgen) = split_id_generator in
      \<lparr>mux_rgen = rgen, mux_lgen = lgen, master_param = None, worker_params = []\<rparr>)"

definition fill_params :: "nat \<Rightarrow> Multiplexor \<Rightarrow> Multiplexor" where
  "fill_params worker_num mux = mux\<lparr>master_param := Some CONTROLLER_ID_BASE,
     worker_params := worker_params mux @ map (\<lambda>i. Some (CONTROLLER_ID_BASE + i)) [1 ..< Suc worker_num]\<rparr>"

section \<open>Starting\<close>

text \<open>
  The threads by their numbers: \<open>Created\<close> until the worker is built and the thread has counted itself, \<open>Looping\<close>
  while it handles events; a thread that panics before it is counted is \<open>Broken\<close>.
\<close>

datatype thread_phase = Created | Looping | Ended | Crashed | Broken

datatype caller = Launch_Master | Launch_Workers nat | Waiting | Returned | Aborted

record startup =
  is_running :: bool
  mux :: Multiplexor
  task :: NodeTask
  phases :: "thread_phase list"
  params :: "param list"
  thr_counter :: nat
  caller :: caller

definition launch_thread :: "(nat \<Rightarrow> bool) \<Rightarrow> string option \<Rightarrow> string \<Rightarrow> param \<Rightarrow> startup \<Rightarrow> startup exec" where
  "launch_thread spawns current name param s =
     (let t = length (phases s) in
      xbind (NamespacedThread_spawn (spawns t) current name t) (\<lambda>thr.
      Done (s\<lparr>phases := phases s @ [Created], params := params s @ [param], task := task s @ [thr]\<rparr>)))"

definition launch_master :: "(nat \<Rightarrow> bool) \<Rightarrow> string option \<Rightarrow> startup \<Rightarrow> startup exec" where
  "launch_master spawns current s =
     (case master_param (mux s) of
        None \<Rightarrow> Panic
      | Some param \<Rightarrow>
          launch_thread spawns current ''multiplexor-master'' param (s\<lparr>mux := (mux s)\<lparr>master_param := None\<rparr>\<rparr>))"

definition launch_worker :: "(nat \<Rightarrow> bool) \<Rightarrow> string option \<Rightarrow> nat \<Rightarrow> startup \<Rightarrow> startup exec" where
  "launch_worker spawns current i s =
     (let ps = worker_params (mux s) in
      xbind (assert_that (i < length ps)) (\<lambda>_.
      case ps ! i of
        None \<Rightarrow> Panic
      | Some param \<Rightarrow>
          launch_thread spawns current (''multiplexor-worker('' @ show_nat i @ '')'') param
            (s\<lparr>mux := (mux s)\<lparr>worker_params := ps[i := None]\<rparr>\<rparr>)))"

definition node_listener_step :: "(nat \<Rightarrow> bool) \<Rightarrow> string option \<Rightarrow> startup \<Rightarrow> startup" where
  "node_listener_step spawns current s =
     (case caller s of
        Launch_Master \<Rightarrow>
          (case launch_master spawns current s of
             Done s \<Rightarrow> s\<lparr>caller := Launch_Workers 0\<rparr> | Panic \<Rightarrow> s\<lparr>caller := Aborted\<rparr>)
      | Launch_Workers i \<Rightarrow>
          if i < length (worker_params (mux s)) then
            (case launch_worker spawns current i s of
               Done s \<Rightarrow> s\<lparr>caller := Launch_Workers (Suc i)\<rparr> | Panic \<Rightarrow> s\<lparr>caller := Aborted\<rparr>)
          else s\<lparr>caller := Waiting\<rparr>
      | Waiting \<Rightarrow>
          if thr_counter s < 1 + length (worker_params (mux s)) then s else s\<lparr>caller := Returned\<rparr>
      | Returned \<Rightarrow> s
      | Aborted \<Rightarrow> s)"

definition startup_init :: "nat \<Rightarrow> startup" where
  "startup_init worker_num = \<lparr>is_running = True, mux = fill_params worker_num Multiplexor_default, task = [], phases = [],
     params = [], thr_counter = 0, caller = Launch_Master\<rparr>"

text \<open>The steps of the caller, of the threads and of a user who stops the node.\<close>

inductive startup_step :: "(nat \<Rightarrow> bool) \<Rightarrow> string option \<Rightarrow> startup \<Rightarrow> startup \<Rightarrow> bool"
  for spawns :: "nat \<Rightarrow> bool" and current :: "string option" where
  Caller: "startup_step spawns current s (node_listener_step spawns current s)"
| Count: "t < length (phases s) \<Longrightarrow> phases s ! t = Created \<Longrightarrow>
    startup_step spawns current s (s\<lparr>phases := (phases s)[t := Looping], thr_counter := thr_counter s + 1\<rparr>)"
| Break: "t < length (phases s) \<Longrightarrow> phases s ! t = Created \<Longrightarrow>
    startup_step spawns current s (s\<lparr>phases := (phases s)[t := Broken]\<rparr>)"
| Leave: "t < length (phases s) \<Longrightarrow> phases s ! t = Looping \<Longrightarrow> \<not> is_running s \<Longrightarrow>
    startup_step spawns current s (s\<lparr>phases := (phases s)[t := Ended]\<rparr>)"
| Crash: "t < length (phases s) \<Longrightarrow> phases s ! t = Looping \<Longrightarrow>
    startup_step spawns current s (s\<lparr>phases := (phases s)[t := Crashed]\<rparr>)"
| Stop: "startup_step spawns current s (s\<lparr>is_running := False\<rparr>)"


section \<open>The invariant\<close>

definition counted :: "thread_phase \<Rightarrow> bool" where
  "counted p \<longleftrightarrow> p = Looping \<or> p = Ended \<or> p = Crashed"

fun launched :: "nat \<Rightarrow> caller \<Rightarrow> nat" where
  "launched N Launch_Master = 0"
| "launched N (Launch_Workers i) = Suc i"
| "launched N _ = Suc N"

definition untaken :: "nat \<Rightarrow> nat \<Rightarrow> param option list" where
  "untaken N k = map (\<lambda>i. if Suc i < k then None else Some (CONTROLLER_ID_BASE + Suc i)) [0 ..< N]"

definition startup_inv :: "nat \<Rightarrow> startup \<Rightarrow> bool" where
  "startup_inv N s \<longleftrightarrow> caller s \<noteq> Aborted \<and> length (phases s) = launched N (caller s) \<and>
     length (phases s) \<le> Suc N \<and> params s = map (\<lambda>i. CONTROLLER_ID_BASE + i) [0 ..< length (phases s)] \<and>
     map join_handle (task s) = map Some [0 ..< length (phases s)] \<and>
     (caller s = Launch_Master \<longrightarrow> master_param (mux s) = Some CONTROLLER_ID_BASE) \<and>
     worker_params (mux s) = untaken N (length (phases s)) \<and>
     thr_counter s = length (filter counted (phases s)) \<and> (caller s = Returned \<longrightarrow> thr_counter s = Suc N)"

lemma startup_inv_init: "startup_inv N (startup_init N)"
proof -
  have "[1 ..< Suc N] = map Suc [0 ..< N]" by (simp add: map_Suc_upt)
  then show ?thesis
    by (simp add: startup_inv_def startup_init_def fill_params_def Multiplexor_default_def split_id_generator_def untaken_def
        comp_def del: upt_Suc)
qed

lemma length_filter_update:
  "t < length xs \<Longrightarrow> length (filter P (xs[t := y])) + (if P (xs ! t) then 1 else 0) =
     length (filter P xs) + (if P y then 1 else 0)"
proof (induction xs arbitrary: t)
  case (Cons x xs)
  then show ?case by (cases t) auto
qed simp

lemma untaken_simps: "length (untaken N k) = N" "i < N \<Longrightarrow> untaken N (Suc i) ! i = Some (CONTROLLER_ID_BASE + Suc i)"
  "i < N \<Longrightarrow> (untaken N (Suc i))[i := None] = untaken N (Suc (Suc i))" "untaken N 0 = untaken N (Suc 0)"
  by (auto simp: untaken_def nth_list_update intro!: nth_equalityI)

lemma launch_thread_Done:
  "\<forall>t. spawns t \<Longrightarrow> launch_thread spawns current name p s =
     Done (s\<lparr>phases := phases s @ [Created], params := params s @ [p], task := task s @ [\<lparr>namespace =
       (case current of None \<Rightarrow> [] | Some c \<Rightarrow> c) @ ''/'' @ name, join_handle = Some (length (phases s))\<rparr>]\<rparr>)"
  by (simp add: launch_thread_def NamespacedThread_spawn_def Let_def)

lemma startup_inv_caller:
  assumes "startup_inv N s" and "\<forall>t. spawns t"
  shows "startup_inv N (node_listener_step spawns current s)"
proof (cases "caller s")
  case Launch_Master
  with assms show ?thesis
    by (auto simp: startup_inv_def node_listener_step_def launch_master_def launch_thread_Done counted_def untaken_simps(4))
next
  case (Launch_Workers i)
  with assms(1) have len: "length (phases s) = Suc i" and wp: "worker_params (mux s) = untaken N (Suc i)"
    by (simp_all add: startup_inv_def)
  show ?thesis
  proof (cases "i < N")
    case True
    with assms Launch_Workers len wp show ?thesis
      by (auto simp: startup_inv_def node_listener_step_def launch_worker_def launch_thread_Done counted_def untaken_simps Let_def)
  next
    case False
    with assms Launch_Workers len wp show ?thesis
      by (auto simp: startup_inv_def node_listener_step_def untaken_simps)
  qed
next
  case Waiting
  with assms(1) have "length (filter counted (phases s)) \<le> Suc N"
    using length_filter_le [of counted "phases s"] by (simp add: startup_inv_def)
  with Waiting assms show ?thesis
    by (auto simp: startup_inv_def node_listener_step_def untaken_simps not_less intro: le_antisym)
qed (use assms in \<open>auto simp: startup_inv_def node_listener_step_def\<close>)

lemma startup_inv_step:
  assumes "startup_step spawns current s s'" and "startup_inv N s" and "\<forall>t. spawns t"
  shows "startup_inv N s'"
  using assms
proof (induction rule: startup_step.induct)
  case (Caller s)
  then show ?case by (intro startup_inv_caller)
next
  case (Count t s)
  then show ?case
    using length_filter_update [OF Count(1), of counted Looping] length_filter_le [of counted "(phases s)[t := Looping]"]
    by (auto simp: startup_inv_def counted_def [of Created] counted_def [of Looping])
next
  case (Break t s)
  then show ?case
    using length_filter_update [OF Break(1), of counted Broken] by (auto simp: startup_inv_def counted_def [of Created] counted_def [of Broken])
next
  case (Leave t s)
  then show ?case
    using length_filter_update [OF Leave(1), of counted Ended] by (auto simp: startup_inv_def counted_def [of Looping] counted_def [of Ended])
next
  case (Crash t s)
  then show ?case
    using length_filter_update [OF Crash(1), of counted Crashed] by (auto simp: startup_inv_def counted_def [of Looping] counted_def [of Crashed])
next
  case (Stop s)
  then show ?case by (auto simp: startup_inv_def)
qed

lemma startup_inv_run:
  assumes "(startup_step spawns current)\<^sup>*\<^sup>* s s'" and "startup_inv N s" and "\<forall>t. spawns t"
  shows "startup_inv N s'"
  using assms by (induction rule: rtranclp_induct) (auto intro: startup_inv_step)


section \<open>Progress\<close>

definition startup_work :: "nat \<Rightarrow> startup \<Rightarrow> nat" where
  "startup_work N s = 2 * (Suc N - length (phases s)) + length (filter (\<lambda>p. p = Created) (phases s)) +
     (case caller s of Returned \<Rightarrow> 0 | Waiting \<Rightarrow> 1 | _ \<Rightarrow> 2)"

lemma startup_progress:
  assumes inv: "startup_inv N s" and spawns: "\<forall>t. spawns t" and fine: "Broken \<notin> set (phases s)" and "caller s \<noteq> Returned"
  shows "\<exists>s'. startup_step spawns current s s' \<and> Broken \<notin> set (phases s') \<and> startup_work N s' < startup_work N s"
proof (cases "Created \<in> set (phases s)")
  case True
  then obtain t where t: "t < length (phases s)" "phases s ! t = Created" by (auto simp: in_set_conv_nth)
  let ?s = "s\<lparr>phases := (phases s)[t := Looping], thr_counter := thr_counter s + 1\<rparr>"
  have "startup_work N ?s < startup_work N s"
    using length_filter_update [OF t(1), of "\<lambda>p. p = Created" Looping] t(2) by (simp add: startup_work_def)
  moreover have "Broken \<notin> set (phases ?s)" using fine set_update_subset_insert [of "phases s" t Looping] by auto
  ultimately show ?thesis using startup_step.Count [OF t] by blast
next
  case False
  let ?s = "node_listener_step spawns current s"
  have all: "filter counted (phases s) = phases s"
    using False fine by (intro filter_True) (metis counted_def thread_phase.exhaust)
  have "Broken \<notin> set (phases ?s) \<and> startup_work N ?s < startup_work N s"
  proof (cases "caller s")
    case Launch_Master
    with inv spawns fine show ?thesis
      by (simp add: startup_inv_def node_listener_step_def launch_master_def launch_thread_Done startup_work_def)
  next
    case (Launch_Workers i)
    with inv have "length (phases s) = Suc i" "worker_params (mux s) = untaken N (Suc i)" "i \<le> N" by (simp_all add: startup_inv_def)
    with Launch_Workers spawns fine show ?thesis
      by (cases "i < N") (simp_all add: node_listener_step_def launch_worker_def launch_thread_Done startup_work_def untaken_simps Let_def)
  next
    case Waiting
    with inv all fine show ?thesis by (simp add: startup_inv_def node_listener_step_def startup_work_def untaken_simps)
  qed (use inv assms(4) in \<open>auto simp: startup_inv_def\<close>)
  then show ?thesis using startup_step.Caller by blast
qed

lemma startup_finishes:
  assumes "startup_inv N s" and "\<forall>t. spawns t" and "Broken \<notin> set (phases s)"
  shows "\<exists>s'. (startup_step spawns current)\<^sup>*\<^sup>* s s' \<and> caller s' = Returned"
  using assms
proof (induction "startup_work N s" arbitrary: s rule: less_induct)
  case less
  show ?case
  proof (cases "caller s = Returned")
    case False
    from startup_progress [OF less.prems False] obtain s1 where s1: "startup_step spawns current s s1"
      "Broken \<notin> set (phases s1)" "startup_work N s1 < startup_work N s" by blast
    from less.hyps [OF s1(3) startup_inv_step [OF s1(1) less.prems(1,2)] less.prems(2) s1(2)] s1(1)
    show ?thesis by (blast intro: converse_rtranclp_into_rtranclp)
  qed blast
qed

lemma update_keeps: "y \<in> set xs \<Longrightarrow> xs ! t \<noteq> y \<Longrightarrow> y \<in> set (xs[t := z])"
  by (metis in_set_conv_nth length_list_update nth_list_update_neq)

lemma broken_stays: "startup_step spawns current s s' \<Longrightarrow> Broken \<in> set (phases s) \<Longrightarrow> Broken \<in> set (phases s')"
proof (induction rule: startup_step.induct)
  case (Caller s)
  then show ?case
    by (auto simp: node_listener_step_def launch_master_def launch_worker_def launch_thread_def Let_def result_simps
        split: caller.splits exec.splits option.splits)
qed (auto intro: update_keeps)

lemma broken_blocks:
  assumes "startup_inv N s" and "Broken \<in> set (phases s)"
  shows "caller s \<noteq> Returned"
proof
  assume "caller s = Returned"
  with assms(1) have "length (filter counted (phases s)) = length (phases s)" by (simp add: startup_inv_def)
  with length_filter_less [OF assms(2), of counted] show False by (simp add: counted_def)
qed

lemma broken_never_returns:
  assumes "(startup_step spawns current)\<^sup>*\<^sup>* s s'" and "startup_inv N s" and "\<forall>t. spawns t" and "Broken \<in> set (phases s)"
  shows "caller s' \<noteq> Returned"
proof -
  from assms(1,4) have "Broken \<in> set (phases s')" by (induction rule: rtranclp_induct) (auto intro: broken_stays)
  with startup_inv_run [OF assms(1-3)] show ?thesis by (rule broken_blocks)
qed

lemma returned_all_counted:
  assumes "startup_inv N s" and "caller s = Returned"
  shows "length (phases s) = Suc N \<and> (\<forall>p \<in> set (phases s). counted p)"
proof
  show len: "length (phases s) = Suc N" using assms by (simp add: startup_inv_def)
  have "length (filter counted (phases s)) = length (phases s)" using assms len by (simp add: startup_inv_def)
  then show "\<forall>p \<in> set (phases s). counted p" by (metis length_filter_less less_irrefl)
qed


section \<open>Waiting for the end\<close>

lemma try_join_eq:
  "try_join finish thr =
     (case join_handle thr of
        None \<Rightarrow> Some (Done (thr\<lparr>join_handle := None\<rparr>))
      | Some t \<Rightarrow>
          if finish t = Some Thread_Finished then Some (Done (thr\<lparr>join_handle := None\<rparr>))
          else if finish t = None then None else Some Panic)"
  by (cases thr) (auto simp: try_join_def join_def split: option.splits thread_end.splits)

lemma NodeTask_wait_eq:
  "NodeTask_wait finish thrs =
     (case dropWhile (\<lambda>t. finish t = Some Thread_Finished) (List.map_filter join_handle thrs) of
        [] \<Rightarrow> Some (Done (map (join_handle_update (\<lambda>_. None)) thrs))
      | t # _ \<Rightarrow> if finish t = None then None else Some Panic)"
  by (induction thrs)
    (auto simp: try_join_eq map_filter_simps result_simps split: option.splits list.splits simp del: dropWhile_eq_Nil_conv)

lemma map_filter_handles: "map join_handle thrs = map Some ts \<Longrightarrow> List.map_filter join_handle thrs = ts"
  by (induction thrs arbitrary: ts) (auto simp: map_filter_simps Cons_eq_map_conv)

lemma waited_again: "NodeTask_wait finish (map (join_handle_update (\<lambda>_. None)) thrs) = Some (Done (map (join_handle_update (\<lambda>_. None)) thrs))"
  by (induction thrs) (simp_all add: try_join_def result_simps)


section \<open>Properties\<close>

text \<open>
  C18: Starting a node is a barrier. While the system can make threads, the caller never panics, and when
  \<open>node_listener_for_each_async\<close> returns, the master and every worker run on a thread of their own, each was given the
  parameter of its own controller once, and each has counted itself. At every moment before that, the caller can still
  return as long as no thread panicked while it built its worker; after such a panic it waits forever.
\<close>
theorem startup_barrier:
  assumes "(startup_step spawns current)\<^sup>*\<^sup>* (startup_init N) s" and "\<forall>t. spawns t"
  shows "caller s \<noteq> Aborted \<and>
    (caller s = Returned \<longrightarrow> params s = map (\<lambda>i. CONTROLLER_ID_BASE + i) [0 ..< Suc N] \<and> length (phases s) = Suc N \<and>
       (\<forall>p \<in> set (phases s). p = Looping \<or> p = Ended \<or> p = Crashed)) \<and>
    (if Broken \<in> set (phases s) then \<forall>s'. (startup_step spawns current)\<^sup>*\<^sup>* s s' \<longrightarrow> caller s' \<noteq> Returned
     else \<exists>s'. (startup_step spawns current)\<^sup>*\<^sup>* s s' \<and> caller s' = Returned)"
proof -
  have inv: "startup_inv N s" using startup_inv_run [OF assms(1) startup_inv_init assms(2)] .
  then have "params s = map (\<lambda>i. CONTROLLER_ID_BASE + i) [0 ..< length (phases s)]" "caller s \<noteq> Aborted"
    by (simp_all add: startup_inv_def)
  with returned_all_counted [OF inv] startup_finishes [OF inv assms(2)] broken_never_returns [OF _ inv assms(2)]
  show ?thesis by (auto simp: counted_def)
qed

lemma broken_start:
  "\<exists>s. (startup_step (\<lambda>_. True) None)\<^sup>*\<^sup>* (startup_init 1) s \<and> phases s = [Broken]"
proof -
  let ?s = "node_listener_step (\<lambda>_. True) None (startup_init 1)"
  have one: "phases ?s = [Created]"
    by (simp add: node_listener_step_def startup_init_def launch_master_def fill_params_def launch_thread_Done)
  have "startup_step (\<lambda>_. True) None (startup_init 1) ?s" by (rule startup_step.Caller)
  moreover have "startup_step (\<lambda>_. True) None ?s (?s\<lparr>phases := (phases ?s)[0 := Broken]\<rparr>)"
    using one by (intro startup_step.Break) simp_all
  moreover have "phases (?s\<lparr>phases := (phases ?s)[0 := Broken]\<rparr>) = [Broken]" using one by simp
  ultimately show ?thesis by (metis (lifting) converse_rtranclp_into_rtranclp rtranclp.rtrancl_refl)
qed

theorem startup_barrier_witness:
  "(\<exists>s. (startup_step (\<lambda>_. True) None)\<^sup>*\<^sup>* (startup_init 1) s \<and> caller s = Returned \<and> params s = [CONTROLLER_ID_BASE, CONTROLLER_ID_BASE + 1]) \<and>
   (\<exists>s. (startup_step (\<lambda>_. True) None)\<^sup>*\<^sup>* (startup_init 1) s \<and>
      (\<forall>s'. (startup_step (\<lambda>_. True) None)\<^sup>*\<^sup>* s s' \<longrightarrow> caller s' \<noteq> Returned))"
proof
  note barrier = startup_barrier [of "\<lambda>_. True" None 1]
  have "phases (startup_init 1) = []" by (simp add: startup_init_def)
  with barrier [OF rtranclp.rtrancl_refl] obtain s where s: "(startup_step (\<lambda>_. True) None)\<^sup>*\<^sup>* (startup_init 1) s" "caller s = Returned"
    by auto
  with barrier [OF s(1)] show "\<exists>s. (startup_step (\<lambda>_. True) None)\<^sup>*\<^sup>* (startup_init 1) s \<and> caller s = Returned \<and>
      params s = [CONTROLLER_ID_BASE, CONTROLLER_ID_BASE + 1]" by auto
  from broken_start obtain s where s: "(startup_step (\<lambda>_. True) None)\<^sup>*\<^sup>* (startup_init 1) s" "phases s = [Broken]" by blast
  with barrier [OF s(1)] show "\<exists>s. (startup_step (\<lambda>_. True) None)\<^sup>*\<^sup>* (startup_init 1) s \<and>
      (\<forall>s'. (startup_step (\<lambda>_. True) None)\<^sup>*\<^sup>* s s' \<longrightarrow> caller s' \<noteq> Returned)" by auto
qed

text \<open>
  C23: Waiting for the task of a started node waits for each of its threads in order: the wait returns, with every
  handle taken, exactly when they all end without a panic; the first of them that panicked makes the wait panic and the
  later ones are not joined; the first that never ends makes it wait forever. A wait over an already finished
  task does not block.
\<close>
theorem task_wait_outcome:
  assumes "(startup_step spawns current)\<^sup>*\<^sup>* (startup_init N) s" and "\<forall>t. spawns t" and "caller s = Returned"
  shows "NodeTask_wait finish (task s) =
      (case dropWhile (\<lambda>t. finish t = Some Thread_Finished) [0 ..< Suc N] of
         [] \<Rightarrow> Some (Done (map (join_handle_update (\<lambda>_. None)) (task s)))
       | t # _ \<Rightarrow> if finish t = None then None else Some Panic) \<and>
    (\<forall>later thrs. NodeTask_wait finish (task s) = Some (Done thrs) \<longrightarrow> NodeTask_wait later thrs = Some (Done thrs))"
proof -
  have "startup_inv N s" using startup_inv_run [OF assms(1) startup_inv_init assms(2)] .
  with assms(3) have "map join_handle (task s) = map Some [0 ..< Suc N]" by (simp add: startup_inv_def)
  then have "List.map_filter join_handle (task s) = [0 ..< Suc N]" by (rule map_filter_handles)
  then show ?thesis using waited_again by (auto simp: NodeTask_wait_eq [of finish "task s"] split: list.splits if_splits)
qed

theorem task_wait_outcome_witness:
  "\<exists>s. (startup_step (\<lambda>_. True) None)\<^sup>*\<^sup>* (startup_init 1) s \<and> caller s = Returned \<and>
     NodeTask_wait (\<lambda>_. Some Thread_Finished) (task s) = Some (Done (map (join_handle_update (\<lambda>_. None)) (task s))) \<and>
     NodeTask_wait ((\<lambda>_. None)(0 := Some Thread_Panicked)) (task s) = Some Panic \<and>
     NodeTask_wait ((\<lambda>_. None)(0 := Some Thread_Finished)) (task s) = None"
proof -
  have "Broken \<notin> set (phases (startup_init 1))" by (simp add: startup_init_def)
  from startup_finishes [OF startup_inv_init _ this, of "\<lambda>_. True" None] obtain s
    where s: "(startup_step (\<lambda>_. True) None)\<^sup>*\<^sup>* (startup_init 1) s" "caller s = Returned" by auto
  note wait = task_wait_outcome [OF s(1) _ s(2)]
  from s wait show ?thesis by (intro exI [of _ s]) (simp add: upt_rec)
qed

end
