(* ===== verification/Udp.thy ===== *)
theory Udp
  imports Tcp
begin

text \<open>
  The UDP transport (\<open>adapters/udp.rs\<close>), which the build leaves out: its configurations, the remote and
  the local resource with their loops, and connecting and listening. The file is written for traits
  that take its own configurations; where it names \<open>ConnectConfig\<close> and \<open>ListenConfig\<close> it means
  \<open>UdpConnectConfig\<close> and \<open>UdpListenConfig\<close>, whose fields it uses. The system is Linux.
\<close>

section \<open>Configurations\<close>

definition MAX_INTERNET_PAYLOAD_LEN :: nat where "MAX_INTERNET_PAYLOAD_LEN = 1500 - 20 - 8"
definition MAX_LOCAL_PAYLOAD_LEN :: nat where "MAX_LOCAL_PAYLOAD_LEN = 65535 - 20 - 8"

record UdpConnectConfig =
  udp_source_address :: SocketAddr
  conn_broadcast :: bool
  conn_reuse_address :: bool
  conn_reuse_port :: bool

definition udp_with_source_address :: "UdpConnectConfig \<Rightarrow> SocketAddr \<Rightarrow> UdpConnectConfig" where
  "udp_with_source_address config a = config\<lparr>udp_source_address := a\<rparr>"

definition udp_with_broadcast :: "UdpConnectConfig \<Rightarrow> UdpConnectConfig" where
  "udp_with_broadcast config = config\<lparr>conn_broadcast := True\<rparr>"

definition conn_with_reuse_address :: "UdpConnectConfig \<Rightarrow> UdpConnectConfig" where
  "conn_with_reuse_address config = config\<lparr>conn_reuse_address := True\<rparr>"

definition conn_with_reuse_port :: "UdpConnectConfig \<Rightarrow> UdpConnectConfig" where
  "conn_with_reuse_port config = config\<lparr>conn_reuse_port := True\<rparr>"

definition UdpConnectConfig_default :: UdpConnectConfig where
  "UdpConnectConfig_default =
     \<lparr>udp_source_address = V4 0 0, conn_broadcast = False, conn_reuse_address = False, conn_reuse_port = False\<rparr>"

record UdpListenConfig =
  send_broadcasts :: bool
  receive_broadcasts :: bool
  listen_reuse_address :: bool
  listen_reuse_port :: bool

definition UdpListenConfig_default :: UdpListenConfig where
  "UdpListenConfig_default = \<lparr>send_broadcasts = False, receive_broadcasts = False,
     listen_reuse_address = False, listen_reuse_port = False\<rparr>"

definition with_send_broadcasts :: "UdpListenConfig \<Rightarrow> UdpListenConfig" where
  "with_send_broadcasts config = config\<lparr>send_broadcasts := True\<rparr>"

definition with_receive_broadcasts :: "UdpListenConfig \<Rightarrow> UdpListenConfig" where
  "with_receive_broadcasts config = config\<lparr>receive_broadcasts := True\<rparr>"

definition listen_with_reuse_address :: "UdpListenConfig \<Rightarrow> UdpListenConfig" where
  "listen_with_reuse_address config = config\<lparr>listen_reuse_address := True\<rparr>"

definition listen_with_reuse_port :: "UdpListenConfig \<Rightarrow> UdpListenConfig" where
  "listen_with_reuse_port config = config\<lparr>listen_reuse_port := True\<rparr>"

section \<open>Addresses\<close>

datatype IpAddr = Ip4 u32 | Ip6 "128 word"

definition addr_ip :: "SocketAddr \<Rightarrow> IpAddr" where
  "addr_ip a = (case a of V4 ip _ \<Rightarrow> Ip4 ip | V6 ip _ \<Rightarrow> Ip6 ip)"

definition addr_port :: "SocketAddr \<Rightarrow> u16" where
  "addr_port a = (case a of V4 _ p \<Rightarrow> p | V6 _ p \<Rightarrow> p)"

text \<open>\<open>Ipv4Addr::is_multicast\<close>: 224.0.0.0/4. \<open>UNSPECIFIED\<close> is 0, \<open>BROADCAST\<close> 255.255.255.255.\<close>

definition is_multicast :: "u32 \<Rightarrow> bool" where
  "is_multicast ip \<longleftrightarrow> drop_bit 28 ip = 14"

definition Ipv4_BROADCAST :: u32 where "Ipv4_BROADCAST = 4294967295"

definition unspecified :: "SocketAddr \<Rightarrow> SocketAddr" where
  "unspecified a = (case a of V4 _ p \<Rightarrow> V4 0 p | V6 _ p \<Rightarrow> V6 0 p)"

text \<open>A \<open>SockaddrStorage\<close> holds an IPv4 address, an IPv6 address or something else.\<close>

datatype SockaddrStorage = Sockaddr_in u32 u16 | Sockaddr_in6 "128 word" u16 | Sockaddr_other

definition convert_sockaddr :: "SockaddrStorage \<Rightarrow> SocketAddr option" where
  "convert_sockaddr s =
     (case s of Sockaddr_in ip p \<Rightarrow> Some (V4 ip p) | Sockaddr_in6 ip p \<Rightarrow> Some (V6 ip p) | Sockaddr_other \<Rightarrow> None)"

record ifaddr =
  interface_name :: string
  if_address :: "SockaddrStorage option"
  if_broadcast :: "SockaddrStorage option"

datatype ControlMessage = Ipv4PacketInfo u32 | Ipv6PacketInfo "128 word" | OtherControl

record recv_msg =
  msg_bytes :: bytes
  msg_cmsgs :: "ControlMessage list"
  msg_address :: "SockaddrStorage option"

section \<open>The system\<close>

text \<open>
  The calls on a socket while it is set up. The answer to a call may depend on the calls before it, as
  may the local address. The received datagrams and the answers to sends are numbered; \<open>EWOULDBLOCK\<close> of
  \<open>recvmsg\<close> is \<open>WouldBlock\<close>. \<open>Ipv4PacketInfo\<close> carries the address as \<open>s_addr.to_be()\<close> gives it.
\<close>

datatype sock_call =
    Sock_nonblocking
  | Sock_reuse_address bool
  | Sock_reuse_port bool
  | Sock_broadcast bool
  | Sock_packet_info Domain
  | Sock_bind_to_device string
  | Sock_join_multicast u32
  | Sock_leave_multicast u32
  | Sock_bind SocketAddr
  | Sock_connect SocketAddr

record udp_os =
  udp_socket_new :: "Domain \<Rightarrow> io_error + source"
  answer :: "sock_call list \<Rightarrow> sock_call \<Rightarrow> io_error + unit"
  udp_local_addr :: "sock_call list \<Rightarrow> io_error + SocketAddr"
  getifaddrs :: "io_error + ifaddr list"
  recv :: "nat \<Rightarrow> io_error + bytes"
  recv_from :: "nat \<Rightarrow> io_error + bytes \<times> SocketAddr"
  recvmsg :: "nat \<Rightarrow> io_error + recv_msg"

text \<open>A sequence of calls, each followed by \<open>?\<close>: it ends with the first call that fails.\<close>

fun sock_calls :: "udp_os \<Rightarrow> sock_call list \<Rightarrow> sock_call list \<Rightarrow> sock_call list \<times> (io_error + unit)" where
  "sock_calls io log [] = (log, Ok ())"
| "sock_calls io log (c # cs) =
     (case answer io log c of Inl e \<Rightarrow> (log @ [c], Err e) | Inr _ \<Rightarrow> sock_calls io (log @ [c]) cs)"

section \<open>Remote resources\<close>

record UdpRemote =
  udp_remote_socket :: source

definition udp_connect_with ::
  "udp_os \<Rightarrow> UdpConnectConfig \<Rightarrow> RemoteAddr \<Rightarrow>
   (sock_call list \<times> (io_error + UdpRemote \<times> SocketAddr \<times> SocketAddr)) exec" where
  "udp_connect_with io config remote_addr =
     xbind (socket_addr remote_addr) (\<lambda>peer_addr.
     Done (case udp_socket_new io (domain_of peer_addr) of
        Inl e \<Rightarrow> ([], Err e)
      | Inr socket \<Rightarrow>
          (case sock_calls io [] [Sock_nonblocking, Sock_reuse_address (conn_reuse_address config),
              Sock_reuse_port (conn_reuse_port config), Sock_broadcast (conn_broadcast config),
              Sock_bind (udp_source_address config), Sock_connect peer_addr] of
             (log, ret) \<Rightarrow> (log, rbind ret (\<lambda>_. rbind (udp_local_addr io log) (\<lambda>local_addr.
               Ok (\<lparr>udp_remote_socket = socket\<rparr>, local_addr, peer_addr)))))))"

partial_function (option) udp_receive_loop ::
  "(nat \<Rightarrow> io_error + bytes) \<Rightarrow> nat \<Rightarrow> bytes list \<Rightarrow> (nat \<times> bytes list \<times> ReadStatus) option" where
  "udp_receive_loop rcv n datas =
     (case rcv n of
        Inr data \<Rightarrow> udp_receive_loop rcv (Suc n) (datas @ [data])
      | Inl e \<Rightarrow>
          if e = WouldBlock then Some (Suc n, datas, WaitNextEvent)
          else if e = ConnectionRefused then Some (Suc n, datas, WaitNextEvent)
          else Some (Suc n, datas, WaitNextEvent))"

definition udp_receive :: "udp_os \<Rightarrow> UdpRemote \<Rightarrow> (udp_os \<times> bytes list \<times> ReadStatus) option" where
  "udp_receive io r =
     map_option (\<lambda>(n, datas, status). (io\<lparr>recv := \<lambda>k. recv io (n + k)\<rparr>, datas, status)) (udp_receive_loop (recv io) 0 [])"

text \<open>\<open>send_packet\<close>; the answers of the sending method are numbered.\<close>

partial_function (option) send_packet :: "(nat \<Rightarrow> io_error + nat) \<Rightarrow> nat \<Rightarrow> SendStatus option" where
  "send_packet send_method n =
     (case send_method n of
        Inr _ \<Rightarrow> Some Sent
      | Inl e \<Rightarrow>
          if e = ConnectionRefused then Some ResourceNotFound
          else if e = WouldBlock then send_packet send_method (Suc n)
          else if e = OtherKind then Some MaxPacketSizeExceeded
          else Some ResourceNotFound)"

definition udp_send :: "(bytes \<Rightarrow> nat \<Rightarrow> io_error + nat) \<Rightarrow> UdpRemote \<Rightarrow> bytes \<Rightarrow> SendStatus option" where
  "udp_send sends r data = send_packet (sends data) 0"

definition udp_pending :: "UdpRemote \<Rightarrow> PendingStatus" where
  "udp_pending r = Ready"

section \<open>Local resources\<close>

record UdpLocal =
  udp_local_socket :: source
  ingress_addresses :: "IpAddr list option"

definition ingress_ip :: "recv_msg \<Rightarrow> IpAddr option" where
  "ingress_ip msg =
     (case List.map_filter (\<lambda>c. case c of Ipv4PacketInfo ip \<Rightarrow> Some (Ip4 ip) | Ipv6PacketInfo ip \<Rightarrow> Some (Ip6 ip)
         | OtherControl \<Rightarrow> None) (msg_cmsgs msg) of
        [] \<Rightarrow> None
      | ip # _ \<Rightarrow> Some ip)"

partial_function (option) accept_filtered ::
  "(nat \<Rightarrow> io_error + recv_msg) \<Rightarrow> IpAddr list \<Rightarrow> nat \<Rightarrow> AcceptedType list \<Rightarrow> (nat \<times> AcceptedType list) option" where
  "accept_filtered rcv ingress n accepted =
     (case rcv n of
        Inr msg \<Rightarrow>
          (case ingress_ip msg of
             None \<Rightarrow> accept_filtered rcv ingress (Suc n) accepted
           | Some ip \<Rightarrow>
               if ip \<notin> set ingress then accept_filtered rcv ingress (Suc n) accepted
               else
                 (case Option.bind (msg_address msg) convert_sockaddr of
                    None \<Rightarrow> accept_filtered rcv ingress (Suc n) accepted
                  | Some a \<Rightarrow> accept_filtered rcv ingress (Suc n) (accepted @ [AcceptedData a (msg_bytes msg)])))
      | Inl e \<Rightarrow> if e = WouldBlock then Some (Suc n, accepted) else Some (Suc n, accepted))"

partial_function (option) udp_accept_loop ::
  "(nat \<Rightarrow> io_error + bytes \<times> SocketAddr) \<Rightarrow> nat \<Rightarrow> AcceptedType list \<Rightarrow> (nat \<times> AcceptedType list) option" where
  "udp_accept_loop rcv n accepted =
     (case rcv n of
        Inr (data, a) \<Rightarrow> udp_accept_loop rcv (Suc n) (accepted @ [AcceptedData a data])
      | Inl e \<Rightarrow> if e = WouldBlock then Some (Suc n, accepted) else Some (Suc n, accepted))"

definition udp_accept :: "udp_os \<Rightarrow> UdpLocal \<Rightarrow> (udp_os \<times> AcceptedType list) option" where
  "udp_accept io l =
     (case ingress_addresses l of
        Some ingress \<Rightarrow>
          map_option (\<lambda>(n, accepted). (io\<lparr>recvmsg := \<lambda>k. recvmsg io (n + k)\<rparr>, accepted)) (accept_filtered (recvmsg io) ingress 0 [])
      | None \<Rightarrow>
          map_option (\<lambda>(n, accepted). (io\<lparr>recv_from := \<lambda>k. recv_from io (n + k)\<rparr>, accepted)) (udp_accept_loop (recv_from io) 0 []))"

definition udp_send_to :: "(SocketAddr \<Rightarrow> bytes \<Rightarrow> nat \<Rightarrow> io_error + nat) \<Rightarrow> UdpLocal \<Rightarrow> SocketAddr \<Rightarrow> bytes \<Rightarrow> SendStatus option" where
  "udp_send_to sends l a data = send_packet (sends a data) 0"

text \<open>Listening: the group of a multicast address, and the addresses from which broadcasts are taken.\<close>

definition multicast_of :: "SocketAddr \<Rightarrow> u32 option" where
  "multicast_of a = (case a of V4 ip _ \<Rightarrow> if is_multicast ip then Some ip else None | V6 _ _ \<Rightarrow> None)"

definition ifaddr_matches :: "SocketAddr \<Rightarrow> ifaddr \<Rightarrow> bool" where
  "ifaddr_matches a i =
     (case if_address i of
        Some (Sockaddr_in ip _) \<Rightarrow> Ip4 ip = addr_ip a
      | Some (Sockaddr_in6 ip _) \<Rightarrow> Ip6 ip = addr_ip a
      | _ \<Rightarrow> False)"

definition ingress_of :: "SocketAddr \<Rightarrow> ifaddr \<Rightarrow> IpAddr list" where
  "ingress_of a i = [addr_ip a] @
     (case if_broadcast i of
        Some (Sockaddr_in ip _) \<Rightarrow> [Ip4 ip, Ip4 Ipv4_BROADCAST]
      | Some (Sockaddr_in6 ip _) \<Rightarrow> [Ip6 ip]
      | _ \<Rightarrow> [])"

definition broadcast_setup ::
  "udp_os \<Rightarrow> sock_call list \<Rightarrow> SocketAddr \<Rightarrow> sock_call list \<times> (io_error + SocketAddr \<times> IpAddr list option)" where
  "broadcast_setup io log a =
     (case sock_calls io log [Sock_packet_info (domain_of a)] of
        (log, Inl e) \<Rightarrow> (log, Err e)
      | (log, Inr _) \<Rightarrow>
          (case getifaddrs io of
             Inl e \<Rightarrow> (log, Err e)
           | Inr ifaddrs \<Rightarrow>
               (case find (ifaddr_matches a) ifaddrs of
                  None \<Rightarrow> (log, Err AddrNotAvailable)
                | Some i \<Rightarrow>
                    (case sock_calls io log [Sock_bind_to_device (interface_name i)] of
                       (log, ret) \<Rightarrow> (log, rbind ret (\<lambda>_. Ok (unspecified a, Some (ingress_of a i))))))))"

definition udp_listen_with ::
  "udp_os \<Rightarrow> UdpListenConfig \<Rightarrow> SocketAddr \<Rightarrow> (sock_call list \<times> (io_error + UdpLocal \<times> SocketAddr)) exec" where
  "udp_listen_with io config a =
     (let multicast = multicast_of a in
      case udp_socket_new io (domain_of a) of
        Inl e \<Rightarrow> Done ([], Err e)
      | Inr socket \<Rightarrow>
          (case sock_calls io [] ([Sock_nonblocking] @
              (if listen_reuse_address config \<or> multicast \<noteq> None then [Sock_reuse_address True] else []) @
              (if listen_reuse_port config \<or> multicast \<noteq> None then [Sock_reuse_port True] else []) @
              [Sock_broadcast (send_broadcasts config)]) of
             (log, Inl e) \<Rightarrow> Done (log, Err e)
           | (log, Inr _) \<Rightarrow>
               (case (if receive_broadcasts config then broadcast_setup io log a else (log, Ok (a, None))) of
                  (log, Inl e) \<Rightarrow> Done (log, Err e)
                | (log, Inr (a, ingress)) \<Rightarrow>
                    (case sock_calls io log (case multicast of
                         Some ip \<Rightarrow> [Sock_join_multicast ip, Sock_bind (V4 0 (addr_port a))]
                       | None \<Rightarrow> [Sock_bind a]) of
                       (log, Inl e) \<Rightarrow> Done (log, Err e)
                     | (log, Inr _) \<Rightarrow>
                         xbind (unwrap (udp_local_addr io log)) (\<lambda>local_addr.
                         Done (log, Ok (\<lparr>udp_local_socket = socket, ingress_addresses = ingress\<rparr>, local_addr)))))))"

definition udp_drop :: "udp_os \<Rightarrow> sock_call list \<Rightarrow> sock_call list exec" where
  "udp_drop io log =
     xbind (unwrap (udp_local_addr io log)) (\<lambda>local_addr.
     case local_addr of
       V4 ip _ \<Rightarrow>
         if is_multicast ip
         then xbind (unwrap (answer io log (Sock_leave_multicast ip))) (\<lambda>_. Done (log @ [Sock_leave_multicast ip]))
         else Done log
     | V6 _ _ \<Rightarrow> Done log)"

section \<open>The loops\<close>

text \<open>
  A loop that takes datagrams until an error, keeping what \<open>out\<close> makes of each. The three loops of the
  transport are instances.
\<close>

locale datagram_loop =
  fixes loop :: "(nat \<Rightarrow> io_error + 'd) \<Rightarrow> nat \<Rightarrow> 'o list \<Rightarrow> 'r option"
    and out :: "'d \<Rightarrow> 'o option"
    and stop :: "nat \<Rightarrow> 'o list \<Rightarrow> 'r"
  assumes more: "rcv n = Ok d \<Longrightarrow> loop rcv n acc = loop rcv (Suc n) (acc @ (case out d of None \<Rightarrow> [] | Some x \<Rightarrow> [x]))"
    and ended: "rcv n = Err e \<Longrightarrow> loop rcv n acc = Some (stop (Suc n) acc)"
begin

lemma loop_exact:
  assumes "\<forall>k < length ds. rcv (n + k) = Ok (ds ! k)" and "rcv (n + length ds) = Err e"
  shows "loop rcv n acc = Some (stop (Suc (n + length ds)) (acc @ List.map_filter out ds))"
  using assms
proof (induction ds arbitrary: n acc)
  case Nil
  then show ?case by (simp add: ended List.map_filter_def)
next
  case (Cons d ds)
  from Cons.prems(1) have "rcv n = Ok d" by (metis add_0_right length_greater_0_conv list.distinct(1) nth_Cons_0)
  moreover from Cons.prems(1) have "\<forall>k < length ds. rcv (Suc n + k) = Ok (ds ! k)" by auto
  moreover from Cons.prems(2) have "rcv (Suc n + length ds) = Err e" by simp
  ultimately show ?case
    using Cons.IH [of "Suc n"] by (simp add: more List.map_filter_def split: option.splits)
qed

end

interpretation rcv: datagram_loop udp_receive_loop Some "\<lambda>n datas. (n, datas, WaitNextEvent)"
  by unfold_locales (subst udp_receive_loop.simps, simp)+

interpretation acc: datagram_loop udp_accept_loop "\<lambda>(data, a). Some (AcceptedData a data)" Pair
  by unfold_locales (subst udp_accept_loop.simps, simp split: prod.splits)+

definition admitted :: "IpAddr list \<Rightarrow> recv_msg \<Rightarrow> AcceptedType option" where
  "admitted ingress msg =
     (if \<exists>ip \<in> set ingress. ingress_ip msg = Some ip
      then map_option (\<lambda>a. AcceptedData a (msg_bytes msg)) (Option.bind (msg_address msg) convert_sockaddr) else None)"

interpretation flt: datagram_loop "\<lambda>rcv. accept_filtered rcv ingress" "admitted ingress" Pair for ingress
  by unfold_locales (subst accept_filtered.simps, auto simp: admitted_def split: option.splits)+

section \<open>The calls\<close>

lemma sock_calls_Ok: "sock_calls io log cs = (log', Ok u) \<Longrightarrow> log' = log @ cs"
  by (induction cs arbitrary: log) (auto split: sum.splits, fastforce)

lemma broadcast_setup_Ok:
  assumes "broadcast_setup io log a = (log', Ok (b, ingress))"
  shows "b = unspecified a \<and> (\<exists>ifaddrs i. getifaddrs io = Ok ifaddrs \<and> find (ifaddr_matches a) ifaddrs = Some i \<and>
    ingress = Some (ingress_of a i) \<and>
    log' = log @ [Sock_packet_info (domain_of a), Sock_bind_to_device (interface_name i)])"
  using assms by (auto simp: broadcast_setup_def rbind_def split: sum.splits option.splits prod.splits)

lemma not_multicast_0 [simp]: "\<not> is_multicast 0"
  by (simp add: is_multicast_def)

lemma unspecified_simps [simp]: "addr_port (unspecified a) = addr_port a" "multicast_of (unspecified a) = None"
  by (cases a, simp_all add: unspecified_def addr_port_def multicast_of_def)+

definition setup_calls :: "UdpListenConfig \<Rightarrow> bool \<Rightarrow> sock_call list" where
  "setup_calls config multicast = [Sock_nonblocking] @
     (if listen_reuse_address config \<or> multicast then [Sock_reuse_address True] else []) @
     (if listen_reuse_port config \<or> multicast then [Sock_reuse_port True] else []) @
     [Sock_broadcast (send_broadcasts config)]"

definition bind_calls :: "SocketAddr \<Rightarrow> SocketAddr \<Rightarrow> sock_call list" where
  "bind_calls a b = (case multicast_of a of Some ip \<Rightarrow> [Sock_join_multicast ip, Sock_bind (V4 0 (addr_port b))] | None \<Rightarrow> [Sock_bind b])"

lemma listen_calls:
  assumes "udp_listen_with io config a = Done (log, Ok (l, b))"
  obtains device where "log = setup_calls config (multicast_of a \<noteq> None) @ device @
      bind_calls a (if receive_broadcasts config then unspecified a else a)"
    "udp_local_addr io log = Ok b"
    "if receive_broadcasts config then \<exists>ifaddrs i. getifaddrs io = Ok ifaddrs \<and> find (ifaddr_matches a) ifaddrs = Some i \<and>
        ingress_addresses l = Some (ingress_of a i) \<and>
        device = [Sock_packet_info (domain_of a), Sock_bind_to_device (interface_name i)]
     else device = [] \<and> ingress_addresses l = None"
  using assms
  by (auto simp: udp_listen_with_def Let_def setup_calls_def bind_calls_def xbind_def unwrap_def
      dest!: sock_calls_Ok broadcast_setup_Ok split: sum.splits prod.splits if_splits exec.splits)

text \<open>The address a listener is bound to is never a multicast address.\<close>

lemma bind_calls_last:
  obtains pre b' where "bind_calls a (if rb then unspecified a else a) = pre @ [Sock_bind b']" "multicast_of b' = None"
proof (cases "multicast_of a")
  case None
  then show ?thesis using that [of "[]" "if rb then unspecified a else a"] by (auto simp: bind_calls_def)
next
  case (Some ip)
  then show ?thesis
    using that [of "[Sock_join_multicast ip]" "V4 0 (addr_port a)"] by (auto simp: bind_calls_def multicast_of_def)
qed

lemma drop_silent: "udp_local_addr io log = Ok b \<Longrightarrow> multicast_of b = None \<Longrightarrow> udp_drop io log = Done log"
  by (auto simp: udp_drop_def unwrap_def multicast_of_def xbind_def split: SocketAddr.splits if_splits)

lemma multicast_of_ip: "addr_ip b = addr_ip c \<Longrightarrow> multicast_of b = multicast_of c"
  by (cases b; cases c) (simp_all add: addr_ip_def multicast_of_def)

section \<open>Sending\<close>

text \<open>A socket that is never writable keeps \<open>send_packet\<close> for ever; otherwise the first other answer decides.\<close>

lemma send_packet_waits:
  "\<forall>k < m. f (n + k) = Err WouldBlock \<Longrightarrow> send_packet f n = send_packet f (n + m)"
proof (induction m arbitrary: n)
  case (Suc m)
  from Suc.prems have "f n = Err WouldBlock" by (metis add_0_right zero_less_Suc)
  then have "send_packet f n = send_packet f (Suc n)" by (subst send_packet.simps) simp
  also have "\<dots> = send_packet f (Suc n + m)" using Suc.prems by (intro Suc.IH) auto
  finally show ?case by simp
qed simp

lemma send_packet_spins: "\<forall>k. f k = Err WouldBlock \<Longrightarrow> send_packet f n = None"
proof -
  have "send_packet f n = Some st \<Longrightarrow> (\<forall>k. f k = Err WouldBlock) \<longrightarrow> False" for f n st
    by (erule send_packet.raw_induct [rotated]) (fastforce split: sum.splits if_splits)
  then show "\<forall>k. f k = Err WouldBlock \<Longrightarrow> send_packet f n = None" by (cases "send_packet f n") (simp, blast)
qed

theorem udp_send_outcome:
  "((\<forall>k. sends data k = Err WouldBlock) \<longrightarrow> udp_send sends r data = None) \<and>
   ((\<forall>k < n. sends data k = Err WouldBlock) \<and> sends data n \<noteq> Err WouldBlock \<longrightarrow>
     udp_send sends r data = Some (case sends data n of Inr _ \<Rightarrow> Sent
       | Inl e \<Rightarrow> if e = OtherKind then MaxPacketSizeExceeded else ResourceNotFound))"
  using send_packet_spins [of "sends data" 0] send_packet_waits [of n "sends data" 0] send_packet.simps [of "sends data" n]
  by (auto simp: udp_send_def split: sum.splits)

section \<open>Properties\<close>

text \<open>
  One call hands over exactly the datagrams the socket has up to the first error, whole and in
  order: \<open>receive\<close> all of them, \<open>accept\<close> all of them with their senders, and on a listener that takes
  broadcasts those that came in by one of its addresses from a known sender. The error may be any
  one, not only that the socket is empty: what is behind an interruption or a refusal reported by
  ICMP is left for a later call.
\<close>
theorem udp_datagrams_exact:
  assumes "\<forall>k < length datas. recv io k = Ok (datas ! k)" and "recv io (length datas) = Err e1"
    and "\<forall>k < length froms. recv_from io k = Ok (froms ! k)" and "recv_from io (length froms) = Err e2"
    and "\<forall>k < length msgs. recvmsg io k = Ok (msgs ! k)" and "recvmsg io (length msgs) = Err e3"
  shows "udp_receive io r = Some (io\<lparr>recv := \<lambda>k. recv io (Suc (length datas + k))\<rparr>, datas, WaitNextEvent) \<and>
    udp_accept io (l\<lparr>ingress_addresses := None\<rparr>) = Some (io\<lparr>recv_from := \<lambda>k. recv_from io (Suc (length froms + k))\<rparr>,
      map (\<lambda>(data, a). AcceptedData a data) froms) \<and>
    udp_accept io (l\<lparr>ingress_addresses := Some ingress\<rparr>) = Some (io\<lparr>recvmsg := \<lambda>k. recvmsg io (Suc (length msgs + k))\<rparr>,
      List.map_filter (admitted ingress) msgs)"
proof -
  have all: "List.map_filter (\<lambda>x. Some (f x)) xs = map f xs" for f :: "'x \<Rightarrow> 'y" and xs
    by (simp add: List.map_filter_def)
  show ?thesis
    using rcv.loop_exact [of datas "recv io" 0] acc.loop_exact [of froms "recv_from io" 0]
      flt.loop_exact [of msgs "recvmsg io" 0 _ ingress "[]"] assms all [of id]
    by (simp add: udp_receive_def udp_accept_def case_prod_beta' all)
qed

text \<open>
  C31: A listener is set up by exactly the calls its configuration asks for, in order: a multicast
  address is always shared, its group is joined and the socket bound to any address; a listener that
  takes broadcasts is tied to the interface that has its address, which must exist, and bound to any
  address as well. Since a socket has the address it was bound to, dropping the listener makes no call: the
  group it joined is never left by it.
\<close>
theorem udp_listen_exact:
  assumes "\<forall>log c d. udp_local_addr io (log @ [Sock_bind c]) = Ok d \<longrightarrow> addr_ip d = addr_ip c"
    and "udp_listen_with io config a = Done (log, Ok (l, b))"
  shows "(\<exists>device. log = setup_calls config (multicast_of a \<noteq> None) @ device @
      bind_calls a (if receive_broadcasts config then unspecified a else a) \<and>
      (if receive_broadcasts config
       then \<exists>ifaddrs i. getifaddrs io = Ok ifaddrs \<and> find (ifaddr_matches a) ifaddrs = Some i \<and>
         ingress_addresses l = Some (ingress_of a i) \<and>
         device = [Sock_packet_info (domain_of a), Sock_bind_to_device (interface_name i)]
       else device = [] \<and> ingress_addresses l = None)) \<and>
    udp_drop io log = Done log"
proof -
  obtain device where log: "log = setup_calls config (multicast_of a \<noteq> None) @ device @
      bind_calls a (if receive_broadcasts config then unspecified a else a)"
    and bound: "udp_local_addr io log = Ok b"
    and device: "if receive_broadcasts config then \<exists>ifaddrs i. getifaddrs io = Ok ifaddrs \<and>
        find (ifaddr_matches a) ifaddrs = Some i \<and> ingress_addresses l = Some (ingress_of a i) \<and>
        device = [Sock_packet_info (domain_of a), Sock_bind_to_device (interface_name i)]
     else device = [] \<and> ingress_addresses l = None"
    by (rule listen_calls [OF assms(2)])
  obtain pre c where last: "bind_calls a (if receive_broadcasts config then unspecified a else a) = pre @ [Sock_bind c]"
    and c: "multicast_of c = None" by (rule bind_calls_last)
  from bound have "udp_local_addr io ((setup_calls config (multicast_of a \<noteq> None) @ device @ pre) @ [Sock_bind c]) = Ok b"
    by (simp add: log last)
  with assms(1) c have "multicast_of b = None" using multicast_of_ip by metis
  with bound have "udp_drop io log = Done log" by (rule drop_silent)
  with log device show ?thesis by blast
qed

text \<open>A system with one interface, on which every call succeeds and a socket has the address it was bound to.\<close>

definition demo_interface :: ifaddr where
  "demo_interface = \<lparr>interface_name = ''eth0'', if_address = Some (Sockaddr_in 167772161 0),
     if_broadcast = Some (Sockaddr_in 167772415 0)\<rparr>"

definition bound_to :: "sock_call list \<Rightarrow> io_error + SocketAddr" where
  "bound_to log = (case rev log of Sock_bind a # _ \<Rightarrow> Ok a | _ \<Rightarrow> Err InvalidInput)"

definition demo_udp :: udp_os where
  "demo_udp = \<lparr>udp_socket_new = \<lambda>_. Ok 7, answer = \<lambda>_ _. Ok (), udp_local_addr = bound_to, getifaddrs = Ok [demo_interface],
     recv = \<lambda>k. if k = 0 then Ok [1, 2] else Err ConnectionRefused,
     recv_from = \<lambda>k. if k = 0 then Ok ([3], V4 5 6) else Err WouldBlock,
     recvmsg = \<lambda>k. if k < 2 then Ok \<lparr>msg_bytes = [4], msg_cmsgs = [Ipv4PacketInfo (if k = 0 then 167772161 else 3)],
       msg_address = Some (Sockaddr_in 5 6)\<rparr> else Err WouldBlock\<rparr>"

theorem udp_datagrams_exact_witness:
  "udp_receive demo_udp \<lparr>udp_remote_socket = 7\<rparr> =
     Some (demo_udp\<lparr>recv := \<lambda>k. recv demo_udp (Suc (Suc k))\<rparr>, [[1, 2]], WaitNextEvent) \<and>
   udp_accept demo_udp \<lparr>udp_local_socket = 7, ingress_addresses = Some [Ip4 167772161]\<rparr> =
     Some (demo_udp\<lparr>recvmsg := \<lambda>k. recvmsg demo_udp (Suc (Suc (Suc k)))\<rparr>, [AcceptedData (V4 5 6) [4]])"
proof -
  let ?msg = "\<lambda>ip. \<lparr>msg_bytes = [4], msg_cmsgs = [Ipv4PacketInfo ip], msg_address = Some (Sockaddr_in 5 6)\<rparr>"
  have "List.map_filter (admitted [Ip4 167772161]) [?msg 167772161, ?msg 3] = [AcceptedData (V4 5 6) [4]]"
    by (simp add: List.map_filter_def admitted_def ingress_ip_def convert_sockaddr_def)
  then show ?thesis
    using udp_datagrams_exact [of "[[1, 2]]" demo_udp ConnectionRefused "[([3], V4 5 6)]" WouldBlock
        "[?msg 167772161, ?msg 3]" WouldBlock "\<lparr>udp_remote_socket = 7\<rparr>" "\<lparr>udp_local_socket = 7, ingress_addresses = None\<rparr>"
        "[Ip4 167772161]"]
    by (simp add: demo_udp_def less_Suc_eq numeral_2_eq_2)
qed

theorem udp_listen_exact_witness:
  "\<exists>log l b. udp_listen_with demo_udp UdpListenConfig_default (V4 3758096385 9) = Done (log, Ok (l, b)) \<and>
     Sock_join_multicast 3758096385 \<in> set log \<and> udp_drop demo_udp log = Done log"
proof -
  let ?log = "[Sock_nonblocking, Sock_reuse_address True, Sock_reuse_port True, Sock_broadcast False,
    Sock_join_multicast 3758096385, Sock_bind (V4 0 9)]"
  have listen: "udp_listen_with demo_udp UdpListenConfig_default (V4 3758096385 9) =
      Done (?log, Ok (\<lparr>udp_local_socket = 7, ingress_addresses = None\<rparr>, V4 0 9))"
    by (simp add: udp_listen_with_def demo_udp_def UdpListenConfig_default_def multicast_of_def is_multicast_def
        addr_port_def bound_to_def unwrap_def Let_def)
  have "udp_local_addr demo_udp (log @ [Sock_bind c]) = Ok d \<longrightarrow> addr_ip d = addr_ip c" for log c d
    by (simp add: demo_udp_def bound_to_def)
  then have "udp_drop demo_udp ?log = Done ?log" using udp_listen_exact [OF _ listen] by blast
  with listen show ?thesis by (intro exI conjI) (assumption, simp_all)
qed

end
