(* ===== verification/Ws_Http.thy ===== *)
theory Ws_Http
  imports Prelude "HOL-Library.Multiset"
begin

text \<open>
  The HTTP vocabulary of the websocket handshake: requests, responses, header maps and URIs as the
  \<open>http\<close> crate presents them, and the record \<open>http_crates\<close> of what the handshake calls in the crates
  \<open>http\<close>, \<open>httparse\<close>, \<open>sha1\<close>, \<open>data_encoding\<close> and \<open>rand\<close>. A \<open>str\<close> is the list of its bytes as
  characters. A \<open>HeaderMap\<close> is the list of its entries, names in lower case: it may hold several
  values for a name, \<open>get\<close> finds the first, \<open>append\<close> adds one at the end, \<open>remove\<close> takes all of them
  out and returns the first. The order in which the crate iterates over the entries is unspecified
  and is a field of the record.
\<close>

section \<open>Strings\<close>

definition as_bytes :: "string \<Rightarrow> bytes" where
  "as_bytes s = map of_char s"

definition ascii_lower :: "char \<Rightarrow> char" where
  "ascii_lower c =
     (let n = of_char c :: nat in if 65 \<le> n \<and> n \<le> 90 then char_of (n + 32) else c)"

definition to_ascii_lowercase :: "string \<Rightarrow> string" where
  "to_ascii_lowercase s = map ascii_lower s"

definition eq_ignore_ascii_case :: "string \<Rightarrow> string \<Rightarrow> bool" where
  "eq_ignore_ascii_case a b \<longleftrightarrow> to_ascii_lowercase a = to_ascii_lowercase b"

text \<open>\<open>str::split\<close> at the characters that satisfy \<open>p\<close>: there is always at least one piece.\<close>

fun str_split :: "(char \<Rightarrow> bool) \<Rightarrow> string \<Rightarrow> string list" where
  "str_split p [] = [[]]"
| "str_split p (c # cs) =
     (if p c then [] # str_split p cs
      else case str_split p cs of [] \<Rightarrow> [[c]] | w # ws \<Rightarrow> (c # w) # ws)"

text \<open>\<open>authority.find('@').map(|idx| authority.split_at(idx + 1).1)\<close>: what follows the first \<open>@\<close>.\<close>

fun after_first :: "char \<Rightarrow> string \<Rightarrow> string option" where
  "after_first c [] = None"
| "after_first c (x # xs) = (if x = c then Some xs else after_first c xs)"

definition CRLF :: string where
  "CRLF = [CHR 0x0D, CHR 0x0A]"

section \<open>Messages\<close>

datatype Version = HTTP_09 | HTTP_10 | HTTP_11 | HTTP_2 | HTTP_3

fun version_rank :: "Version \<Rightarrow> nat" where
  "version_rank HTTP_09 = 0"
| "version_rank HTTP_10 = 1"
| "version_rank HTTP_11 = 2"
| "version_rank HTTP_2 = 3"
| "version_rank HTTP_3 = 4"

lemma version_rank_inject: "version_rank a = version_rank b \<longleftrightarrow> a = b"
  by (cases a; cases b) simp_all

instantiation Version :: linorder
begin

definition less_eq_Version :: "Version \<Rightarrow> Version \<Rightarrow> bool" where
  "a \<le> b \<longleftrightarrow> version_rank a \<le> version_rank b"

definition less_Version :: "Version \<Rightarrow> Version \<Rightarrow> bool" where
  "a < b \<longleftrightarrow> version_rank a < version_rank b"

instance
  by standard (auto simp: less_eq_Version_def less_Version_def version_rank_inject)

end

type_synonym HeaderMap = "(string \<times> bytes) list"

record Uri =
  scheme_str :: "string option"
  authority :: "string option"
  uri_host :: "string option"
  port_u16 :: "u16 option"
  path_and_query :: "string option"
  uri_text :: string

record 'b HttpRequest =
  req_method :: string
  req_uri :: Uri
  req_version :: Version
  req_headers :: HeaderMap
  req_body :: 'b

record 'b HttpResponse =
  resp_status :: nat
  resp_version :: Version
  resp_headers :: HeaderMap
  resp_body :: 'b

definition header_get :: "string \<Rightarrow> HeaderMap \<Rightarrow> bytes option" where
  "header_get name m = map_of m (to_ascii_lowercase name)"

definition header_append :: "string \<Rightarrow> bytes \<Rightarrow> HeaderMap \<Rightarrow> HeaderMap" where
  "header_append name v m = m @ [(name, v)]"

definition header_remove :: "string \<Rightarrow> HeaderMap \<Rightarrow> bytes option \<times> HeaderMap" where
  "header_remove name m =
     (header_get name m, filter (\<lambda>(k, _). k \<noteq> to_ascii_lowercase name) m)"

section \<open>The external crates\<close>

datatype httparse_error = Httparse_TooManyHeaders | Httparse_Other

record raw_request =
  raw_method :: "string option"
  raw_path :: "string option"
  raw_req_version :: "nat option"
  raw_req_headers :: "(string \<times> bytes) list"

record raw_response =
  raw_resp_version :: "nat option"
  raw_code :: "nat option"
  raw_resp_headers :: "(string \<times> bytes) list"

text \<open>
  The parsers get the number of headers there is room for and answer \<open>None\<close> for \<open>Status::Partial\<close>
  and the size read for \<open>Status::Complete\<close>. \<open>name_from_bytes\<close>, \<open>value_from_bytes\<close>, \<open>value_from_str\<close> and
  \<open>value_to_str\<close> are the conversions of \<open>HeaderName\<close> and \<open>HeaderValue\<close>, \<open>random16\<close> the bytes drawn by
  the call of \<open>rand::random\<close> at hand.
\<close>

record http_crates =
  sha1 :: "bytes \<Rightarrow> bytes"
  base64 :: "bytes \<Rightarrow> string"
  random16 :: bytes
  name_from_bytes :: "bytes \<Rightarrow> string option"
  value_from_bytes :: "bytes \<Rightarrow> bytes option"
  value_from_str :: "string \<Rightarrow> bytes option"
  value_to_str :: "bytes \<Rightarrow> string option"
  header_iter :: "HeaderMap \<Rightarrow> HeaderMap"
  status_from_u16 :: "nat \<Rightarrow> nat option"
  is_success :: "nat \<Rightarrow> bool"
  is_redirection :: "nat \<Rightarrow> bool"
  show_status :: "nat \<Rightarrow> string"
  show_version :: "Version \<Rightarrow> string"
  uri_parse :: "string \<Rightarrow> Uri option"
  parse_headers :: "nat \<Rightarrow> bytes \<Rightarrow> httparse_error + (nat \<times> (string \<times> bytes) list) option"
  parse_request :: "nat \<Rightarrow> bytes \<Rightarrow> httparse_error + (nat \<times> raw_request) option"
  parse_response :: "nat \<Rightarrow> bytes \<Rightarrow> httparse_error + (nat \<times> raw_response) option"

text \<open>
  What the handshake relies on, as the crates document it: a header name of letters, digits and
  dashes, of less than 65536 characters, is accepted and put in lower case, a text of printable ASCII characters is a header value
  and can be read back, the numbers from 100 to 999 are status codes, base64 gives printable text, an iteration visits every entry once.
\<close>

definition printable :: "string \<Rightarrow> bool" where
  "printable s \<longleftrightarrow> (\<forall>c \<in> set s. 32 \<le> (of_char c :: nat) \<and> (of_char c :: nat) < 127)"

definition name_char :: "char \<Rightarrow> bool" where
  "name_char c \<longleftrightarrow>
     (let n = of_char c :: nat in n = 45 \<or> 48 \<le> n \<and> n \<le> 57 \<or> 65 \<le> n \<and> n \<le> 90 \<or> 97 \<le> n \<and> n \<le> 122)"

definition http_ok :: "'x http_crates_scheme \<Rightarrow> bool" where
  "http_ok h \<longleftrightarrow>
     (\<forall>n. n \<noteq> [] \<and> length n < 65536 \<and> (\<forall>c \<in> set n. name_char c) \<longrightarrow> name_from_bytes h (as_bytes n) = Some (to_ascii_lowercase n)) \<and>
     (\<forall>s. printable s \<longrightarrow> value_from_bytes h (as_bytes s) = Some (as_bytes s) \<and>
        value_from_str h s = Some (as_bytes s) \<and> value_to_str h (as_bytes s) = Some s) \<and>
     (\<forall>n. 100 \<le> n \<and> n < 1000 \<longrightarrow> status_from_u16 h n = Some n) \<and>
     (\<forall>bs. printable (base64 h bs)) \<and> (\<forall>m. mset (header_iter h m) = mset m)"

section \<open>Header maps\<close>

lemma as_bytes_append [simp]: "as_bytes (a @ b) = as_bytes a @ as_bytes b"
  by (simp add: as_bytes_def)

lemma unat_of_char: "unat (of_char c :: u8) = of_char c"
proof -
  have "(of_char c :: u8) = of_nat (of_char c)" by (rule of_nat_of_char [symmetric])
  also have "unat \<dots> = of_char c" by (subst unat_of_nat) simp
  finally show ?thesis .
qed

lemma as_bytes_inject [simp]: "as_bytes a = as_bytes b \<longleftrightarrow> a = b"
proof -
  have "inj (of_char :: char \<Rightarrow> u8)" by (rule injI) (metis unat_of_char of_char_eq_iff)
  then show ?thesis unfolding as_bytes_def by (rule inj_map_eq_map)
qed

lemma header_get_append:
  "header_get n (header_append k v m) =
     (case header_get n m of Some x \<Rightarrow> Some x | None \<Rightarrow> if to_ascii_lowercase n = k then Some v else None)"
  by (simp add: header_get_def header_append_def map_add_def split: option.splits)

lemma header_get_remove:
  "header_get n (snd (header_remove k m)) =
     (if to_ascii_lowercase n = to_ascii_lowercase k then None else header_get n m)"
  by (induction m) (auto simp: header_get_def header_remove_def)

text \<open>An iteration finds the same value for a name that occurs once.\<close>

lemma map_of_permuted:
  assumes "mset m' = mset m" and "distinct (map fst m)"
  shows "map_of m' = map_of m"
proof -
  have "set m' = set m" using assms(1) by (metis set_mset_mset)
  moreover have "mset (map fst m') = mset (map fst m)" using assms(1) by simp
  then have "distinct (map fst m')" using assms(2) by (metis mset_eq_imp_distinct_iff)
  ultimately show ?thesis using assms(2) by (metis map_of_inject_set)
qed

end
