(* ===== verification/Ws_Coding.thy ===== *)
theory Ws_Coding
  imports Ws_Http
begin

text \<open>
  The codes of the websocket protocol, \<open>src/src/adapters/ws/protocol/frame/coding.rs\<close>, and the error
  type of \<open>src/src/adapters/ws/error.rs\<close>. Constructors whose name another type of the development has
  already carry a prefix (\<open>Data_\<close>, \<open>Ctl_\<close>, \<open>Code_\<close>).
\<close>

section \<open>Opcodes\<close>

datatype Data = Data_Continue | Data_Text | Data_Binary | Data_Reserved u8

datatype Control = Ctl_Close | Ctl_Ping | Ctl_Pong | Ctl_Reserved u8

datatype OpCode = OpData Data | OpControl Control

definition u8_from_OpCode :: "OpCode \<Rightarrow> u8" where
  "u8_from_OpCode code =
     (case code of
        OpData Data_Continue \<Rightarrow> 0
      | OpData Data_Text \<Rightarrow> 1
      | OpData Data_Binary \<Rightarrow> 2
      | OpData (Data_Reserved i) \<Rightarrow> i
      | OpControl Ctl_Close \<Rightarrow> 8
      | OpControl Ctl_Ping \<Rightarrow> 9
      | OpControl Ctl_Pong \<Rightarrow> 10
      | OpControl (Ctl_Reserved i) \<Rightarrow> i)"

definition OpCode_from_u8 :: "u8 \<Rightarrow> OpCode exec" where
  "OpCode_from_u8 byte =
     (if byte = 0 then Done (OpData Data_Continue)
      else if byte = 1 then Done (OpData Data_Text)
      else if byte = 2 then Done (OpData Data_Binary)
      else if 3 \<le> byte \<and> byte \<le> 7 then Done (OpData (Data_Reserved byte))
      else if byte = 8 then Done (OpControl Ctl_Close)
      else if byte = 9 then Done (OpControl Ctl_Ping)
      else if byte = 10 then Done (OpControl Ctl_Pong)
      else if 11 \<le> byte \<and> byte \<le> 15 then Done (OpControl (Ctl_Reserved byte))
      else Panic)"

section \<open>Close codes\<close>

datatype CloseCode =
    Code_Normal | Code_Away | Code_Protocol | Code_Unsupported | Code_Status | Code_Abnormal
  | Code_Invalid | Code_Policy | Code_Size | Code_Extension | Code_Error | Code_Restart | Code_Again
  | Code_Tls | Code_Reserved u16 | Code_Iana u16 | Code_Library u16 | Code_Bad u16

definition is_allowed :: "CloseCode \<Rightarrow> bool" where
  "is_allowed code =
     (case code of
        Code_Bad _ \<Rightarrow> False | Code_Reserved _ \<Rightarrow> False | Code_Status \<Rightarrow> False
      | Code_Abnormal \<Rightarrow> False | Code_Tls \<Rightarrow> False | _ \<Rightarrow> True)"

definition u16_from_CloseCode :: "CloseCode \<Rightarrow> u16" where
  "u16_from_CloseCode code =
     (case code of
        Code_Normal \<Rightarrow> 1000 | Code_Away \<Rightarrow> 1001 | Code_Protocol \<Rightarrow> 1002 | Code_Unsupported \<Rightarrow> 1003
      | Code_Status \<Rightarrow> 1005 | Code_Abnormal \<Rightarrow> 1006 | Code_Invalid \<Rightarrow> 1007 | Code_Policy \<Rightarrow> 1008
      | Code_Size \<Rightarrow> 1009 | Code_Extension \<Rightarrow> 1010 | Code_Error \<Rightarrow> 1011 | Code_Restart \<Rightarrow> 1012
      | Code_Again \<Rightarrow> 1013 | Code_Tls \<Rightarrow> 1015 | Code_Reserved c \<Rightarrow> c | Code_Iana c \<Rightarrow> c
      | Code_Library c \<Rightarrow> c | Code_Bad c \<Rightarrow> c)"

definition CloseCode_from_u16 :: "u16 \<Rightarrow> CloseCode" where
  "CloseCode_from_u16 code =
     (if code = 1000 then Code_Normal
      else if code = 1001 then Code_Away
      else if code = 1002 then Code_Protocol
      else if code = 1003 then Code_Unsupported
      else if code = 1005 then Code_Status
      else if code = 1006 then Code_Abnormal
      else if code = 1007 then Code_Invalid
      else if code = 1008 then Code_Policy
      else if code = 1009 then Code_Size
      else if code = 1010 then Code_Extension
      else if code = 1011 then Code_Error
      else if code = 1012 then Code_Restart
      else if code = 1013 then Code_Again
      else if code = 1015 then Code_Tls
      else if 1 \<le> code \<and> code \<le> 999 then Code_Bad code
      else if 1016 \<le> code \<and> code \<le> 2999 then Code_Reserved code
      else if 3000 \<le> code \<and> code \<le> 3999 then Code_Iana code
      else if 4000 \<le> code \<and> code \<le> 4999 then Code_Library code
      else Code_Bad code)"

section \<open>Errors\<close>

datatype CapacityError = TooManyHeaders | MessageTooLong nat nat

datatype ProtocolError =
    WrongHttpMethod | WrongHttpVersion | MissingConnectionUpgradeHeader | MissingUpgradeWebSocketHeader
  | MissingSecWebSocketVersionHeader | MissingSecWebSocketKey | SecWebSocketAcceptKeyMismatch
  | JunkAfterRequest | CustomResponseSuccessful | InvalidHeader string | HandshakeIncomplete
  | HttparseError httparse_error | SendAfterClosing | ReceivedAfterClosing | NonZeroReservedBits
  | UnmaskedFrameFromClient | MaskedFrameFromServer | FragmentedControlFrame | ControlFrameTooBig
  | UnknownControlFrameType u8 | UnknownDataFrameType u8 | UnexpectedContinueFrame
  | ExpectedFragment Data | ResetWithoutClosingHandshake | InvalidOpcode u8 | InvalidCloseSequence

datatype UrlError =
    TlsFeatureNotEnabled | NoHostName | UnableToConnect string | UnsupportedUrlScheme
  | EmptyHostName | NoPathOrQuery

section \<open>Properties\<close>

text \<open>The opcodes \<open>From<u8>\<close> produces.\<close>

definition canonical :: "OpCode \<Rightarrow> bool" where
  "canonical c =
     (case c of
        OpData (Data_Reserved i) \<Rightarrow> 3 \<le> i \<and> i \<le> 7
      | OpControl (Ctl_Reserved i) \<Rightarrow> 11 \<le> i \<and> i \<le> 15
      | _ \<Rightarrow> True)"

definition is_reserved :: "OpCode \<Rightarrow> bool" where
  "is_reserved c =
     (case c of OpData (Data_Reserved _) \<Rightarrow> True | OpControl (Ctl_Reserved _) \<Rightarrow> True | _ \<Rightarrow> False)"

lemma OpCode_from_canonical: "canonical c \<Longrightarrow> OpCode_from_u8 (u8_from_OpCode c) = Done c"
  by (cases c; rename_tac x, case_tac x)
    (auto simp: canonical_def OpCode_from_u8_def u8_from_OpCode_def word_le_nat_alt unat_arith_simps)

lemma u8_from_OpCode_le: "canonical c \<Longrightarrow> u8_from_OpCode c \<le> 15"
  by (cases c; rename_tac x, case_tac x)
    (auto simp: canonical_def u8_from_OpCode_def word_le_nat_alt)

lemma OpCode_from_u8_Done:
  "OpCode_from_u8 b = Done c \<longleftrightarrow> b \<le> 15 \<and> canonical c \<and> u8_from_OpCode c = b"
proof -
  have "OpCode_from_u8 b = Done c \<Longrightarrow> b \<le> 15 \<and> canonical c \<and> u8_from_OpCode c = b"
    by (auto simp: OpCode_from_u8_def canonical_def u8_from_OpCode_def word_le_nat_alt split: if_splits)
  then show ?thesis using OpCode_from_canonical by auto
qed

text \<open>
  The opcode of a frame converts between its nibble and its constructor without loss: reading a
  byte succeeds exactly up to 15 and gives the one canonical opcode with that number.
\<close>
lemma OpCode_roundtrip:
  "(OpCode_from_u8 b = Panic \<longleftrightarrow> 15 < b) \<and>
   (OpCode_from_u8 b = Done c \<longleftrightarrow> b \<le> 15 \<and> canonical c \<and> u8_from_OpCode c = b)"
  using OpCode_from_u8_Done
  by (auto simp: OpCode_from_u8_def unat_arith_simps split: if_splits)

text \<open>
  A close code converts to its number and back without loss for every 16-bit number, and the
  codes allowed on the wire are exactly the ones RFC 6455 lets an endpoint send: 1000 to 1003, 1007 to
  1013, and the ranges 3000 to 4999.
\<close>
theorem CloseCode_roundtrip:
  "u16_from_CloseCode (CloseCode_from_u16 n) = n \<and>
   (is_allowed (CloseCode_from_u16 n) \<longleftrightarrow>
      (1000 \<le> n \<and> n \<le> 1003) \<or> (1007 \<le> n \<and> n \<le> 1013) \<or> (3000 \<le> n \<and> n \<le> 4999))"
proof
  show "u16_from_CloseCode (CloseCode_from_u16 n) = n"
    by (simp add: u16_from_CloseCode_def CloseCode_from_u16_def)
  show "is_allowed (CloseCode_from_u16 n) \<longleftrightarrow>
      (1000 \<le> n \<and> n \<le> 1003) \<or> (1007 \<le> n \<and> n \<le> 1013) \<or> (3000 \<le> n \<and> n \<le> 4999)"
    by (simp add: is_allowed_def CloseCode_from_u16_def unat_arith_simps) presburger
qed

end
