(* ===== verification/Ws_Mask.thy ===== *)
theory Ws_Mask
  imports Prelude
begin

text \<open>
  Masking of websocket payloads, \<open>src/src/adapters/ws/protocol/frame/mask.rs\<close>: the byte-wise fallback,
  the version on aligned 32-bit words the crate runs, and their equivalence for every alignment of the
  buffer and both byte orders of the target.
\<close>

section \<open>Masks and words\<close>

text \<open>\<open>[u8; 4]\<close>; \<open>mask_byte m i\<close> is \<open>m[i & 3]\<close>.\<close>

datatype mask4 = Mask4 u8 u8 u8 u8

fun mask_byte :: "mask4 \<Rightarrow> nat \<Rightarrow> u8" where
  "mask_byte (Mask4 a b c d) i =
     (let k = i mod 4 in if k = 0 then a else if k = 1 then b else if k = 2 then c else d)"

text \<open>\<open>u32::from_ne_bytes\<close> and \<open>u32::to_ne_bytes\<close> on a big- or little-endian target.\<close>

fun from_ne_bytes :: "bool \<Rightarrow> mask4 \<Rightarrow> u32" where
  "from_ne_bytes big (Mask4 a b c d) =
     (if big
      then push_bit 24 (ucast a) OR push_bit 16 (ucast b) OR push_bit 8 (ucast c) OR ucast d
      else ucast a OR push_bit 8 (ucast b) OR push_bit 16 (ucast c) OR push_bit 24 (ucast d))"

definition to_ne_bytes :: "bool \<Rightarrow> u32 \<Rightarrow> mask4" where
  "to_ne_bytes big w =
     (if big
      then Mask4 (ucast (drop_bit 24 w)) (ucast (drop_bit 16 w)) (ucast (drop_bit 8 w)) (ucast w)
      else Mask4 (ucast w) (ucast (drop_bit 8 w)) (ucast (drop_bit 16 w)) (ucast (drop_bit 24 w)))"

section \<open>Masking\<close>

fun mask_from :: "mask4 \<Rightarrow> nat \<Rightarrow> bytes \<Rightarrow> bytes" where
  "mask_from m i [] = []"
| "mask_from m i (b # bs) = (b XOR mask_byte m i) # mask_from m (Suc i) bs"

definition apply_mask_fallback :: "bytes \<Rightarrow> mask4 \<Rightarrow> bytes" where
  "apply_mask_fallback buf key = mask_from key 0 buf"

text \<open>The loop over the aligned words of the buffer.\<close>

fun xor_words :: "bool \<Rightarrow> u32 \<Rightarrow> bytes \<Rightarrow> bytes" where
  "xor_words big m (a # b # c # d # bs) =
     (case to_ne_bytes big (from_ne_bytes big (Mask4 a b c d) XOR m) of
        Mask4 a' b' c' d' \<Rightarrow> a' # b' # c' # d' # xor_words big m bs)"
| "xor_words big m bs = bs"

text \<open>
  \<open>align_to_mut\<close> splits the buffer into a prefix of \<open>p\<close> bytes, \<open>w\<close> words and a suffix; where it splits
  depends on the address of the buffer.
\<close>

definition apply_mask_fast32 :: "bool \<Rightarrow> nat \<Rightarrow> nat \<Rightarrow> bytes \<Rightarrow> mask4 \<Rightarrow> bytes" where
  "apply_mask_fast32 big p w buf key =
     (let mask_u32 = from_ne_bytes big key;
          prefix = take p buf; words = take (4 * w) (drop p buf); suffix = drop (p + 4 * w) buf;
          head = length prefix mod 4;
          mask_u32 = (if 0 < head
            then if big then word_rotl (8 * head) mask_u32 else word_rotr (8 * head) mask_u32
            else mask_u32)
      in apply_mask_fallback prefix key @ xor_words big mask_u32 words @
         apply_mask_fallback suffix (to_ne_bytes big mask_u32))"

text \<open>\<open>apply_mask\<close> on a buffer whose alignment gives the split \<open>p\<close>, \<open>w\<close>.\<close>

definition apply_mask :: "bool \<Rightarrow> nat \<Rightarrow> nat \<Rightarrow> bytes \<Rightarrow> mask4 \<Rightarrow> bytes" where
  "apply_mask big p w buf key = apply_mask_fast32 big p w buf key"

section \<open>Bytes of words\<close>

lemma less_4_cases: "(k :: nat) < 4 \<Longrightarrow> k = 0 \<or> k = 1 \<or> k = 2 \<or> k = 3"
  by linarith

lemma mod_4_cases: "(i :: nat) mod 4 = 0 \<or> i mod 4 = 1 \<or> i mod 4 = 2 \<or> i mod 4 = 3"
  by (rule less_4_cases) simp

lemma byte_index:
  fixes n :: nat
  obtains q r where "n = 8 * q + r" "r < 8" "n div 8 = q" "n mod 8 = r"
  by (rule that [of "n div 8" "n mod 8"]) simp_all

lemma bit_from_ne_bytes:
  "bit (from_ne_bytes big m) n \<longleftrightarrow>
     n < 32 \<and> bit (mask_byte m (if big then 3 - n div 8 else n div 8)) (n mod 8)"
proof (cases "n < 32")
  case True
  obtain a b c d where m: "m = Mask4 a b c d" by (cases m)
  obtain q r where n: "n = 8 * q + r" "r < 8" "n div 8 = q" "n mod 8 = r" by (rule byte_index)
  with True have "q < 4" by simp
  then consider "q = 0" | "q = 1" | "q = 2" | "q = 3" by linarith
  then show ?thesis
    by cases (use True n in \<open>auto simp: m bit_or_iff bit_push_bit_iff bit_ucast_iff Let_def\<close>)
qed simp

lemma bit_to_ne_bytes:
  "bit (mask_byte (to_ne_bytes big w) i) r \<longleftrightarrow>
     r < 8 \<and> bit w (8 * (if big then 3 - i mod 4 else i mod 4) + r)"
  using mod_4_cases [of i]
  by (auto simp: to_ne_bytes_def Let_def bit_ucast_iff bit_drop_bit_eq)

lemma mask_byte_mod: "mask_byte m (i mod 4) = mask_byte m i"
  by (cases m) simp

lemma mask_byte_cong: "i mod 4 = j mod 4 \<Longrightarrow> mask_byte m i = mask_byte m j"
  by (metis mask_byte_mod)

text \<open>Rotating the word by whole bytes shifts the mask.\<close>

lemma byte_mod: "r < 8 \<Longrightarrow> (8 * j + r) mod 32 = 8 * (j mod 4) + (r :: nat)"
  using mod_mult2_eq [of "8 * j + r" 8 4] by simp

lemma rotl_index: "k < 4 \<Longrightarrow> h < 4 \<Longrightarrow> (3 - k + (4 - h)) mod 4 = 3 - (k + h) mod (4 :: nat)"
  using less_4_cases [of k] less_4_cases [of h] by auto

lemma bit_rotated_little:
  assumes "h < 4" and "k < 4" and "r < 8"
  shows "bit (word_rotr (8 * h) (from_ne_bytes False m)) (8 * k + r) \<longleftrightarrow> bit (mask_byte m (k + h)) r"
proof -
  have "(8 * k + r + 8 * h) mod 32 = 8 * ((k + h) mod 4) + r"
    using byte_mod [OF assms(3), of "k + h"] by (simp add: algebra_simps)
  moreover have "8 * ((k + h) mod 4) + r < 32" using mod_less_divisor [of 4 "k + h"] assms(3) by linarith
  ultimately show ?thesis
    using assms by (simp add: bit_word_rotr_iff bit_from_ne_bytes mask_byte_mod)
qed

lemma bit_rotated_big:
  assumes "h < 4" and "k < 4" and "r < 8"
  shows "bit (word_rotl (8 * h) (from_ne_bytes True m)) (8 * (3 - k) + r) \<longleftrightarrow> bit (mask_byte m (k + h)) r"
proof -
  have h: "8 * h mod 32 = 8 * h" using assms(1) by simp
  have eq: "8 * (3 - k) + r + (32 - 8 * h) = 8 * (3 - k + (4 - h)) + r" using assms(1) by simp
  have idx: "(8 * (3 - k) + r + (32 - 8 * h)) mod 32 = 8 * (3 - (k + h) mod 4) + r"
    unfolding eq byte_mod [OF assms(3)] rotl_index [OF assms(2,1)] ..
  have rot: "bit (word_rotl (8 * h) (from_ne_bytes True m)) (8 * (3 - k) + r) \<longleftrightarrow>
      8 * (3 - k) + r < 32 \<and> bit (from_ne_bytes True m) ((8 * (3 - k) + r + (32 - 8 * h)) mod 32)"
    by (simp add: bit_word_rotl_iff h)
  have "3 - (3 - (k + h) mod 4) = (k + h) mod 4" using mod_less_divisor [of 4 "k + h"] by linarith
  then show ?thesis
    using assms unfolding rot idx by (auto simp: bit_from_ne_bytes mask_byte_mod intro: le_less_trans [of _ "8 * 3 + r"])
qed

lemma rotated_mask:
  assumes "h < 4"
  shows "mask_byte (to_ne_bytes big (if big then word_rotl (8 * h) (from_ne_bytes big m)
      else word_rotr (8 * h) (from_ne_bytes big m))) i = mask_byte m (i + h)"
proof (rule bit_word_eqI)
  fix r assume r: "r < LENGTH(8)"
  have "mask_byte m (i + h) = mask_byte m (i mod 4 + h)" by (rule mask_byte_cong) (simp add: mod_add_left_eq)
  then show "bit (mask_byte (to_ne_bytes big (if big then word_rotl (8 * h) (from_ne_bytes big m)
      else word_rotr (8 * h) (from_ne_bytes big m))) i) r \<longleftrightarrow> bit (mask_byte m (i + h)) r"
    using r assms bit_rotated_little [of h "i mod 4" r m] bit_rotated_big [of h "i mod 4" r m]
    by (cases big) (simp_all add: bit_to_ne_bytes)
qed

lemma mask4_eqI: "(\<And>i. mask_byte m i = mask_byte n i) \<Longrightarrow> m = n"
proof (cases m; cases n)
  fix a b c d a' b' c' d'
  assume eq: "\<And>i. mask_byte m i = mask_byte n i" and mn: "m = Mask4 a b c d" "n = Mask4 a' b' c' d'"
  show "m = n" using eq [of 0] eq [of 1] eq [of 2] eq [of 3] by (simp add: mn)
qed

lemma xor_word_bytes:
  "to_ne_bytes big (from_ne_bytes big (Mask4 a b c d) XOR m) =
     (case to_ne_bytes big m of Mask4 a' b' c' d' \<Rightarrow> Mask4 (a XOR a') (b XOR b') (c XOR c') (d XOR d'))"
proof (rule mask4_eqI)
  fix i
  obtain a' b' c' d' where m: "to_ne_bytes big m = Mask4 a' b' c' d'" by (cases "to_ne_bytes big m")
  have "mask_byte (to_ne_bytes big (from_ne_bytes big (Mask4 a b c d) XOR m)) i =
      mask_byte (Mask4 a b c d) i XOR mask_byte (to_ne_bytes big m) i"
  proof (rule bit_word_eqI)
    fix r assume r: "r < LENGTH(8)"
    have lt: "i mod 4 < 4" by simp
    then have "8 * (i mod 4) + r < 32" "8 * (3 - i mod 4) + r < 32" using r by simp_all
    moreover have "3 - (3 - i mod 4) = i mod 4" using lt by linarith
    ultimately show "bit (mask_byte (to_ne_bytes big (from_ne_bytes big (Mask4 a b c d) XOR m)) i) r \<longleftrightarrow>
        bit (mask_byte (Mask4 a b c d) i XOR mask_byte (to_ne_bytes big m) i) r"
      using r unfolding bit_to_ne_bytes bit_xor_iff bit_from_ne_bytes
      by (simp add: bit_xor_iff mask_byte_mod del: mask_byte.simps)
  qed
  also have "\<dots> = mask_byte (Mask4 (a XOR a') (b XOR b') (c XOR c') (d XOR d')) i"
    by (simp add: m Let_def)
  finally show "mask_byte (to_ne_bytes big (from_ne_bytes big (Mask4 a b c d) XOR m)) i =
      mask_byte (case to_ne_bytes big m of Mask4 a' b' c' d' \<Rightarrow>
        Mask4 (a XOR a') (b XOR b') (c XOR c') (d XOR d')) i"
    by (simp add: m)
qed

section \<open>The two versions agree\<close>

lemma mask_from_append: "mask_from m i (xs @ ys) = mask_from m i xs @ mask_from m (i + length xs) ys"
  by (induction xs arbitrary: i) simp_all

lemma mask_from_shift: "(\<And>k. mask_byte n k = mask_byte m (k + j)) \<Longrightarrow> mask_from n i xs = mask_from m (i + j) xs"
  by (induction xs arbitrary: i) (simp_all del: mask_byte.simps)

lemma mask_from_cong: "i mod 4 = j mod 4 \<Longrightarrow> mask_from m i xs = mask_from m j xs"
proof (induction xs arbitrary: i j)
  case (Cons x xs)
  have "Suc i mod 4 = Suc j mod 4" using Cons.prems by (metis mod_Suc_eq)
  from Cons.IH [OF this] mask_byte_cong [OF Cons.prems] show ?case by (simp only: mask_from.simps)
qed (simp only: mask_from.simps)

lemma length_mask_from [simp]: "length (mask_from m i xs) = length xs"
  by (induction xs arbitrary: i) simp_all

lemma mask_from_twice [simp]: "mask_from m i (mask_from m i xs) = xs"
  by (induction xs arbitrary: i) (simp_all add: xor.assoc)

lemma mask_from_four:
  "mask_from (Mask4 a' b' c' d') 0 (a # b # c # d # bs) =
     (a XOR a') # (b XOR b') # (c XOR c') # (d XOR d') # mask_from (Mask4 a' b' c' d') 0 bs"
proof -
  have "mask_from m (Suc (Suc (Suc (Suc 0)))) bs = mask_from m 0 bs" for m by (rule mask_from_cong) simp
  then show ?thesis by (simp add: Let_def)
qed

lemma xor_words_mask: "length bs = 4 * w \<Longrightarrow> xor_words big m bs = mask_from (to_ne_bytes big m) 0 bs"
proof (induction w arbitrary: bs)
  case (Suc w)
  then have "length bs = Suc (Suc (Suc (Suc (4 * w))))" by simp
  then obtain a b c d cs where bs: "bs = a # b # c # d # cs" and len: "length cs = 4 * w"
    by (auto simp only: length_Suc_conv)
  obtain a' b' c' d' where m: "to_ne_bytes big m = Mask4 a' b' c' d'" by (cases "to_ne_bytes big m")
  from Suc.IH [OF len] show ?case
    by (simp only: bs m xor_words.simps(1) xor_word_bytes mask_from_four mask4.case)
qed simp

lemma word_rot_0: "word_rotl 0 (w :: u32) = w" "word_rotr 0 (w :: u32) = w"
  by (auto simp: bit_word_rotl_iff bit_word_rotr_iff intro!: bit_word_eqI)

lemma fast32_fallback:
  assumes "p + 4 * w \<le> length buf"
  shows "apply_mask_fast32 big p w buf m = apply_mask_fallback buf m"
proof -
  define h where "h = p mod 4"
  define m32 where "m32 = (if 0 < h then if big then word_rotl (8 * h) (from_ne_bytes big m)
      else word_rotr (8 * h) (from_ne_bytes big m) else from_ne_bytes big m)"
  have m32: "m32 = (if big then word_rotl (8 * h) (from_ne_bytes big m) else word_rotr (8 * h) (from_ne_bytes big m))"
    by (simp add: m32_def word_rot_0)
  have byte: "mask_byte (to_ne_bytes big m32) k = mask_byte m (k + h)" for k
    unfolding m32 by (rule rotated_mask) (simp add: h_def)
  have words: "xor_words big m32 (take (4 * w) (drop p buf)) = mask_from m p (take (4 * w) (drop p buf))"
  proof -
    have "xor_words big m32 (take (4 * w) (drop p buf)) = mask_from (to_ne_bytes big m32) 0 (take (4 * w) (drop p buf))"
      using assms by (intro xor_words_mask [of _ w]) simp
    also have "\<dots> = mask_from m (0 + h) (take (4 * w) (drop p buf))" by (rule mask_from_shift) (rule byte)
    also have "\<dots> = mask_from m p (take (4 * w) (drop p buf))" by (rule mask_from_cong) (simp add: h_def)
    finally show ?thesis .
  qed
  have "mask_from (to_ne_bytes big m32) 0 (drop (p + 4 * w) buf) = mask_from m (0 + h) (drop (p + 4 * w) buf)"
    by (rule mask_from_shift) (rule byte)
  also have "\<dots> = mask_from m (p + 4 * w) (drop (p + 4 * w) buf)" by (rule mask_from_cong) (simp add: h_def)
  finally have suffix: "mask_from (to_ne_bytes big m32) 0 (drop (p + 4 * w) buf) = mask_from m (p + 4 * w) (drop (p + 4 * w) buf)" .
  have split: "buf = take p buf @ take (4 * w) (drop p buf) @ drop (p + 4 * w) buf"
    by (metis append_take_drop_id drop_drop add.commute)
  have len: "length (take p buf) = p" "length (take (4 * w) (drop p buf)) = 4 * w" using assms by simp_all
  have "apply_mask_fast32 big p w buf m = mask_from m 0 (take p buf) @ mask_from m p (take (4 * w) (drop p buf)) @
      mask_from m (p + 4 * w) (drop (p + 4 * w) buf)"
    unfolding apply_mask_fast32_def apply_mask_fallback_def Let_def len h_def [symmetric] m32_def [symmetric]
      words suffix ..
  also have "\<dots> = mask_from m 0 buf" by (subst (4) split) (simp only: mask_from_append len add_0)
  finally show ?thesis by (simp add: apply_mask_fallback_def)
qed

section \<open>Properties\<close>

text \<open>
  C36: Masking on aligned 32-bit words gives exactly what the byte-wise masking gives, wherever the
  alignment of the buffer puts the words and on targets of either byte order; masking twice with the
  same mask gives the buffer back.
\<close>
theorem apply_mask_correct:
  assumes "p + 4 * w \<le> length buf" and "p' + 4 * w' \<le> length buf"
  shows "apply_mask big p w buf m = map2 (\<lambda>b i. b XOR mask_byte m i) buf [0 ..< length buf] \<and>
    apply_mask big p' w' (apply_mask big p w buf m) m = buf"
proof
  have "mask_from m i xs = map2 (\<lambda>b i. b XOR mask_byte m i) xs [i ..< i + length xs]" for i xs
  proof (induction xs arbitrary: i)
    case (Cons x xs)
    then show ?case by (simp add: upt_conv_Cons del: mask_byte.simps upt_Suc)
  qed simp
  from this [of 0 buf] show "apply_mask big p w buf m = map2 (\<lambda>b i. b XOR mask_byte m i) buf [0 ..< length buf]"
    by (simp add: apply_mask_def fast32_fallback [OF assms(1)] apply_mask_fallback_def)
  have "p' + 4 * w' \<le> length (apply_mask_fallback buf m)" using assms(2) by (simp add: apply_mask_fallback_def)
  then show "apply_mask big p' w' (apply_mask big p w buf m) m = buf"
    by (simp add: apply_mask_def fast32_fallback assms(1)) (simp add: apply_mask_fallback_def)
qed

theorem apply_mask_correct_witness:
  "apply_mask True 3 1 [0xf3, 0, 1, 2, 3, 0x80, 0x81, 0x82] (Mask4 0x6d 0xb6 0xb2 0x80) =
     map2 (\<lambda>b i. b XOR mask_byte (Mask4 0x6d 0xb6 0xb2 0x80) i) [0xf3, 0, 1, 2, 3, 0x80, 0x81, 0x82]
       [0 ..< length [0xf3 :: u8, 0, 1, 2, 3, 0x80, 0x81, 0x82]] \<and>
   apply_mask True 0 2 (apply_mask True 3 1 [0xf3, 0, 1, 2, 3, 0x80, 0x81, 0x82] (Mask4 0x6d 0xb6 0xb2 0x80))
     (Mask4 0x6d 0xb6 0xb2 0x80) = [0xf3, 0, 1, 2, 3, 0x80, 0x81, 0x82]"
  by (rule apply_mask_correct) simp_all

end
