(* ===== verification/Ws_Frame.thy ===== *)
theory Ws_Frame
  imports Ws_Coding Ws_Mask
begin

text \<open>
  Websocket frames: \<open>src/src/adapters/ws/protocol/frame/frame.rs\<close>, with the message and error types of
  \<open>protocol/message.rs\<close> and \<open>error.rs\<close> that mention them. Buffers of the \<open>net_packet\<close> crate are the byte
  lists they hold; a cursor over a buffer is the list of its unread bytes. The two operations of that
  crate whose byte order the source does not fix, \<open>read_u16\<close> and \<open>prepend_u16\<close>, are fields of the record
  \<open>target\<close>, with the byte order and the alignment of buffers on the target machine.
\<close>

section \<open>Types\<close>

record FrameHeader =
  is_final :: bool
  rsv1 :: bool
  rsv2 :: bool
  rsv3 :: bool
  opcode :: OpCode
  hmask :: "mask4 option"

definition FrameHeader_default :: FrameHeader where
  "FrameHeader_default = \<lparr>is_final = True, rsv1 = False, rsv2 = False, rsv3 = False,
     opcode = OpControl Ctl_Close, hmask = None\<rparr>"

record Frame =
  header :: FrameHeader
  payload :: bytes

record CloseFrame =
  code :: CloseCode
  reason :: bytes

datatype Message =
    Msg_Text bytes | Msg_Binary bytes | Msg_Ping bytes | Msg_Pong bytes
  | Msg_Close "CloseFrame option" | Msg_Frame Frame

datatype Error =
    ConnectionClosed | AlreadyClosed | Io io_error | Capacity CapacityError | Protocol ProtocolError
  | WriteBufferFull Message | Utf8 | AttackAttempt | Url UrlError | Http "bytes option HttpResponse" | HttpFormat

record target =
  big_endian :: bool
  align_to :: "bytes \<Rightarrow> nat \<times> nat"
  read_u16 :: "bytes \<Rightarrow> u16 \<times> bytes"
  prepend_u16 :: "u16 \<Rightarrow> bytes \<Rightarrow> bytes"

section \<open>Length format\<close>

datatype LengthFormat = Len_U8 u8 | Len_U16 | Len_U64

definition for_length :: "u64 \<Rightarrow> LengthFormat" where
  "for_length len = (if len < 126 then Len_U8 (ucast len) else if len < 65536 then Len_U16 else Len_U64)"

definition extra_bytes :: "LengthFormat \<Rightarrow> nat" where
  "extra_bytes f = (case f of Len_U8 _ \<Rightarrow> 0 | Len_U16 \<Rightarrow> 2 | Len_U64 \<Rightarrow> 8)"

definition length_byte :: "LengthFormat \<Rightarrow> u8" where
  "length_byte f = (case f of Len_U8 b \<Rightarrow> b | Len_U16 \<Rightarrow> 126 | Len_U64 \<Rightarrow> 127)"

definition for_byte :: "u8 \<Rightarrow> LengthFormat" where
  "for_byte byte = (let b = byte AND 0x7F in if b = 126 then Len_U16 else if b = 127 then Len_U64 else Len_U8 b)"

section \<open>Headers\<close>

text \<open>\<open>NetworkEndian\<close> integers: \<open>write_be n\<close> are the \<open>n\<close> low bytes of a word, most significant first.\<close>

definition write_be :: "nat \<Rightarrow> u64 \<Rightarrow> bytes" where
  "write_be n w = map (\<lambda>i. ucast (drop_bit (8 * i) w)) (rev [0 ..< n])"

definition read_be :: "bytes \<Rightarrow> u64" where
  "read_be bs = foldl (\<lambda>v b. push_bit 8 v OR ucast b) 0 bs"

fun mask_bytes :: "mask4 \<Rightarrow> bytes" where
  "mask_bytes (Mask4 a b c d) = [a, b, c, d]"

definition header_len :: "FrameHeader \<Rightarrow> u64 \<Rightarrow> nat" where
  "header_len h len = 2 + extra_bytes (for_length len) + (if hmask h \<noteq> None then 4 else 0)"

definition flag :: "bool \<Rightarrow> u8 \<Rightarrow> u8" where
  "flag b v = (if b then v else 0)"

definition header_format :: "FrameHeader \<Rightarrow> u64 \<Rightarrow> bytes" where
  "header_format h len =
     (let one = u8_from_OpCode (opcode h) OR flag (is_final h) 0x80 OR flag (rsv1 h) 0x40 OR
                flag (rsv2 h) 0x20 OR flag (rsv3 h) 0x10;
          lenfmt = for_length len;
          two = length_byte lenfmt OR flag (hmask h \<noteq> None) 0x80
      in [one, two] @
         (case lenfmt of Len_U8 _ \<Rightarrow> [] | Len_U16 \<Rightarrow> write_be 2 len | Len_U64 \<Rightarrow> write_be 8 len) @
         (case hmask h of None \<Rightarrow> [] | Some m \<Rightarrow> mask_bytes m))"

text \<open>
  \<open>parse_internal\<close> returns the unread bytes beside its result. \<open>OpCode::from\<close> cannot panic on a nibble
  (\<open>Panic\<close> is kept in the type).
\<close>

definition parse_mask :: "bool \<Rightarrow> bytes \<Rightarrow> (mask4 option \<times> bytes) option" where
  "parse_mask masked bs =
     (if masked then
        (case bs of a # b # c # d # rest \<Rightarrow> Some (Some (Mask4 a b c d), rest) | _ \<Rightarrow> None)
      else Some (None, bs))"

definition parse_length :: "u8 \<Rightarrow> bytes \<Rightarrow> (u64 \<times> bytes) option" where
  "parse_length second bs =
     (let length_byte = second AND 0x7F;
          length_length = extra_bytes (for_byte length_byte)
      in if 0 < length_length then
           if length bs < length_length then None
           else Some (read_be (take length_length bs), drop length_length bs)
         else Some (ucast length_byte, bs))"

definition parse_internal :: "bytes \<Rightarrow> (bytes \<times> (Error + (FrameHeader \<times> u64) option)) exec" where
  "parse_internal bs =
     (case bs of
        first # second # rest \<Rightarrow>
          xbind (OpCode_from_u8 (first AND 0x0F)) (\<lambda>opcode.
          case parse_length second rest of
            None \<Rightarrow> Done ([], Ok None)
          | Some (len, rest) \<Rightarrow>
              (case parse_mask (second AND 0x80 \<noteq> 0) rest of
                 None \<Rightarrow> Done ([], Ok None)
               | Some (m, rest) \<Rightarrow>
                   if is_reserved opcode then Done (rest, Err (Protocol (InvalidOpcode (first AND 0x0F))))
                   else Done (rest, Ok (Some (\<lparr>is_final = first AND 0x80 \<noteq> 0, rsv1 = first AND 0x40 \<noteq> 0,
                     rsv2 = first AND 0x20 \<noteq> 0, rsv3 = first AND 0x10 \<noteq> 0, opcode = opcode, hmask = m\<rparr>, len)))))
      | _ \<Rightarrow> Done ([], Ok None))"

definition FrameHeader_parse :: "bytes \<Rightarrow> (bytes \<times> (Error + (FrameHeader \<times> u64) option)) exec" where
  "FrameHeader_parse bs =
     xbind (parse_internal bs) (\<lambda>(rest, ret).
     Done (if ret = Ok None then (bs, ret) else (rest, ret)))"

definition header_set_random_mask :: "mask4 \<Rightarrow> FrameHeader \<Rightarrow> FrameHeader" where
  "header_set_random_mask m h = h\<lparr>hmask := Some m\<rparr>"

section \<open>Frames\<close>

definition Frame_len :: "Frame \<Rightarrow> nat" where
  "Frame_len f = header_len (header f) (of_nat (length (payload f))) + length (payload f)"

definition is_masked :: "Frame \<Rightarrow> bool" where
  "is_masked f \<longleftrightarrow> hmask (header f) \<noteq> None"

definition set_random_mask :: "mask4 \<Rightarrow> Frame \<Rightarrow> Frame" where
  "set_random_mask m f = f\<lparr>header := header_set_random_mask m (header f)\<rparr>"

definition Frame_apply_mask :: "target \<Rightarrow> Frame \<Rightarrow> Frame" where
  "Frame_apply_mask t f =
     (case hmask (header f) of
        None \<Rightarrow> f
      | Some m \<Rightarrow>
          (let (p, w) = align_to t (payload f) in
           f\<lparr>header := (header f)\<lparr>hmask := None\<rparr>, payload := apply_mask (big_endian t) p w (payload f) m\<rparr>))"

definition into_close :: "target \<Rightarrow> Frame \<Rightarrow> Error + CloseFrame option" where
  "into_close t f =
     (if length (payload f) = 0 then Ok None
      else if length (payload f) = 1 then Err (Protocol InvalidCloseSequence)
      else let (c, rest) = read_u16 t (payload f) in
        Ok (Some \<lparr>code = CloseCode_from_u16 c, reason = rest\<rparr>))"

text \<open>
  The debug assertion of \<open>message\<close>, that the opcode is one of data, always holds: its callers are the two arms of
  \<open>write\<close> that pass \<open>OpData\<close>.
\<close>

definition Frame_message :: "bytes \<Rightarrow> OpCode \<Rightarrow> bool \<Rightarrow> Frame" where
  "Frame_message bs op fin = \<lparr>header = FrameHeader_default\<lparr>is_final := fin, opcode := op\<rparr>, payload = bs\<rparr>"

definition Frame_pong :: "bytes \<Rightarrow> Frame" where
  "Frame_pong bs = \<lparr>header = FrameHeader_default\<lparr>opcode := OpControl Ctl_Pong\<rparr>, payload = bs\<rparr>"

definition Frame_ping :: "bytes \<Rightarrow> Frame" where
  "Frame_ping bs = \<lparr>header = FrameHeader_default\<lparr>opcode := OpControl Ctl_Ping\<rparr>, payload = bs\<rparr>"

definition Frame_close :: "target \<Rightarrow> CloseFrame option \<Rightarrow> Frame option" where
  "Frame_close t msg =
     (case msg of
        Some c \<Rightarrow> Some \<lparr>header = FrameHeader_default,
          payload = prepend_u16 t (u16_from_CloseCode (code c)) (reason c)\<rparr>
      | None \<Rightarrow> None)"

definition from_payload :: "FrameHeader \<Rightarrow> bytes \<Rightarrow> Frame" where
  "from_payload h bs = \<lparr>header = h, payload = bs\<rparr>"

definition Frame_format :: "target \<Rightarrow> Frame \<Rightarrow> bytes" where
  "Frame_format t f = header_format (header f) (of_nat (length (payload f))) @ payload (Frame_apply_mask t f)"

section \<open>Integers of the header\<close>

lemma length_write_be [simp]: "length (write_be n w) = n"
  by (simp add: write_be_def)

lemma read_write_be: "read_be (write_be n w) = take_bit (8 * n) w"
proof -
  have "foldl (\<lambda>v b. push_bit 8 v OR ucast (b :: u8)) v (write_be n w) = push_bit (8 * n) v OR take_bit (8 * n) w" for v
  proof (induction n arbitrary: v)
    case 0
    then show ?case by (simp add: write_be_def)
  next
    case (Suc n)
    have "push_bit (8 * n) (push_bit 8 v OR ucast (ucast (drop_bit (8 * n) w) :: u8)) OR take_bit (8 * n) w =
        push_bit (8 * Suc n) v OR take_bit (8 * Suc n) w"
      by (rule bit_word_eqI) (auto simp: bit_simps add.commute [of 8])
    moreover have "write_be (Suc n) w = ucast (drop_bit (8 * n) w) # write_be n w" by (simp add: write_be_def)
    ultimately show ?case by (simp only: foldl_Cons Suc.IH)
  qed
  from this [of 0] show ?thesis by (simp add: read_be_def)
qed

lemma bit_7F: "bit (0x7F :: u8) n \<longleftrightarrow> n < 7"
proof -
  have eq: "(0x7F :: u8) = mask 7" by (simp add: mask_eq_exp_minus_1)
  show ?thesis unfolding eq bit_mask_iff by auto
qed

lemma bit_80: "bit (0x80 :: u8) n \<longleftrightarrow> n = 7"
proof -
  have "(0x80 :: u8) = 2 ^ 7" by simp
  then show ?thesis by (simp only: bit_exp_iff) auto
qed

lemma second_byte:
  assumes "l \<le> 127"
  shows "(l OR flag b 0x80) AND 0x7F = l" and "(l OR flag b 0x80) AND 0x80 \<noteq> 0 \<longleftrightarrow> b"
proof -
  have "unat l < 2 ^ 7" using assms by (simp add: word_le_nat_alt)
  then have high: "\<not> bit l n" if "7 \<le> n" for n using that by (rule unat_less_pow_bit)
  show "(l OR flag b 0x80) AND 0x7F = l"
  proof (rule bit_word_eqI)
    fix n
    have flag: "bit (flag b 0x80) n \<longleftrightarrow> b \<and> n = 7" using bit_80 [of n] by (auto simp: flag_def)
    show "bit ((l OR flag b 0x80) AND 0x7F) n \<longleftrightarrow> bit l n"
      unfolding bit_and_iff bit_or_iff bit_7F flag using high [of n] by (cases "n < 7") auto
  qed
  have "bit ((l OR flag b 0x80) AND 0x80) n \<longleftrightarrow> n = 7 \<and> b" for n
    using high [of 7] bit_80 [of n] by (auto simp: bit_and_iff bit_or_iff flag_def)
  then show "(l OR flag b 0x80) AND 0x80 \<noteq> 0 \<longleftrightarrow> b" by (metis bit_0_eq bot_apply bot_bool_def bit_word_eqI)
qed

lemma first_byte:
  fixes op :: OpCode and f r1 r2 r3 :: bool
  assumes "\<not> is_reserved op"
  defines "one \<equiv> u8_from_OpCode op OR flag f 0x80 OR flag r1 0x40 OR flag r2 0x20 OR flag r3 0x10"
  shows "one AND 0x0F = u8_from_OpCode op" "one AND 0x80 \<noteq> 0 \<longleftrightarrow> f" "one AND 0x40 \<noteq> 0 \<longleftrightarrow> r1"
    "one AND 0x20 \<noteq> 0 \<longleftrightarrow> r2" "one AND 0x10 \<noteq> 0 \<longleftrightarrow> r3"
proof -
  from assms(1) have code: "u8_from_OpCode op \<in> {0, 1, 2, 8, 9, 10}"
    by (cases op; rename_tac x, case_tac x) (simp_all add: is_reserved_def u8_from_OpCode_def)
  show "one AND 0x0F = u8_from_OpCode op" "one AND 0x80 \<noteq> 0 \<longleftrightarrow> f" "one AND 0x40 \<noteq> 0 \<longleftrightarrow> r1"
    "one AND 0x20 \<noteq> 0 \<longleftrightarrow> r2" "one AND 0x10 \<noteq> 0 \<longleftrightarrow> r3"
    using code unfolding one_def by (cases f; cases r1; cases r2; cases r3; auto simp: flag_def)+
qed

lemma take_bit_small:
  assumes "unat (len :: u64) < 2 ^ k"
  shows "take_bit k len = len"
proof (rule bit_word_eqI)
  fix n
  show "bit (take_bit k len) n \<longleftrightarrow> bit len n"
    using unat_less_pow_bit [OF assms, of n] by (cases "n < k") (auto simp: bit_take_bit_iff)
qed

lemma ucast_ucast_u8: "ucast (ucast (len :: u64) :: u8) = take_bit 8 len"
  by (rule bit_word_eqI) (auto simp: bit_ucast_iff bit_take_bit_iff)

lemma unat_ucast_small: "unat len < 256 \<Longrightarrow> unat (ucast (len :: u64) :: u8) = unat len"
  by (simp add: unsigned_ucast_eq take_bit_nat_eq_self)

lemma length_byte_le: "length_byte (for_length len) \<le> 127"
proof -
  have "unat len < 126 \<Longrightarrow> unat (ucast len :: u8) \<le> 127"
    by (simp add: unat_ucast_small)
  then show ?thesis by (simp add: length_byte_def for_length_def word_le_nat_alt word_less_nat_alt)
qed

lemma for_byte_length_byte: "for_byte (length_byte (for_length len)) = for_length len"
proof (cases "len < 126")
  case True
  then have lt: "unat (ucast len :: u8) < 126" by (simp add: unat_ucast_small word_less_nat_alt)
  then have "ucast len \<noteq> (126 :: u8)" "ucast len \<noteq> (127 :: u8)" by force+
  moreover have "ucast len AND 0x7F = (ucast len :: u8)"
    using second_byte(1) [of "ucast len" False] lt by (simp add: flag_def word_le_nat_alt)
  ultimately show ?thesis using True by (simp add: for_length_def length_byte_def for_byte_def)
qed (simp add: for_length_def length_byte_def for_byte_def)

text \<open>The length field written for \<open>len\<close>, and reading it back.\<close>

definition length_field :: "u64 \<Rightarrow> bytes" where
  "length_field len = (case for_length len of Len_U8 _ \<Rightarrow> [] | Len_U16 \<Rightarrow> write_be 2 len | Len_U64 \<Rightarrow> write_be 8 len)"

lemma length_length_field: "length (length_field len) = extra_bytes (for_length len)"
  by (simp add: length_field_def extra_bytes_def split: LengthFormat.split)

lemma length_field_value:
  "0 < extra_bytes (for_length len) \<Longrightarrow> read_be (length_field len) = len"
  "extra_bytes (for_length len) = 0 \<Longrightarrow> ucast (length_byte (for_length len)) = len"
proof -
  have "take_bit 16 len = len" if "len < 65536"
    using that by (intro take_bit_small) (simp add: word_less_nat_alt)
  moreover have "take_bit 64 len = len" by (simp add: take_bit_word_eq_self)
  ultimately show "0 < extra_bytes (for_length len) \<Longrightarrow> read_be (length_field len) = len"
    by (auto simp: for_length_def extra_bytes_def length_field_def read_write_be split: if_splits)
  show "extra_bytes (for_length len) = 0 \<Longrightarrow> ucast (length_byte (for_length len)) = len"
    by (auto simp: for_length_def extra_bytes_def length_byte_def word_less_nat_alt ucast_ucast_u8
        intro!: take_bit_small split: if_splits)
qed

section \<open>Header round trip\<close>

lemma header_format_eq:
  "header_format h len =
     (u8_from_OpCode (opcode h) OR flag (is_final h) 0x80 OR flag (rsv1 h) 0x40 OR flag (rsv2 h) 0x20 OR
        flag (rsv3 h) 0x10) #
     (length_byte (for_length len) OR flag (hmask h \<noteq> None) 0x80) # length_field len @
     (case hmask h of None \<Rightarrow> [] | Some m \<Rightarrow> mask_bytes m)"
  by (simp add: header_format_def length_field_def Let_def)

lemma length_mask_bytes [simp]: "length (mask_bytes m) = 4"
  by (cases m) simp

lemma length_header_format: "length (header_format h len) = header_len h len"
  by (simp add: header_format_eq header_len_def length_length_field split: option.split)

lemma parse_length_field:
  "parse_length (length_byte (for_length len) OR flag b 0x80) (length_field len @ rest) = Some (len, rest)"
  by (simp add: parse_length_def Let_def second_byte(1) [OF length_byte_le] for_byte_length_byte
      length_length_field length_field_value) (simp add: length_field_value length_length_field [symmetric])

lemma parse_mask_bytes:
  "parse_mask (m \<noteq> None) ((case m of None \<Rightarrow> [] | Some m \<Rightarrow> mask_bytes m) @ rest) = Some (m, rest)"
  by (cases m) (simp add: parse_mask_def, rename_tac k, case_tac k, simp add: parse_mask_def)

lemma parse_header_format:
  assumes "\<not> is_reserved (opcode h)"
  shows "FrameHeader_parse (header_format h len @ rest) = Done (rest, Ok (Some (h, len)))"
proof -
  let ?m = "case hmask h of None \<Rightarrow> [] | Some m \<Rightarrow> mask_bytes m"
  from assms have "canonical (opcode h)" by (auto simp: is_reserved_def canonical_def split: OpCode.splits Data.splits Control.splits)
  then have op: "OpCode_from_u8 (u8_from_OpCode (opcode h)) = Done (opcode h)" by (rule OpCode_from_canonical)
  have "parse_internal (header_format h len @ rest) = Done (rest, Ok (Some (h, len)))"
    unfolding header_format_eq parse_internal_def
    by (simp only: append_Cons append_assoc list.case first_byte [OF assms] op xbind_simps parse_length_field
        option.case prod.case second_byte(2) [OF length_byte_le] parse_mask_bytes assms if_False) simp
  then show ?thesis by (simp add: FrameHeader_parse_def)
qed

text \<open>A header that has not arrived completely.\<close>

lemma parse_length_short:
  "length ext < extra_bytes (for_length len) \<Longrightarrow> parse_length (length_byte (for_length len) OR flag b 0x80) ext = None"
  by (simp add: parse_length_def Let_def second_byte(1) [OF length_byte_le] for_byte_length_byte)

lemma parse_mask_short: "length q < 4 \<Longrightarrow> parse_mask True q = None"
  by (auto simp: parse_mask_def split: list.splits)

lemma parse_header_incomplete:
  assumes "\<not> is_reserved (opcode h)" and "strict_prefix bs (header_format h len)"
  shows "FrameHeader_parse bs = Done (bs, Ok None)"
proof -
  let ?m = "case hmask h of None \<Rightarrow> [] | Some m \<Rightarrow> mask_bytes m"
  let ?two = "length_byte (for_length len) OR flag (hmask h \<noteq> None) 0x80"
  have none: "parse_internal bs = Done ([], Ok None)"
  proof (cases "\<exists>one two ext. bs = one # two # ext")
    case False
    then show ?thesis by (auto simp: parse_internal_def split: list.splits)
  next
    case True
    then obtain one two ext where bs: "bs = one # two # ext" by blast
    with assms(2) have two: "two = ?two" and pre: "strict_prefix ext (length_field len @ ?m)"
      and one: "one = u8_from_OpCode (opcode h) OR flag (is_final h) 0x80 OR flag (rsv1 h) 0x40 OR
        flag (rsv2 h) 0x20 OR flag (rsv3 h) 0x10"
      by (simp_all add: header_format_eq strict_prefix_def)
    have "canonical (opcode h)"
      using assms(1) by (auto simp: is_reserved_def canonical_def split: OpCode.splits Data.splits Control.splits)
    then have op: "OpCode_from_u8 (one AND 0x0F) = Done (opcode h)"
      unfolding one first_byte [OF assms(1)] by (rule OpCode_from_canonical)
    show ?thesis
    proof (cases "length ext < extra_bytes (for_length len)")
      case True
      then show ?thesis by (simp add: parse_internal_def bs op two parse_length_short)
    next
      case False
      then have long: "length (length_field len) \<le> length ext" by (simp add: length_length_field)
      from pre have "prefix ext (length_field len @ ?m)" by (simp add: strict_prefix_def)
      then obtain q where q: "ext = length_field len @ q" using long by (rule prefix_append_long)
      with pre have "strict_prefix q ?m" by (auto simp: strict_prefix_def)
      then have "length q < length ?m" by (rule prefix_length_less)
      then obtain "hmask h \<noteq> None" "length q < 4" by (cases "hmask h") auto
      then show ?thesis
        using parse_mask_short [of q]
        by (simp add: parse_internal_def bs op two q parse_length_field second_byte(2) [OF length_byte_le])
    qed
  qed
  then show ?thesis by (simp add: FrameHeader_parse_def)
qed

section \<open>Frame round trip\<close>

text \<open>The alignment of a buffer splits it within its length; the two bytes put in front of a buffer are read back.\<close>

definition target_ok :: "target \<Rightarrow> bool" where
  "target_ok t \<longleftrightarrow> (\<forall>bs. fst (align_to t bs) + 4 * snd (align_to t bs) \<le> length bs) \<and>
     (\<forall>c bs. read_u16 t (prepend_u16 t c bs) = (c, bs)) \<and>
     (\<forall>c bs. length (prepend_u16 t c bs) = length bs + 2) \<and>
     (\<forall>bs. 2 \<le> length bs \<longrightarrow> length (snd (read_u16 t bs)) = length bs - 2)"

lemma Frame_apply_mask_eq:
  assumes "target_ok t"
  shows "Frame_apply_mask t f = (case hmask (header f) of None \<Rightarrow> f
    | Some m \<Rightarrow> f\<lparr>header := (header f)\<lparr>hmask := None\<rparr>, payload := apply_mask_fallback (payload f) m\<rparr>)"
proof -
  have "apply_mask (big_endian t) (fst (align_to t bs)) (snd (align_to t bs)) bs m = apply_mask_fallback bs m" for bs m
    unfolding apply_mask_def by (rule fast32_fallback) (use assms in \<open>simp add: target_ok_def\<close>)
  then show ?thesis by (auto simp: Frame_apply_mask_def case_prod_beta split: option.splits)
qed

lemma apply_mask_fallback_simps [simp]:
  "length (apply_mask_fallback bs m) = length bs"
  "apply_mask_fallback (apply_mask_fallback bs m) m = bs"
  by (simp_all add: apply_mask_fallback_def)

text \<open>The payload as it travels on the wire.\<close>

definition wire_payload :: "Frame \<Rightarrow> bytes" where
  "wire_payload f = (case hmask (header f) of None \<Rightarrow> payload f | Some m \<Rightarrow> apply_mask_fallback (payload f) m)"

lemma length_wire_payload [simp]: "length (wire_payload f) = length (payload f)"
  by (simp add: wire_payload_def split: option.split)

lemma Frame_format_eq:
  "target_ok t \<Longrightarrow> Frame_format t f = header_format (header f) (of_nat (length (payload f))) @ wire_payload f"
  by (simp add: Frame_format_def Frame_apply_mask_eq wire_payload_def split: option.split)

lemma length_Frame_format: "target_ok t \<Longrightarrow> length (Frame_format t f) = Frame_len f"
  by (simp add: Frame_format_eq Frame_len_def length_header_format)

section \<open>Properties\<close>

text \<open>
  A frame header written for a payload length is read back as the same header and length, and
  exactly its own bytes are consumed, for all three length formats, masked or not; as long as any of
  its bytes is missing, the parser asks for more and consumes nothing.
\<close>
theorem header_roundtrip:
  assumes "\<not> is_reserved (opcode h)"
  shows "FrameHeader_parse (header_format h len @ rest) = Done (rest, Ok (Some (h, len))) \<and>
    length (header_format h len) = header_len h len \<and>
    (strict_prefix bs (header_format h len) \<longrightarrow> FrameHeader_parse bs = Done (bs, Ok None))"
  using parse_header_format [OF assms] parse_header_incomplete [OF assms] by (simp add: length_header_format)

definition demo_header :: FrameHeader where
  "demo_header = FrameHeader_default\<lparr>opcode := OpData Data_Binary, hmask := Some (Mask4 1 2 3 4)\<rparr>"

theorem header_roundtrip_witness:
  "FrameHeader_parse (header_format demo_header 300 @ [9]) = Done ([9], Ok (Some (demo_header, 300))) \<and>
    FrameHeader_parse (take 7 (header_format demo_header 300)) = Done (take 7 (header_format demo_header 300), Ok None)"
proof -
  have op: "\<not> is_reserved (opcode demo_header)" by (simp add: demo_header_def is_reserved_def)
  have "length (header_format demo_header 300) = 8"
    by (simp add: length_header_format header_len_def demo_header_def extra_bytes_def for_length_def)
  then have "strict_prefix (take 7 (header_format demo_header 300)) (header_format demo_header 300)"
    by (auto simp: strict_prefix_def take_is_prefix dest: arg_cong [where f = length])
  then show ?thesis
    using header_roundtrip [OF op, of 300 "[9]" "take 7 (header_format demo_header 300)"] by simp
qed

end
