(* ===== verification/Ws_Codec.thy ===== *)
theory Ws_Codec
  imports Ws_Frame
begin

text \<open>
  The frame codec: \<open>src/src/adapters/ws/protocol/frame/mod.rs\<close>. The codec cuts the bytes of a stream
  into frames and buffers the frames to be written. The stream is the sequence of its answers, as
  the transports have it, with the bytes it took. The source names the two buffers \<open>in_buffer_opt\<close>
  and \<open>out_buffer_opt\<close> in the struct and \<open>in_buffer\<close> and \<open>out_buffer\<close> in the methods; they are the
  latter here, each the bytes it holds unread.
\<close>

section \<open>Streams\<close>

text \<open>
  The answers to come of \<open>read\<close> (an answer \<open>Ok bs\<close> stores \<open>bs\<close>), \<open>write\<close> and \<open>flush\<close>, the random
  masks to come, and the bytes written so far.
\<close>

record wstream =
  next_reads :: "nat \<Rightarrow> io_error + bytes"
  next_writes :: "nat \<Rightarrow> bytes \<Rightarrow> io_error + nat"
  next_flushes :: "nat \<Rightarrow> io_error + unit"
  next_masks :: "nat \<Rightarrow> mask4"
  sent_bytes :: bytes

definition stream_read :: "wstream \<Rightarrow> wstream \<times> (io_error + bytes)" where
  "stream_read s = (s\<lparr>next_reads := \<lambda>n. next_reads s (Suc n)\<rparr>, next_reads s 0)"

definition stream_write :: "wstream \<Rightarrow> bytes \<Rightarrow> wstream \<times> (io_error + nat)" where
  "stream_write s bs =
     (let s' = s\<lparr>next_writes := \<lambda>n. next_writes s (Suc n)\<rparr> in
      case next_writes s 0 bs of
        Inl e \<Rightarrow> (s', Inl e)
      | Inr n \<Rightarrow> (s'\<lparr>sent_bytes := sent_bytes s @ take n bs\<rparr>, Inr n))"

definition stream_flush :: "wstream \<Rightarrow> wstream \<times> (io_error + unit)" where
  "stream_flush s = (s\<lparr>next_flushes := \<lambda>n. next_flushes s (Suc n)\<rparr>, next_flushes s 0)"

definition generate_mask :: "wstream \<Rightarrow> wstream \<times> mask4" where
  "generate_mask s = (s\<lparr>next_masks := \<lambda>n. next_masks s (Suc n)\<rparr>, next_masks s 0)"

section \<open>The codec\<close>

definition usize_MAX :: nat where "usize_MAX = 2 ^ 64 - 1"

record FrameCodec =
  in_buffer :: bytes
  out_buffer :: bytes
  max_out_buffer_len :: nat
  out_buffer_write_len :: nat
  codec_header :: "(FrameHeader \<times> u64) option"

definition FrameCodec_new :: FrameCodec where
  "FrameCodec_new = \<lparr>in_buffer = [], out_buffer = [], max_out_buffer_len = usize_MAX, out_buffer_write_len = 0,
     codec_header = None\<rparr>"

definition FrameCodec_from_partially_read :: "bytes \<Rightarrow> FrameCodec" where
  "FrameCodec_from_partially_read part = \<lparr>in_buffer = part, out_buffer = [], max_out_buffer_len = usize_MAX,
     out_buffer_write_len = 0, codec_header = None\<rparr>"

definition set_max_out_buffer_len :: "nat \<Rightarrow> FrameCodec \<Rightarrow> FrameCodec" where
  "set_max_out_buffer_len m c = c\<lparr>max_out_buffer_len := m\<rparr>"

definition set_out_buffer_write_len :: "nat \<Rightarrow> FrameCodec \<Rightarrow> FrameCodec" where
  "set_out_buffer_write_len n c = c\<lparr>out_buffer_write_len := n\<rparr>"

subsection \<open>Reading\<close>

text \<open>The part of the loop before the next read: the header, if it is all there.\<close>

definition read_header :: "FrameCodec \<Rightarrow> (FrameCodec \<times> (Error + unit)) exec" where
  "read_header c =
     (case codec_header c of
        Some _ \<Rightarrow> Done (c, Ok ())
      | None \<Rightarrow>
          xbind (FrameHeader_parse (in_buffer c)) (\<lambda>(rest, ret).
          Done (case ret of
            Inl e \<Rightarrow> (c\<lparr>in_buffer := rest\<rparr>, Err e)
          | Inr h \<Rightarrow> (c\<lparr>in_buffer := rest, codec_header := h\<rparr>, Ok ()))))"

text \<open>The payload, if it is all there: \<open>None\<close> asks for more data.\<close>

definition take_payload :: "nat \<Rightarrow> FrameCodec \<Rightarrow> FrameCodec \<times> (Error + bytes) option" where
  "take_payload max_size c =
     (case codec_header c of
        None \<Rightarrow> (c, None)
      | Some (_, len) \<Rightarrow>
          if max_size < unat len then (c, Some (Err (Capacity (MessageTooLong (unat len) max_size))))
          else if unat len \<le> length (in_buffer c)
          then (c\<lparr>in_buffer := drop (unat len) (in_buffer c)\<rparr>, Some (Ok (take (unat len) (in_buffer c))))
          else (c, None))"

partial_function (option) read_frame_loop ::
  "nat \<Rightarrow> FrameCodec \<Rightarrow> wstream \<Rightarrow> (FrameCodec \<times> wstream \<times> (Error + Frame option)) exec option" where
  "read_frame_loop max_size c s =
     (case read_header c of
        Panic \<Rightarrow> Some Panic
      | Done (c, ret) \<Rightarrow>
          (case ret of
             Inl e \<Rightarrow> Some (Done (c, s, Err e))
           | Inr _ \<Rightarrow>
               (case take_payload max_size c of
                  (c, Some (Inl e)) \<Rightarrow> Some (Done (c, s, Err e))
                | (c, Some (Inr bs)) \<Rightarrow>
                    Some (case codec_header c of
                      None \<Rightarrow> Panic
                    | Some (h, _) \<Rightarrow> Done (c\<lparr>codec_header := None\<rparr>, s, Ok (Some (from_payload h bs))))
                | (c, None) \<Rightarrow>
                    (case stream_read s of
                       (s, Inl e) \<Rightarrow> Some (Done (c, s, Err (Io e)))
                     | (s, Inr bs) \<Rightarrow>
                         if bs = [] then Some (Done (c, s, Ok None))
                         else read_frame_loop max_size (c\<lparr>in_buffer := in_buffer c @ bs\<rparr>) s))))"

definition read_frame ::
  "FrameCodec \<Rightarrow> wstream \<Rightarrow> nat option \<Rightarrow> (FrameCodec \<times> wstream \<times> (Error + Frame option)) exec option" where
  "read_frame c s max_size = read_frame_loop (case max_size of None \<Rightarrow> usize_MAX | Some m \<Rightarrow> m) c s"

subsection \<open>Writing\<close>

text \<open>\<open>drain(0..len)\<close> panics when the stream claims to have taken more than it was given.\<close>

function write_out_loop :: "bytes \<Rightarrow> wstream \<Rightarrow> (bytes \<times> wstream \<times> (Error + unit)) exec" where
  "write_out_loop out s =
     (if out = [] then Done (out, s, Ok ())
      else
        (case stream_write s out of
           (s, Inl e) \<Rightarrow> Done (out, s, Err (Io e))
         | (s, Inr n) \<Rightarrow>
             if n = 0 then Done (out, s, Err (Io ConnectionReset))
             else if length out < n then Panic
             else write_out_loop (drop n out) s))"
  by pat_completeness auto
termination
  by (relation "measure (\<lambda>(out, s). length out)") auto

declare write_out_loop.simps [simp del]

definition write_out_buffer :: "FrameCodec \<Rightarrow> wstream \<Rightarrow> (FrameCodec \<times> wstream \<times> (Error + unit)) exec" where
  "write_out_buffer c s =
     xbind (write_out_loop (out_buffer c) s) (\<lambda>(out, s, ret). Done (c\<lparr>out_buffer := out\<rparr>, s, ret))"

definition codec_buffer_frame ::
  "target \<Rightarrow> FrameCodec \<Rightarrow> wstream \<Rightarrow> Frame \<Rightarrow> (FrameCodec \<times> wstream \<times> (Error + unit)) exec" where
  "codec_buffer_frame t c s frame =
     (if max_out_buffer_len c < Frame_len frame + length (out_buffer c)
      then Done (c, s, Err (WriteBufferFull (Msg_Frame frame)))
      else
        let c = c\<lparr>out_buffer := out_buffer c @ Frame_format t frame\<rparr> in
        if out_buffer_write_len c < length (out_buffer c) then write_out_buffer c s else Done (c, s, Ok ()))"

section \<open>Reading frames from chunks\<close>

text \<open>What the codec has taken from the stream and not yet handed over.\<close>

definition unread :: "FrameCodec \<Rightarrow> bytes" where
  "unread c = (case codec_header c of None \<Rightarrow> in_buffer c | Some (h, len) \<Rightarrow> header_format h len @ in_buffer c)"

definition codec_ok :: "FrameCodec \<Rightarrow> bool" where
  "codec_ok c \<longleftrightarrow> (case codec_header c of None \<Rightarrow> True | Some (h, _) \<Rightarrow> \<not> is_reserved (opcode h))"

lemma unread_more: "unread (c\<lparr>in_buffer := in_buffer c @ bs\<rparr>) = unread c @ bs"
  by (simp add: unread_def split: option.splits)

text \<open>The stream answers the next reads with these chunks.\<close>

definition delivers :: "wstream \<Rightarrow> bytes list \<Rightarrow> bool" where
  "delivers s chunks \<longleftrightarrow> (\<forall>i < length chunks. next_reads s i = Ok (chunks ! i) \<and> chunks ! i \<noteq> [])"

definition after_reads :: "nat \<Rightarrow> wstream \<Rightarrow> wstream" where
  "after_reads k s = s\<lparr>next_reads := \<lambda>n. next_reads s (k + n)\<rparr>"

lemma delivers_Cons:
  "delivers s (ch # chunks) \<longleftrightarrow> next_reads s 0 = Ok ch \<and> ch \<noteq> [] \<and> delivers (after_reads 1 s) chunks"
  by (auto simp: delivers_def after_reads_def nth_Cons less_Suc_eq_0_disj split: nat.splits)

lemma delivers_drop: "delivers s chunks \<Longrightarrow> k \<le> length chunks \<Longrightarrow> delivers (after_reads k s) (drop k chunks)"
  by (simp add: delivers_def after_reads_def)

lemma after_reads_add [simp]: "after_reads k (after_reads j s) = after_reads (j + k) s" "after_reads 0 s = s"
  by (simp_all add: after_reads_def add.assoc)

lemma stream_read_delivers:
  "delivers s (ch # chunks) \<Longrightarrow> stream_read s = (after_reads 1 s, Ok ch)"
  by (simp add: delivers_Cons stream_read_def after_reads_def)

lemma header_prefix_unique:
  assumes "\<not> is_reserved (opcode h)" and "\<not> is_reserved (opcode h')"
    and "header_format h len @ xs = header_format h' len' @ ys"
  shows "h = h'" and "len = len'" and "xs = ys"
proof -
  from arg_cong [OF assms(3), of FrameHeader_parse]
  have "(xs, Ok (Some (h, len))) = ((ys, Ok (Some (h', len'))) :: bytes \<times> (Error + _))"
    unfolding parse_header_format [OF assms(1)] parse_header_format [OF assms(2)] by simp
  then show "h = h'" "len = len'" "xs = ys" by simp_all
qed

text \<open>After the header step the codec knows the header of the frame or has not got all of it.\<close>

lemma read_header_cases:
  assumes ok: "codec_ok c" and h: "\<not> is_reserved (opcode h)"
    and un: "unread c @ coming = header_format h len @ body"
  obtains
    (known) q where "read_header c = Done (c\<lparr>in_buffer := q, codec_header := Some (h, len)\<rparr>, Ok ())" "q @ coming = body"
  | (short) "read_header c = Done (c, Ok ())" "codec_header c = None" "coming \<noteq> []"
proof (cases "codec_header c")
  case (Some hd)
  obtain h1 len1 where hd: "hd = (h1, len1)" by (cases hd)
  have "header_format h1 len1 @ (in_buffer c @ coming) = header_format h len @ body"
    using un Some hd by (simp add: unread_def)
  note eq = header_prefix_unique [OF _ h this]
  have "\<not> is_reserved (opcode h1)" using ok Some hd by (simp add: codec_ok_def)
  with eq Some hd have "codec_header c = Some (h, len)" "in_buffer c @ coming = body" by simp_all
  moreover from this have "c\<lparr>in_buffer := in_buffer c, codec_header := Some (h, len)\<rparr> = c" by (cases c) simp
  ultimately show thesis by (intro known [of "in_buffer c"]) (simp_all add: read_header_def)
next
  case None
  then have buf: "in_buffer c @ coming = header_format h len @ body" using un by (simp add: unread_def)
  show thesis
  proof (cases "length (in_buffer c) < length (header_format h len)")
    case True
    then have "prefix (in_buffer c) (header_format h len)"
      using prefix_append_short [of "in_buffer c" "header_format h len" body] prefixI [OF buf [symmetric]] by simp
    with True have "strict_prefix (in_buffer c) (header_format h len)" by (auto simp: strict_prefix_def)
    then have "FrameHeader_parse (in_buffer c) = Done (in_buffer c, Ok None)" by (rule parse_header_incomplete [OF h])
    then have "read_header c = Done (c, Ok ())" using None by (simp add: read_header_def)
    moreover have "coming \<noteq> []" using buf True by auto
    ultimately show thesis using None by (intro short)
  next
    case False
    then obtain q where q: "in_buffer c = header_format h len @ q" "q @ coming = body"
      using buf by (metis append_eq_append_conv_if append_take_drop_id not_less)
    show thesis
      by (rule known [OF _ q(2)]) (use None parse_header_format [OF h, of len q] q(1) in \<open>simp add: read_header_def\<close>)
  qed
qed

lemma read_frame_loop_step:
  "read_frame_loop max_size c s =
     (case read_header c of
        Panic \<Rightarrow> Some Panic
      | Done (c, ret) \<Rightarrow>
          (case ret of
             Inl e \<Rightarrow> Some (Done (c, s, Err e))
           | Inr _ \<Rightarrow>
               (case take_payload max_size c of
                  (c, Some (Inl e)) \<Rightarrow> Some (Done (c, s, Err e))
                | (c, Some (Inr bs)) \<Rightarrow>
                    Some (case codec_header c of
                      None \<Rightarrow> Panic
                    | Some (h, _) \<Rightarrow> Done (c\<lparr>codec_header := None\<rparr>, s, Ok (Some (from_payload h bs))))
                | (c, None) \<Rightarrow>
                    (case stream_read s of
                       (s, Inl e) \<Rightarrow> Some (Done (c, s, Err (Io e)))
                     | (s, Inr bs) \<Rightarrow>
                         if bs = [] then Some (Done (c, s, Ok None))
                         else read_frame_loop max_size (c\<lparr>in_buffer := in_buffer c @ bs\<rparr>) s))))"
  by (rule read_frame_loop.simps)

lemma read_frame_loop_more:
  assumes "read_header c = Done (c1, Ok ())" and "take_payload max_size c1 = (c1, None)" and "delivers s (ch # chunks)"
  shows "read_frame_loop max_size c s = read_frame_loop max_size (c1\<lparr>in_buffer := in_buffer c1 @ ch\<rparr>) (after_reads 1 s)"
  using assms(3) by (subst read_frame_loop_step) (simp add: assms(1,2) stream_read_delivers [OF assms(3)] delivers_Cons)

lemma read_frame_loop_all:
  assumes "read_header c = Done (c\<lparr>in_buffer := bs @ rest, codec_header := Some (h, len)\<rparr>, Ok ())"
    and "unat len = length bs" and "unat len \<le> max_size"
  shows "read_frame_loop max_size c s =
    Some (Done (c\<lparr>in_buffer := rest, codec_header := None\<rparr>, s, Ok (Some (from_payload h bs))))"
  using assms by (subst read_frame_loop_step) (simp add: take_payload_def)

lemma read_frame_chunks:
  assumes h: "\<not> is_reserved (opcode h)" and len: "unat len = length bs" "unat len \<le> max_size"
    and "codec_ok c" and "unread c @ concat chunks = header_format h len @ bs @ rest" and "delivers s chunks"
  shows "\<exists>k q. k \<le> length chunks \<and> q @ concat (drop k chunks) = rest \<and>
    read_frame_loop max_size c s =
      Some (Done (c\<lparr>in_buffer := q, codec_header := None\<rparr>, after_reads k s, Ok (Some (from_payload h bs))))"
  using assms(4-6)
proof (induction chunks arbitrary: c s)
  case Nil
  from Nil(1) h Nil(2) show ?case
  proof (cases rule: read_header_cases)
    case (known q)
    then have "read_header c = Done (c\<lparr>in_buffer := bs @ rest, codec_header := Some (h, len)\<rparr>, Ok ())" by simp
    from read_frame_loop_all [OF this len] show ?thesis by (intro exI [of _ 0] exI [of _ rest]) simp
  qed simp
next
  case (Cons ch chunks)
  have go_on: ?case
    if c1: "read_header c = Done (c1, Ok ())" "take_payload max_size c1 = (c1, None)" "codec_ok c1" "unread c1 = unread c"
      "\<And>q. c1\<lparr>in_buffer := q, codec_header := None\<rparr> = c\<lparr>in_buffer := q, codec_header := None\<rparr>" for c1
  proof -
    let ?c = "c1\<lparr>in_buffer := in_buffer c1 @ ch\<rparr>"
    have "codec_ok ?c" "unread ?c @ concat chunks = header_format h len @ bs @ rest"
      using c1(3,4) Cons.prems(2) by (simp_all add: codec_ok_def unread_more)
    moreover have "delivers (after_reads 1 s) chunks" using Cons.prems(3) by (simp add: delivers_Cons)
    ultimately obtain k q where IH: "k \<le> length chunks" "q @ concat (drop k chunks) = rest"
      "read_frame_loop max_size ?c (after_reads 1 s) =
        Some (Done (?c\<lparr>in_buffer := q, codec_header := None\<rparr>, after_reads k (after_reads 1 s), Ok (Some (from_payload h bs))))"
      using Cons.IH by blast
    have "?c\<lparr>in_buffer := q, codec_header := None\<rparr> = c\<lparr>in_buffer := q, codec_header := None\<rparr>" using c1(5) [of q] by simp
    with IH read_frame_loop_more [OF c1(1,2) Cons.prems(3)] show ?thesis
      by (intro exI [of _ "Suc k"] exI [of _ q]) simp
  qed
  from Cons.prems(1) h Cons.prems(2) show ?case
  proof (cases rule: read_header_cases)
    case (known p)
    show ?thesis
    proof (cases "length bs \<le> length p")
      case True
      with known(2) obtain q where q: "p = bs @ q" "q @ concat (ch # chunks) = rest"
        by (metis append_eq_append_conv_if append_take_drop_id)
      from read_frame_loop_all [OF known(1) [unfolded q(1)] len, of s] q(2) show ?thesis
        by (intro exI [of _ 0] exI [of _ q]) simp
    next
      case False
      have "unread c = header_format h len @ p"
        using known(2) Cons.prems(2) by (metis append.assoc append_same_eq)
      with False h len show ?thesis
        by (intro go_on [OF known(1)]) (simp_all add: take_payload_def codec_ok_def unread_def [of "c\<lparr>in_buffer := _, codec_header := _\<rparr>"])
    qed
  next
    case short
    show ?thesis
      by (rule go_on [OF short(1)]) (use short Cons.prems in \<open>simp_all add: take_payload_def\<close>)
  qed
qed


text \<open>Several frames one after the other.\<close>

fun read_frames ::
  "nat \<Rightarrow> FrameCodec \<Rightarrow> wstream \<Rightarrow> nat option \<Rightarrow> (FrameCodec \<times> wstream \<times> (Error + Frame option) list) exec option" where
  "read_frames 0 c s m = Some (Done (c, s, []))"
| "read_frames (Suc n) c s m =
     obind (read_frame c s m) (\<lambda>(c, s, ret).
     obind (read_frames n c s m) (\<lambda>(c, s, rets). Some (Done (c, s, ret # rets))))"

text \<open>A frame as the codec hands it over, before the mask is removed.\<close>

definition on_wire :: "Frame \<Rightarrow> Frame" where
  "on_wire f = from_payload (header f) (wire_payload f)"

definition frame_ok :: "nat option \<Rightarrow> Frame \<Rightarrow> bool" where
  "frame_ok m f \<longleftrightarrow> \<not> is_reserved (opcode (header f)) \<and> length (payload f) < 2 ^ 64 \<and>
     (case m of None \<Rightarrow> True | Some k \<Rightarrow> length (payload f) \<le> k)"

lemma read_frame_wire:
  assumes "target_ok t" and "frame_ok m f" and "codec_ok c"
    and "unread c @ concat chunks = Frame_format t f @ rest" and "delivers s chunks"
  shows "\<exists>k q. k \<le> length chunks \<and> q @ concat (drop k chunks) = rest \<and>
    read_frame c s m = Some (Done (c\<lparr>in_buffer := q, codec_header := None\<rparr>, after_reads k s, Ok (Some (on_wire f))))"
proof -
  let ?len = "of_nat (length (payload f)) :: u64"
  have len: "unat ?len = length (wire_payload f)"
    using assms(2) by (simp add: frame_ok_def unat_of_nat)
  have "unread c @ concat chunks = header_format (header f) ?len @ wire_payload f @ rest"
    using assms(4) by (simp add: Frame_format_eq [OF assms(1)])
  moreover have "unat ?len \<le> (case m of None \<Rightarrow> usize_MAX | Some m \<Rightarrow> m)"
    using assms(2) len by (auto simp: frame_ok_def usize_MAX_def split: option.splits)
  ultimately show ?thesis
    using read_frame_chunks [OF _ len _ assms(3) _ assms(5)] assms(2)
    by (simp add: read_frame_def on_wire_def frame_ok_def)
qed

lemma read_frames_wire:
  assumes "target_ok t" and "\<forall>f \<in> set fs. frame_ok m f" and "codec_ok c"
    and "unread c @ concat chunks = concat (map (Frame_format t) fs) @ rest" and "delivers s chunks"
  shows "\<exists>k c'. k \<le> length chunks \<and> unread c' @ concat (drop k chunks) = rest \<and> codec_ok c' \<and>
    read_frames (length fs) c s m = Some (Done (c', after_reads k s, map (\<lambda>f. Ok (Some (on_wire f))) fs))"
  using assms(2-5)
proof (induction fs arbitrary: c chunks s)
  case Nil
  then show ?case by (intro exI [of _ 0] exI [of _ c]) simp
next
  case (Cons f fs)
  from Cons.prems(1) have f: "frame_ok m f" and fs: "\<forall>f \<in> set fs. frame_ok m f" by simp_all
  have "unread c @ concat chunks = Frame_format t f @ concat (map (Frame_format t) fs) @ rest"
    using Cons.prems(3) by simp
  from read_frame_wire [OF assms(1) f Cons.prems(2) this Cons.prems(4)]
  obtain k q where k: "k \<le> length chunks" "q @ concat (drop k chunks) = concat (map (Frame_format t) fs) @ rest"
    "read_frame c s m = Some (Done (c\<lparr>in_buffer := q, codec_header := None\<rparr>, after_reads k s, Ok (Some (on_wire f))))"
    by blast
  let ?c = "c\<lparr>in_buffer := q, codec_header := None\<rparr>"
  have "codec_ok ?c" "unread ?c @ concat (drop k chunks) = concat (map (Frame_format t) fs) @ rest"
    using k(2) by (simp_all add: codec_ok_def unread_def)
  from Cons.IH [OF fs this delivers_drop [OF Cons.prems(4) k(1)]]
  obtain j c' where j: "j \<le> length (drop k chunks)" "unread c' @ concat (drop j (drop k chunks)) = rest" "codec_ok c'"
    "read_frames (length fs) ?c (after_reads k s) m =
      Some (Done (c', after_reads j (after_reads k s), map (\<lambda>f. Ok (Some (on_wire f))) fs))" by blast
  with k show ?case by (intro exI [of _ "k + j"] exI [of _ c']) (simp add: add.commute)
qed

section \<open>Writing out\<close>

text \<open>The contract of \<open>Write\<close>: a stream takes at most what it is given.\<close>

definition write_contract :: "wstream \<Rightarrow> bool" where
  "write_contract s \<longleftrightarrow> (\<forall>n bs k. next_writes s n bs = Ok k \<longrightarrow> k \<le> length bs)"

lemma stream_write_keeps:
  "stream_write s bs = (s', ret) \<Longrightarrow> write_contract s \<Longrightarrow> write_contract s'"
  by (auto simp: stream_write_def write_contract_def Let_def split: sum.splits)

lemma write_out_loop_keeps:
  assumes "write_contract s"
  shows "\<exists>out' s' ret. write_out_loop out s = Done (out', s', ret) \<and> write_contract s' \<and>
    sent_bytes s' @ out' = sent_bytes s @ out \<and> (ret = Ok () \<longleftrightarrow> out' = []) \<and> length out' \<le> length out \<and>
    next_reads s' = next_reads s \<and> next_masks s' = next_masks s \<and> next_flushes s' = next_flushes s"
  using assms
proof (induction out s rule: write_out_loop.induct)
  case (1 out s)
  obtain s1 ret where w: "stream_write s out = (s1, ret)" by (cases "stream_write s out")
  note keeps = stream_write_keeps [OF w 1(2)]
  from w have same: "next_reads s1 = next_reads s \<and> next_masks s1 = next_masks s \<and> next_flushes s1 = next_flushes s"
    by (auto simp: stream_write_def Let_def split: sum.splits)
  show ?case
  proof (cases "out = []")
    case True
    with 1(2) show ?thesis by (simp add: write_out_loop.simps)
  next
    case False
    show ?thesis
    proof (cases ret)
      case (Inl e)
      with w have "sent_bytes s1 = sent_bytes s" by (auto simp: stream_write_def Let_def split: sum.splits)
      with w Inl False keeps same show ?thesis by (subst write_out_loop.simps) simp
    next
      case (Inr n)
      with w have sent: "sent_bytes s1 = sent_bytes s @ take n out" and n: "next_writes s 0 out = Ok n"
        by (auto simp: stream_write_def Let_def split: sum.splits)
      from n 1(2) have le: "n \<le> length out" by (auto simp: write_contract_def)
      show ?thesis
      proof (cases "n = 0")
        case True
        with w Inr False keeps same sent show ?thesis by (subst write_out_loop.simps) simp
      next
        case nz: False
        from 1(1) [OF False w [symmetric] Inr nz] le keeps obtain out' s' ret' where
          "write_out_loop (drop n out) s1 = Done (out', s', ret')" "write_contract s'"
          "sent_bytes s' @ out' = sent_bytes s1 @ drop n out" "ret' = Ok () \<longleftrightarrow> out' = []"
          "length out' \<le> length (drop n out)"
          "next_reads s' = next_reads s1 \<and> next_masks s' = next_masks s1 \<and> next_flushes s' = next_flushes s1" by auto
        with w Inr False nz le sent same show ?thesis by (subst write_out_loop.simps) simp
      qed
    qed
  qed
qed

lemma write_out_buffer_keeps:
  assumes "write_contract s"
  obtains out s' ret where "write_out_buffer c s = Done (c\<lparr>out_buffer := out\<rparr>, s', ret)" "write_contract s'"
    "sent_bytes s' @ out = sent_bytes s @ out_buffer c" "ret = Ok () \<longleftrightarrow> out = []" "length out \<le> length (out_buffer c)"
    "next_reads s' = next_reads s" "next_masks s' = next_masks s" "next_flushes s' = next_flushes s"
  using write_out_loop_keeps [OF assms, of "out_buffer c"] by (auto simp: write_out_buffer_def)

section \<open>Sample machine\<close>

text \<open>A little-endian machine with buffers aligned at their start, and a stream that takes what it is given.\<close>

definition sample_target :: target where
  "sample_target = \<lparr>big_endian = False, align_to = (\<lambda>bs. (0, length bs div 4)),
     read_u16 = (\<lambda>bs. (push_bit 8 (ucast (bs ! 0)) OR ucast (bs ! 1), drop 2 bs)),
     prepend_u16 = (\<lambda>w bs. ucast (drop_bit 8 w) # ucast w # bs)\<rparr>"

lemma target_ok_sample: "target_ok sample_target"
proof -
  have "push_bit 8 (ucast (ucast (drop_bit 8 w) :: u8)) OR ucast (ucast w :: u8) = w" for w :: u16
    by (rule bit_word_eqI) (auto simp: bit_simps)
  then show ?thesis by (simp add: target_ok_def sample_target_def)
qed

definition sample_stream :: "bytes list \<Rightarrow> wstream" where
  "sample_stream chunks = \<lparr>next_reads = (\<lambda>i. if i < length chunks then Ok (chunks ! i) else Err WouldBlock),
     next_writes = (\<lambda>_ bs. Ok (length bs)), next_flushes = (\<lambda>_. Ok ()), next_masks = (\<lambda>_. Mask4 1 2 3 4),
     sent_bytes = []\<rparr>"

lemma sample_stream_ok:
  "write_contract (sample_stream chunks)" "[] \<notin> set chunks \<Longrightarrow> delivers (sample_stream chunks) chunks"
  by (auto simp: write_contract_def sample_stream_def delivers_def in_set_conv_nth)

section \<open>Properties\<close>

text \<open>
  C13: The frames put on the wire one after the other are cut out again, in order and complete, however
  the stream splits their bytes into chunks and however much of the first frame the codec already
  holds; removing the mask gives the payload that was sent, and nothing is left over.
\<close>
theorem read_frames_reassemble:
  assumes "target_ok t" and "\<forall>f \<in> set fs. frame_ok m f" and "codec_ok c" and "delivers s chunks"
    and "unread c @ concat chunks = concat (map (Frame_format t) fs)"
  shows "\<exists>k c' got. read_frames (length fs) c s m = Some (Done (c', after_reads k s, map (\<lambda>f. Ok (Some f)) got)) \<and>
    map header got = map header fs \<and>
    map (\<lambda>f. payload (Frame_apply_mask t f)) got = map payload fs \<and>
    unread c' = [] \<and> concat (drop k chunks) = []"
proof -
  from read_frames_wire [OF assms(1-3), of chunks "[]" s] assms(4,5) obtain k c' where
    "read_frames (length fs) c s m = Some (Done (c', after_reads k s, map (\<lambda>f. Ok (Some (on_wire f))) fs))"
    "unread c' = []" "concat (drop k chunks) = []" by auto
  moreover have "payload (Frame_apply_mask t (on_wire f)) = payload f" for f
    by (simp add: Frame_apply_mask_eq [OF assms(1)] on_wire_def from_payload_def wire_payload_def split: option.split)
  ultimately show ?thesis
    by (intro exI [of _ k] exI [of _ c'] exI [of _ "map on_wire fs"]) (simp add: comp_def on_wire_def from_payload_def)
qed

definition demo_frames :: "Frame list" where
  "demo_frames = [set_random_mask (Mask4 1 2 3 4) (Frame_ping [7, 8, 9, 10, 11]), Frame_message [5, 6] (OpData Data_Binary) True]"

definition demo_wire :: bytes where
  "demo_wire = concat (map (Frame_format sample_target) demo_frames)"

theorem read_frames_reassemble_witness:
  "\<exists>k c' got. read_frames 2 (FrameCodec_from_partially_read (take 1 demo_wire))
      (sample_stream [take 5 (drop 1 demo_wire), drop 6 demo_wire]) (Some 5) =
      Some (Done (c', after_reads k (sample_stream [take 5 (drop 1 demo_wire), drop 6 demo_wire]), map (\<lambda>f. Ok (Some f)) got)) \<and>
    map (\<lambda>f. payload (Frame_apply_mask sample_target f)) got = [[7, 8, 9, 10, 11], [5, 6]] \<and> unread c' = []"
proof -
  let ?chunks = "[take 5 (drop 1 demo_wire), drop 6 demo_wire]"
  let ?c = "FrameCodec_from_partially_read (take 1 demo_wire)"
  have "length demo_wire = 15"
    by (simp add: demo_wire_def demo_frames_def length_Frame_format [OF target_ok_sample] Frame_len_def header_len_def
        for_length_def extra_bytes_def Frame_ping_def Frame_message_def set_random_mask_def header_set_random_mask_def
        FrameHeader_default_def)
  then have delivers: "delivers (sample_stream ?chunks) ?chunks"
    by (intro sample_stream_ok) auto
  have "take 1 demo_wire @ concat ?chunks = demo_wire"
    using append_take_drop_id [of 5 "drop 1 demo_wire"] append_take_drop_id [of 1 demo_wire] by simp
  then have c: "codec_ok ?c" "unread ?c @ concat ?chunks = concat (map (Frame_format sample_target) demo_frames)"
    by (simp_all only: FrameCodec_from_partially_read_def codec_ok_def unread_def demo_wire_def [symmetric]
        FrameCodec.simps option.case)
  have frames: "\<forall>f \<in> set demo_frames. frame_ok (Some 5) f" and eqs: "length demo_frames = 2"
    "map payload demo_frames = [[7, 8, 9, 10, 11], [5, 6]]"
    by (simp_all add: demo_frames_def frame_ok_def set_random_mask_def header_set_random_mask_def Frame_ping_def
        Frame_message_def FrameHeader_default_def is_reserved_def)
  from read_frames_reassemble [OF target_ok_sample frames c(1) delivers c(2)]
  show ?thesis unfolding eqs by (elim exE conjE) (intro exI conjI, assumption+)
qed

text \<open>
  Writing out the buffer ends for every stream that keeps the contract of \<open>Write\<close>, and never
  panics: what the stream took and what is still buffered are together exactly what was buffered, in
  order, and the result is \<open>Ok\<close> exactly when the buffer is empty.
\<close>
theorem write_out_total:
  assumes "write_contract s"
  shows "\<exists>out s' ret. write_out_buffer c s = Done (c\<lparr>out_buffer := out\<rparr>, s', ret) \<and>
    sent_bytes s' @ out = sent_bytes s @ out_buffer c \<and> (ret = Ok () \<longleftrightarrow> out = []) \<and> write_contract s'"
  using write_out_buffer_keeps [OF assms, of c] by metis

definition slow_stream :: wstream where
  "slow_stream = (sample_stream [])\<lparr>next_writes := \<lambda>i bs. if i < 2 then Ok (min 1 (length bs)) else Err WouldBlock\<rparr>"

lemma slow_stream_ok: "write_contract slow_stream"
  by (auto simp: write_contract_def slow_stream_def sample_stream_def split: if_splits)

theorem write_out_total_witness:
  "\<exists>out s' ret. write_out_buffer (FrameCodec_new\<lparr>out_buffer := [1, 2, 3]\<rparr>) slow_stream =
      Done (FrameCodec_new\<lparr>out_buffer := out\<rparr>, s', ret) \<and> sent_bytes s' @ out = [1, 2, 3] \<and> (ret = Ok () \<longleftrightarrow> out = [])"
proof -
  from write_out_total [OF slow_stream_ok, of "FrameCodec_new\<lparr>out_buffer := [1, 2, 3]\<rparr>"]
  show ?thesis by (auto simp: slow_stream_def sample_stream_def)
qed

end
