(* ===== verification/Ws_Message.thy ===== *)
theory Ws_Message
  imports Ws_Codec
begin

text \<open>
  Messages under assembly: \<open>src/src/adapters/ws/protocol/message.rs\<close>. Text is decoded incrementally by
  the \<open>utf8\<close> crate, which is a parameter: the record \<open>utf8_crate\<close>. A text is the bytes that encode it.
\<close>

section \<open>The text decoder\<close>

text \<open>
  \<open>utf8::decode\<close> splits its input into a valid prefix and what follows it; \<open>Incomplete::try_complete\<close>
  tries to finish the code point of which the bytes in the buffer of \<open>Incomplete\<close> are the beginning.
\<close>

datatype decoded = Decoded bytes | Decode_Incomplete bytes bytes | Decode_Invalid bytes

datatype completed = Completed bytes bytes | Complete_Invalid bytes | Still_Incomplete bytes

record utf8_crate =
  utf8_decode :: "bytes \<Rightarrow> decoded"
  try_complete :: "bytes \<Rightarrow> bytes \<Rightarrow> completed"

record StringCollector =
  sc_data :: bytes
  sc_incomplete :: "bytes option"

definition StringCollector_new :: StringCollector where
  "StringCollector_new = \<lparr>sc_data = [], sc_incomplete = None\<rparr>"

definition StringCollector_len :: "StringCollector \<Rightarrow> nat" where
  "StringCollector_len sc =
     min usize_MAX (length (sc_data sc) + (case sc_incomplete sc of None \<Rightarrow> 0 | Some i \<Rightarrow> length i))"

text \<open>The second half of \<open>extend\<close>, for the input that is left.\<close>

definition decode_rest :: "utf8_crate \<Rightarrow> StringCollector \<Rightarrow> bytes \<Rightarrow> StringCollector \<times> (Error + unit)" where
  "decode_rest u sc input =
     (if input = [] then (sc, Ok ())
      else
        (case utf8_decode u input of
           Decoded text \<Rightarrow> (sc\<lparr>sc_data := sc_data sc @ text\<rparr>, Ok ())
         | Decode_Incomplete valid_prefix incomplete_suffix \<Rightarrow>
             (sc\<lparr>sc_data := sc_data sc @ valid_prefix, sc_incomplete := Some incomplete_suffix\<rparr>, Ok ())
         | Decode_Invalid valid_prefix \<Rightarrow> (sc\<lparr>sc_data := sc_data sc @ valid_prefix\<rparr>, Err Utf8)))"

definition StringCollector_extend :: "utf8_crate \<Rightarrow> StringCollector \<Rightarrow> bytes \<Rightarrow> StringCollector \<times> (Error + unit)" where
  "StringCollector_extend u sc input =
     (case sc_incomplete sc of
        None \<Rightarrow> decode_rest u sc input
      | Some i \<Rightarrow>
          let sc = sc\<lparr>sc_incomplete := None\<rparr> in
          (case try_complete u i input of
             Completed text rest \<Rightarrow> decode_rest u (sc\<lparr>sc_data := sc_data sc @ text\<rparr>) rest
           | Complete_Invalid rest \<Rightarrow> (sc, Err Utf8)
           | Still_Incomplete i \<Rightarrow> decode_rest u (sc\<lparr>sc_incomplete := Some i\<rparr>) []))"

definition into_string :: "StringCollector \<Rightarrow> Error + bytes" where
  "into_string sc = (if sc_incomplete sc \<noteq> None then Err Utf8 else Ok (sc_data sc))"

section \<open>Incomplete messages\<close>

datatype IncompleteMessageType = Type_Text | Type_Binary

datatype IncompleteMessage = Collect_Text StringCollector | Collect_Binary bytes

definition IncompleteMessage_new :: "IncompleteMessageType \<Rightarrow> IncompleteMessage" where
  "IncompleteMessage_new ty =
     (case ty of Type_Binary \<Rightarrow> Collect_Binary [] | Type_Text \<Rightarrow> Collect_Text StringCollector_new)"

definition IncompleteMessage_len :: "IncompleteMessage \<Rightarrow> nat" where
  "IncompleteMessage_len m = (case m of Collect_Text t \<Rightarrow> StringCollector_len t | Collect_Binary b \<Rightarrow> length b)"

text \<open>
  The size that the error reports is a checked \<open>usize\<close> addition in a debug build; lengths of buffers
  in memory do not overflow it.
\<close>

definition IncompleteMessage_extend ::
  "utf8_crate \<Rightarrow> IncompleteMessage \<Rightarrow> bytes \<Rightarrow> nat option \<Rightarrow> IncompleteMessage \<times> (Error + unit)" where
  "IncompleteMessage_extend u m tail size_limit =
     (let max_size = (case size_limit of None \<Rightarrow> usize_MAX | Some k \<Rightarrow> k);
          my_size = IncompleteMessage_len m;
          portion_size = length tail
      in if max_size < my_size \<or> max_size - my_size < portion_size
         then (m, Err (Capacity (MessageTooLong (my_size + portion_size) max_size)))
         else
           (case m of
              Collect_Binary b \<Rightarrow> (Collect_Binary (b @ tail), Ok ())
            | Collect_Text t \<Rightarrow> (case StringCollector_extend u t tail of (t, ret) \<Rightarrow> (Collect_Text t, ret))))"

definition complete :: "IncompleteMessage \<Rightarrow> Error + Message" where
  "complete m =
     (case m of
        Collect_Binary v \<Rightarrow> Ok (Msg_Binary v)
      | Collect_Text t \<Rightarrow> rbind (into_string t) (\<lambda>text. Ok (Msg_Text text)))"

section \<open>Messages\<close>

definition Message_len :: "Message \<Rightarrow> nat" where
  "Message_len m =
     (case m of
        Msg_Text s \<Rightarrow> length s
      | Msg_Binary b \<Rightarrow> length b
      | Msg_Ping b \<Rightarrow> length b
      | Msg_Pong b \<Rightarrow> length b
      | Msg_Close c \<Rightarrow> (case c of None \<Rightarrow> 0 | Some d \<Rightarrow> length (reason d))
      | Msg_Frame f \<Rightarrow> Frame_len f)"

definition Message_is_empty :: "Message \<Rightarrow> bool" where
  "Message_is_empty m \<longleftrightarrow> Message_len m = 0"

end
