(* ===== verification/Ws_Context.thy ===== *)
theory Ws_Context
  imports Ws_Message
begin

text \<open>
  The websocket protocol machine after the handshake: \<open>src/src/adapters/ws/protocol/mod.rs\<close>, and the
  conversion of blocking results of \<open>ws/util.rs\<close>. An operation takes the context and the stream and
  returns both with its result. \<open>Frame::into_data\<close>, which the source calls and does not define, is the
  payload of the frame; \<open>set_additional\<close>, which it calls with an optional frame in one place, leaves
  the pending frame alone there when there is none.
\<close>

section \<open>Configuration and state\<close>

datatype Role = Server | Client

record WebSocketConfig =
  max_send_queue :: "nat option"
  write_buffer_size :: nat
  max_write_buffer_size :: nat
  max_message_size :: "nat option"
  max_frame_size :: "nat option"
  accept_unmasked_frames :: bool

definition WebSocketConfig_default :: WebSocketConfig where
  "WebSocketConfig_default = \<lparr>max_send_queue = None, write_buffer_size = 128 * 1024, max_write_buffer_size = usize_MAX,
     max_message_size = Some (64 * 2 ^ 20), max_frame_size = Some (16 * 2 ^ 20), accept_unmasked_frames = False\<rparr>"

definition assert_valid :: "WebSocketConfig \<Rightarrow> unit exec" where
  "assert_valid config = assert_that (write_buffer_size config < max_write_buffer_size config)"

datatype WebSocketState = Active | ClosedByUs | ClosedByPeer | CloseAcknowledged | Terminated

definition is_active :: "WebSocketState \<Rightarrow> bool" where
  "is_active st \<longleftrightarrow> st = Active"

definition can_read :: "WebSocketState \<Rightarrow> bool" where
  "can_read st \<longleftrightarrow> st = Active \<or> st = ClosedByUs"

definition check_not_terminated :: "WebSocketState \<Rightarrow> Error + unit" where
  "check_not_terminated st = (if st = Terminated then Err AlreadyClosed else Ok ())"

definition check_connection_reset :: "WebSocketState \<Rightarrow> Error + 'a \<Rightarrow> Error + 'a" where
  "check_connection_reset st ret =
     (case ret of
        Inl (Io e) \<Rightarrow> Err (if \<not> can_read st \<and> e = ConnectionReset then ConnectionClosed else Io e)
      | x \<Rightarrow> x)"

text \<open>\<open>NonBlockingResult::no_block\<close>: a blocked operation is \<open>Ok None\<close>.\<close>

definition into_non_blocking :: "Error \<Rightarrow> Error option" where
  "into_non_blocking e = (case e of Io k \<Rightarrow> if k = WouldBlock then None else Some (Io k) | x \<Rightarrow> Some x)"

definition no_block :: "Error + 'a \<Rightarrow> Error + 'a option" where
  "no_block ret =
     (case ret of
        Inr x \<Rightarrow> Ok (Some x)
      | Inl e \<Rightarrow> (case into_non_blocking e of Some e \<Rightarrow> Err e | None \<Rightarrow> Ok None))"

record WebSocketContext =
  ctx_role :: Role
  ctx_frame :: FrameCodec
  ctx_state :: WebSocketState
  ctx_incomplete :: "IncompleteMessage option"
  additional_send :: "Frame option"
  ctx_config :: WebSocketConfig

definition context_new :: "Role \<Rightarrow> FrameCodec \<Rightarrow> WebSocketConfig \<Rightarrow> WebSocketContext exec" where
  "context_new role frame config =
     xbind (assert_valid config) (\<lambda>_.
     let frame = set_max_out_buffer_len (max_write_buffer_size config) frame;
         frame = set_out_buffer_write_len (write_buffer_size config) frame in
     Done \<lparr>ctx_role = role, ctx_frame = frame, ctx_state = Active, ctx_incomplete = None, additional_send = None,
       ctx_config = config\<rparr>)"

definition WebSocketContext_new :: "Role \<Rightarrow> WebSocketConfig option \<Rightarrow> WebSocketContext exec" where
  "WebSocketContext_new role config =
     context_new role FrameCodec_new (case config of None \<Rightarrow> WebSocketConfig_default | Some c \<Rightarrow> c)"

definition WebSocketContext_from_partially_read ::
  "bytes \<Rightarrow> Role \<Rightarrow> WebSocketConfig option \<Rightarrow> WebSocketContext exec" where
  "WebSocketContext_from_partially_read part role config =
     context_new role (FrameCodec_from_partially_read part) (case config of None \<Rightarrow> WebSocketConfig_default | Some c \<Rightarrow> c)"

definition set_config :: "(WebSocketConfig \<Rightarrow> WebSocketConfig) \<Rightarrow> WebSocketContext \<Rightarrow> WebSocketContext exec" where
  "set_config set_func c =
     (let config = set_func (ctx_config c) in
      xbind (assert_valid config) (\<lambda>_.
      Done (c\<lparr>ctx_config := config,
        ctx_frame := set_out_buffer_write_len (write_buffer_size config)
          (set_max_out_buffer_len (max_write_buffer_size config) (ctx_frame c))\<rparr>)))"

section \<open>Results\<close>

type_synonym 'a step = "(WebSocketContext \<times> wstream \<times> (Error + 'a)) exec"

definition wbind :: "'a step \<Rightarrow> (WebSocketContext \<Rightarrow> wstream \<Rightarrow> 'a \<Rightarrow> 'b step) \<Rightarrow> 'b step" where
  "wbind r f = xbind r (\<lambda>(c, s, ret). case ret of Inl e \<Rightarrow> Done (c, s, Err e) | Inr x \<Rightarrow> f c s x)"

section \<open>Writing\<close>

definition set_additional :: "Frame \<Rightarrow> WebSocketContext \<Rightarrow> WebSocketContext" where
  "set_additional add c =
     (if (case additional_send c of None \<Rightarrow> True | Some f \<Rightarrow> opcode (header f) = OpControl Ctl_Pong)
      then c\<lparr>additional_send := Some add\<rparr> else c)"

definition ctx_write_out_buffer :: "WebSocketContext \<Rightarrow> wstream \<Rightarrow> unit step" where
  "ctx_write_out_buffer c s =
     xbind (write_out_buffer (ctx_frame c) s) (\<lambda>(f, s, ret). Done (c\<lparr>ctx_frame := f\<rparr>, s, ret))"

definition buffer_frame :: "target \<Rightarrow> WebSocketContext \<Rightarrow> wstream \<Rightarrow> Frame \<Rightarrow> unit step" where
  "buffer_frame t c s frame =
     (let (s, frame) = (case ctx_role c of
        Server \<Rightarrow> (s, frame)
      | Client \<Rightarrow> (case generate_mask s of (s, m) \<Rightarrow> (s, set_random_mask m frame))) in
      xbind (codec_buffer_frame t (ctx_frame c) s frame) (\<lambda>(f, s, ret).
      Done (c\<lparr>ctx_frame := f\<rparr>, s, check_connection_reset (ctx_state c) ret)))"

text \<open>\<open>_write\<close>: the frame given, then the pending one; a pending frame that does not fit is put back.\<close>

definition write_additional :: "target \<Rightarrow> WebSocketContext \<Rightarrow> wstream \<Rightarrow> bool step" where
  "write_additional t c s =
     (case additional_send c of
        None \<Rightarrow> Done (c, s, Ok False)
      | Some msg \<Rightarrow>
          xbind (buffer_frame t (c\<lparr>additional_send := None\<rparr>) s msg) (\<lambda>(c, s, ret).
          case ret of
            Inl (WriteBufferFull (Msg_Frame msg)) \<Rightarrow> Done (set_additional msg c, s, Ok False)
          | Inl e \<Rightarrow> Done (c, s, Err e)
          | Inr _ \<Rightarrow> Done (c, s, Ok True)))"

definition raw_write :: "target \<Rightarrow> WebSocketContext \<Rightarrow> wstream \<Rightarrow> Frame option \<Rightarrow> bool step" where
  "raw_write t c s data =
     wbind (case data of None \<Rightarrow> Done (c, s, Ok ()) | Some f \<Rightarrow> buffer_frame t c s f) (\<lambda>c s _.
     wbind (write_additional t c s) (\<lambda>c s should_flush.
     if ctx_role c = Server \<and> \<not> can_read (ctx_state c)
     then wbind (ctx_write_out_buffer c s) (\<lambda>c s _. Done (c\<lparr>ctx_state := Terminated\<rparr>, s, Err ConnectionClosed))
     else Done (c, s, Ok should_flush)))"

definition ctx_flush :: "target \<Rightarrow> WebSocketContext \<Rightarrow> wstream \<Rightarrow> unit step" where
  "ctx_flush t c s =
     wbind (raw_write t c s None) (\<lambda>c s _.
     wbind (ctx_write_out_buffer c s) (\<lambda>c s _.
     case stream_flush s of (s, ret) \<Rightarrow> Done (c, s, case ret of Inl e \<Rightarrow> Err (Io e) | Inr _ \<Rightarrow> Ok ())))"

definition ctx_close :: "target \<Rightarrow> WebSocketContext \<Rightarrow> wstream \<Rightarrow> CloseFrame option \<Rightarrow> unit step" where
  "ctx_close t c s cf =
     wbind (if ctx_state c = Active
            then raw_write t (c\<lparr>ctx_state := ClosedByUs\<rparr>) s (Frame_close t cf)
            else Done (c, s, Ok False)) (\<lambda>c s _.
     ctx_flush t c s)"

definition write_frame :: "target \<Rightarrow> WebSocketContext \<Rightarrow> wstream \<Rightarrow> Frame \<Rightarrow> unit step" where
  "write_frame t c s frame =
     wbind (raw_write t c s (Some frame)) (\<lambda>c s should_flush.
     if should_flush then ctx_flush t c s else Done (c, s, Ok ()))"

definition ctx_write :: "target \<Rightarrow> WebSocketContext \<Rightarrow> wstream \<Rightarrow> Message \<Rightarrow> unit step" where
  "ctx_write t c s message =
     (case check_not_terminated (ctx_state c) of
        Inl e \<Rightarrow> Done (c, s, Err e)
      | Inr _ \<Rightarrow>
          if \<not> is_active (ctx_state c) then Done (c, s, Err (Protocol SendAfterClosing))
          else
            (case message of
               Msg_Text data \<Rightarrow> write_frame t c s (Frame_message data (OpData Data_Text) True)
             | Msg_Binary buffer \<Rightarrow> write_frame t c s (Frame_message buffer (OpData Data_Binary) True)
             | Msg_Ping buffer \<Rightarrow> write_frame t c s (Frame_ping buffer)
             | Msg_Pong buffer \<Rightarrow>
                 wbind (raw_write t (set_additional (Frame_pong buffer) c) s None) (\<lambda>c s _. Done (c, s, Ok ()))
             | Msg_Close cf \<Rightarrow> ctx_close t c s cf
             | Msg_Frame f \<Rightarrow> write_frame t c s f))"

definition ctx_send :: "target \<Rightarrow> WebSocketContext \<Rightarrow> wstream \<Rightarrow> Message \<Rightarrow> unit step" where
  "ctx_send t c s message = wbind (ctx_write t c s message) (\<lambda>c s _. ctx_flush t c s)"

section \<open>Reading\<close>

definition protocol_violation :: bytes where
  "protocol_violation = map (\<lambda>ch. of_char ch) ''Protocol violation''"

definition do_close :: "target \<Rightarrow> WebSocketContext \<Rightarrow> CloseFrame option \<Rightarrow> (WebSocketContext \<times> CloseFrame option option) exec" where
  "do_close t c close =
     (case ctx_state c of
        Active \<Rightarrow>
          let close = map_option (\<lambda>frame. if \<not> is_allowed (code frame)
                 then \<lparr>code = Code_Protocol, reason = protocol_violation\<rparr> else frame) close;
              c = c\<lparr>ctx_state := ClosedByPeer\<rparr>;
              c = (case Frame_close t close of None \<Rightarrow> c | Some reply \<Rightarrow> set_additional reply c)
          in Done (c, Some close)
      | ClosedByPeer \<Rightarrow> Done (c, None)
      | CloseAcknowledged \<Rightarrow> Done (c, None)
      | ClosedByUs \<Rightarrow> Done (c\<lparr>ctx_state := CloseAcknowledged\<rparr>, Some close)
      | Terminated \<Rightarrow> Panic)"

text \<open>The role's rule for masks: a server unmasks, a client takes no masked frame.\<close>

definition unmask :: "target \<Rightarrow> WebSocketContext \<Rightarrow> Frame \<Rightarrow> Error + Frame" where
  "unmask t c frame =
     (case ctx_role c of
        Server \<Rightarrow>
          if is_masked frame then Ok (Frame_apply_mask t frame)
          else if \<not> accept_unmasked_frames (ctx_config c) then Err (Protocol UnmaskedFrameFromClient)
          else Ok frame
      | Client \<Rightarrow> if is_masked frame then Err (Protocol MaskedFrameFromServer) else Ok frame)"

definition control_frame ::
  "target \<Rightarrow> WebSocketContext \<Rightarrow> Control \<Rightarrow> Frame \<Rightarrow> (WebSocketContext \<times> (Error + Message option)) exec" where
  "control_frame t c ctl frame =
     (if \<not> is_final (header frame) then Done (c, Err (Protocol FragmentedControlFrame))
      else if 125 < length (payload frame) then Done (c, Err (Protocol ControlFrameTooBig))
      else
        (case ctl of
           Ctl_Close \<Rightarrow>
             (case into_close t frame of
                Inl e \<Rightarrow> Done (c, Err e)
              | Inr close \<Rightarrow> xbind (do_close t c close) (\<lambda>(c, ret). Done (c, Ok (map_option Msg_Close ret))))
         | Ctl_Reserved i \<Rightarrow> Done (c, Err (Protocol (UnknownControlFrameType i)))
         | Ctl_Ping \<Rightarrow>
             let data = payload frame;
                 c = (if is_active (ctx_state c) then set_additional (Frame_pong data) c else c)
             in Done (c, Ok (Some (Msg_Ping data)))
         | Ctl_Pong \<Rightarrow> Done (c, Ok (Some (Msg_Pong (payload frame))))))"

definition data_frame ::
  "utf8_crate \<Rightarrow> WebSocketContext \<Rightarrow> Data \<Rightarrow> Frame \<Rightarrow> WebSocketContext \<times> (Error + Message option)" where
  "data_frame u c data frame =
     (let fin = is_final (header frame) in
      case data of
        Data_Continue \<Rightarrow>
          (case ctx_incomplete c of
             None \<Rightarrow> (c, Err (Protocol UnexpectedContinueFrame))
           | Some msg \<Rightarrow>
               (case IncompleteMessage_extend u msg (payload frame) (max_message_size (ctx_config c)) of
                  (msg, Inl e) \<Rightarrow> (c\<lparr>ctx_incomplete := Some msg\<rparr>, Err e)
                | (msg, Inr _) \<Rightarrow>
                    if fin then (c\<lparr>ctx_incomplete := None\<rparr>, rbind (complete msg) (\<lambda>m. Ok (Some m)))
                    else (c\<lparr>ctx_incomplete := Some msg\<rparr>, Ok None)))
      | _ \<Rightarrow>
          if ctx_incomplete c \<noteq> None then (c, Err (Protocol (ExpectedFragment data)))
          else
            (case data of
               Data_Reserved i \<Rightarrow> (c, Err (Protocol (UnknownDataFrameType i)))
             | _ \<Rightarrow>
                 let message_type = (if data = Data_Text then Type_Text else Type_Binary) in
                 (case IncompleteMessage_extend u (IncompleteMessage_new message_type) (payload frame)
                         (max_message_size (ctx_config c)) of
                    (msg, Inl e) \<Rightarrow> (c, Err e)
                  | (msg, Inr _) \<Rightarrow>
                      if fin then (c, rbind (complete msg) (\<lambda>m. Ok (Some m)))
                      else (c\<lparr>ctx_incomplete := Some msg\<rparr>, Ok None))))"

text \<open>What is done with a frame, and with the end of the stream.\<close>

definition received_frame ::
  "target \<Rightarrow> utf8_crate \<Rightarrow> WebSocketContext \<Rightarrow> Frame \<Rightarrow> (WebSocketContext \<times> (Error + Message option)) exec" where
  "received_frame t u c frame =
     (if \<not> can_read (ctx_state c) then Done (c, Err (Protocol ReceivedAfterClosing))
      else if rsv1 (header frame) \<or> rsv2 (header frame) \<or> rsv3 (header frame)
      then Done (c, Err (Protocol NonZeroReservedBits))
      else
        (case unmask t c frame of
           Inl e \<Rightarrow> Done (c, Err e)
         | Inr frame \<Rightarrow>
             (case opcode (header frame) of
                OpControl ctl \<Rightarrow> control_frame t c ctl frame
              | OpData data \<Rightarrow> Done (data_frame u c data frame))))"

definition closed_by_peer :: "WebSocketContext \<Rightarrow> WebSocketContext \<times> (Error + Message option)" where
  "closed_by_peer c =
     (c\<lparr>ctx_state := Terminated\<rparr>,
      Err (if ctx_state c = ClosedByPeer \<or> ctx_state c = CloseAcknowledged then ConnectionClosed
           else Protocol ResetWithoutClosingHandshake))"

definition read_message_frame ::
  "target \<Rightarrow> utf8_crate \<Rightarrow> WebSocketContext \<Rightarrow> wstream \<Rightarrow> Message option step option" where
  "read_message_frame t u c s =
     obind (read_frame (ctx_frame c) s (max_frame_size (ctx_config c))) (\<lambda>(f, s, ret).
     let c = c\<lparr>ctx_frame := f\<rparr> in
     case check_connection_reset (ctx_state c) ret of
       Inl e \<Rightarrow> Some (Done (c, s, Err e))
     | Inr None \<Rightarrow> (case closed_by_peer c of (c, ret) \<Rightarrow> Some (Done (c, s, ret)))
     | Inr (Some frame) \<Rightarrow> Some (xbind (received_frame t u c frame) (\<lambda>(c, ret). Done (c, s, ret))))"

text \<open>The head of the loop of \<open>read\<close>: pending replies go out, blocking ignored.\<close>

definition before_read :: "target \<Rightarrow> WebSocketContext \<Rightarrow> wstream \<Rightarrow> unit step" where
  "before_read t c s =
     (if additional_send c \<noteq> None then
        xbind (ctx_flush t c s) (\<lambda>(c, s, ret).
        Done (c, s, case no_block ret of Inl e \<Rightarrow> Err e | Inr _ \<Rightarrow> Ok ()))
      else if ctx_role c = Server \<and> \<not> can_read (ctx_state c)
      then Done (c\<lparr>ctx_state := Terminated\<rparr>, s, Err ConnectionClosed)
      else Done (c, s, Ok ()))"

partial_function (option) read_loop ::
  "target \<Rightarrow> utf8_crate \<Rightarrow> WebSocketContext \<Rightarrow> wstream \<Rightarrow> Message step option" where
  "read_loop t u c s =
     (case before_read t c s of
        Panic \<Rightarrow> Some Panic
      | Done (c, s, Inl e) \<Rightarrow> Some (Done (c, s, Err e))
      | Done (c, s, Inr _) \<Rightarrow>
          (case read_message_frame t u c s of
             None \<Rightarrow> None
           | Some Panic \<Rightarrow> Some Panic
           | Some (Done (c, s, Inl e)) \<Rightarrow> Some (Done (c, s, Err e))
           | Some (Done (c, s, Inr (Some message))) \<Rightarrow> Some (Done (c, s, Ok message))
           | Some (Done (c, s, Inr None)) \<Rightarrow> read_loop t u c s))"

definition ctx_read :: "target \<Rightarrow> utf8_crate \<Rightarrow> WebSocketContext \<Rightarrow> wstream \<Rightarrow> Message step option" where
  "ctx_read t u c s =
     (case check_not_terminated (ctx_state c) of
        Inl e \<Rightarrow> Some (Done (c, s, Err e))
      | Inr _ \<Rightarrow> read_loop t u c s)"

section \<open>Sockets\<close>

text \<open>\<open>WebSocket\<close>: a context with its stream; its methods pass the stream to the context.\<close>

record WebSocket =
  ws_socket :: wstream
  ws_context :: WebSocketContext

definition from_raw_socket :: "wstream \<Rightarrow> Role \<Rightarrow> WebSocketConfig option \<Rightarrow> WebSocket exec" where
  "from_raw_socket s role config =
     xbind (WebSocketContext_new role config) (\<lambda>c. Done \<lparr>ws_socket = s, ws_context = c\<rparr>)"

definition WebSocket_from_partially_read :: "wstream \<Rightarrow> bytes \<Rightarrow> Role \<Rightarrow> WebSocketConfig option \<Rightarrow> WebSocket exec" where
  "WebSocket_from_partially_read s part role config =
     xbind (WebSocketContext_from_partially_read part role config) (\<lambda>c. Done \<lparr>ws_socket = s, ws_context = c\<rparr>)"

definition WebSocket_set_config :: "(WebSocketConfig \<Rightarrow> WebSocketConfig) \<Rightarrow> WebSocket \<Rightarrow> WebSocket exec" where
  "WebSocket_set_config set_func w = xbind (set_config set_func (ws_context w)) (\<lambda>c. Done (w\<lparr>ws_context := c\<rparr>))"

definition WebSocket_can_read :: "WebSocket \<Rightarrow> bool" where
  "WebSocket_can_read w = can_read (ctx_state (ws_context w))"

definition WebSocket_can_write :: "WebSocket \<Rightarrow> bool" where
  "WebSocket_can_write w = is_active (ctx_state (ws_context w))"

definition put_back :: "'a step \<Rightarrow> (WebSocket \<times> (Error + 'a)) exec" where
  "put_back r = xbind r (\<lambda>(c, s, ret). Done (\<lparr>ws_socket = s, ws_context = c\<rparr>, ret))"

definition WebSocket_read :: "target \<Rightarrow> utf8_crate \<Rightarrow> WebSocket \<Rightarrow> (WebSocket \<times> (Error + Message)) exec option" where
  "WebSocket_read t u w = map_option put_back (ctx_read t u (ws_context w) (ws_socket w))"

definition WebSocket_write :: "target \<Rightarrow> WebSocket \<Rightarrow> Message \<Rightarrow> (WebSocket \<times> (Error + unit)) exec" where
  "WebSocket_write t w message = put_back (ctx_write t (ws_context w) (ws_socket w) message)"

definition WebSocket_send :: "target \<Rightarrow> WebSocket \<Rightarrow> Message \<Rightarrow> (WebSocket \<times> (Error + unit)) exec" where
  "WebSocket_send t w message = put_back (ctx_send t (ws_context w) (ws_socket w) message)"

definition WebSocket_flush :: "target \<Rightarrow> WebSocket \<Rightarrow> (WebSocket \<times> (Error + unit)) exec" where
  "WebSocket_flush t w = put_back (ctx_flush t (ws_context w) (ws_socket w))"

definition WebSocket_close :: "target \<Rightarrow> WebSocket \<Rightarrow> CloseFrame option \<Rightarrow> (WebSocket \<times> (Error + unit)) exec" where
  "WebSocket_close t w cf = put_back (ctx_close t (ws_context w) (ws_socket w) cf)"

end
