(* ===== verification/Ws_Protocol.thy ===== *)
theory Ws_Protocol
  imports Ws_Context
begin

text \<open>
  What every run of the websocket machine keeps. The calls of the context are the steps of a
  relation; the locale \<open>context_relation\<close> lifts a fact about its primitive changes to every call and
  every run, and is interpreted for the order of the states, for the bytes sent and for the bounds.
\<close>

section \<open>Calls\<close>

text \<open>One call of the context on its stream that returns; \<open>set_config\<close> is not among them.\<close>

inductive ctx_step :: "target \<Rightarrow> utf8_crate \<Rightarrow> WebSocketContext \<times> wstream \<Rightarrow> WebSocketContext \<times> wstream \<Rightarrow> bool"
  for t u where
  Read: "ctx_read t u c s = Some (Done (c', s', ret)) \<Longrightarrow> ctx_step t u (c, s) (c', s')"
| Write: "ctx_write t c s m = Done (c', s', ret) \<Longrightarrow> ctx_step t u (c, s) (c', s')"
| Flush: "ctx_flush t c s = Done (c', s', ret) \<Longrightarrow> ctx_step t u (c, s) (c', s')"
| Close: "ctx_close t c s cf = Done (c', s', ret) \<Longrightarrow> ctx_step t u (c, s) (c', s')"

definition ctx_run :: "target \<Rightarrow> utf8_crate \<Rightarrow> WebSocketContext \<times> wstream \<Rightarrow> WebSocketContext \<times> wstream \<Rightarrow> bool" where
  "ctx_run t u = (ctx_step t u)\<^sup>*\<^sup>*"

lemma wbind_Done:
  assumes "wbind r f = Done (c', s', ret')"
  obtains (error) e where "r = Done (c', s', Err e)" "ret' = Err e"
    | (ok) c s x where "r = Done (c, s, Ok x)" "f c s x = Done (c', s', ret')"
proof (cases r)
  case (Done y)
  then obtain c s ret where "r = Done (c, s, ret)" by (cases y) auto
  with assms show thesis by (cases ret) (auto simp: wbind_def intro: error ok)
qed (use assms in \<open>simp add: wbind_def\<close>)

section \<open>The primitive changes\<close>

lemma buffer_frame_shape: "buffer_frame t c s f = Done (c', s', ret) \<Longrightarrow> \<exists>k. c' = c\<lparr>ctx_frame := k\<rparr>"
  by (auto simp: buffer_frame_def xbind_eq_Done Let_def split: Role.splits prod.splits)

lemma ctx_write_out_buffer_shape: "ctx_write_out_buffer c s = Done (c', s', ret) \<Longrightarrow> \<exists>k. c' = c\<lparr>ctx_frame := k\<rparr>"
  by (auto simp: ctx_write_out_buffer_def xbind_eq_Done)

lemma data_frame_shape: "data_frame u c d f = (c', ret) \<Longrightarrow> \<exists>i. c' = c\<lparr>ctx_incomplete := i\<rparr>"
  by (rule exI [of _ "ctx_incomplete c'"])
    (auto simp: data_frame_def Let_def split: Data.splits option.splits prod.splits sum.splits if_splits)

text \<open>A read of the codec leaves the writing side alone.\<close>

definition reads_only :: "FrameCodec \<Rightarrow> wstream \<Rightarrow> FrameCodec \<Rightarrow> wstream \<Rightarrow> bool" where
  "reads_only c s c' s' \<longleftrightarrow> (\<exists>j. s' = after_reads j s) \<and> out_buffer c' = out_buffer c \<and>
     max_out_buffer_len c' = max_out_buffer_len c \<and> out_buffer_write_len c' = out_buffer_write_len c"

lemma reads_only_trans: "reads_only c s c1 s1 \<Longrightarrow> reads_only c1 s1 c2 s2 \<Longrightarrow> reads_only c s c2 s2"
  unfolding reads_only_def by fastforce

lemma reads_only_same: "reads_only c s (c\<lparr>in_buffer := b, codec_header := h\<rparr>) s" "reads_only c s (c\<lparr>in_buffer := b\<rparr>) s"
  "reads_only c s (c\<lparr>codec_header := h\<rparr>) s" "reads_only c s c s"
  unfolding reads_only_def by (auto intro: exI [of _ 0])

lemma read_header_only:
  assumes "read_header c = Done (c1, ret)"
  shows "reads_only c s c1 s"
proof (cases "codec_header c")
  case None
  with assms obtain rest r where "FrameHeader_parse (in_buffer c) = Done (rest, r)"
    by (auto simp: read_header_def xbind_eq_Done)
  with assms None show ?thesis by (cases r) (auto simp: read_header_def reads_only_same)
qed (use assms in \<open>simp add: read_header_def reads_only_same\<close>)

lemma take_payload_only: "take_payload m c = (c1, ret) \<Longrightarrow> reads_only c s c1 s"
  by (auto simp: take_payload_def reads_only_same split: option.splits if_splits)

lemma stream_read_only: "stream_read s = (s1, ret) \<Longrightarrow> reads_only c s c s1"
  by (auto simp: stream_read_def reads_only_def after_reads_def intro!: exI [of _ 1])

lemma read_frame_loop_only:
  assumes "read_frame_loop m c s = Some (Done (c', s', ret))"
  shows "reads_only c s c' s'"
proof -
  have "\<forall>c' s' ret. y = Done (c', s', ret) \<longrightarrow> reads_only c s c' s'" if "read_frame_loop m c s = Some y" for y
    using that
  proof (induction rule: read_frame_loop.raw_induct [rotated, consumes 1, case_names turn])
    case (turn rec m c s y)
    show ?case
    proof (intro allI impI)
      fix c' s' ret
      assume y: "y = Done (c', s', ret)"
      from turn(2) y obtain c1 r1 where h: "read_header c = Done (c1, r1)" by (auto split: exec.splits)
      obtain c2 p where p: "take_payload m c1 = (c2, p)" by (cases "take_payload m c1")
      obtain s1 r where r: "stream_read s = (s1, r)" by (cases "stream_read s")
      note steps = reads_only_trans [OF read_header_only [OF h, of s] take_payload_only [OF p, of s]]
      note more = reads_only_trans [OF steps stream_read_only [OF r]]
      have again: "reads_only c s c' s'" if "rec m (c2\<lparr>in_buffer := b\<rparr>) s1 = Some y" for b
        using turn(1) [OF that] y more reads_only_same(2) [of c2 s1 b] by (blast intro: reads_only_trans)
      show "reads_only c s c' s'"
      proof (cases r1)
        case (Inl e)
        with turn(2) y h show ?thesis by (auto intro: read_header_only)
      next
        case (Inr x)
        note now = turn(2) [unfolded h y, simplified, unfolded Inr p r, simplified]
        show ?thesis
        proof (cases p)
          case None
          with now more again y show ?thesis by (cases r) (auto split: if_splits)
        next
          case (Some q)
          with now steps show ?thesis
            by (cases q) (auto intro: reads_only_trans reads_only_same split: option.splits)
        qed
      qed
    qed
  qed
  with assms show ?thesis by blast
qed

lemma read_frame_only: "read_frame c s m = Some (Done (c', s', ret)) \<Longrightarrow> reads_only c s c' s'"
  unfolding read_frame_def by (rule read_frame_loop_only)

text \<open>The outcome \<open>y\<close> of a turn of the loop of \<open>read\<close> that leaves it.\<close>

inductive last_turn :: "target \<Rightarrow> utf8_crate \<Rightarrow> WebSocketContext \<Rightarrow> wstream \<Rightarrow> Message step \<Rightarrow> bool" for t u c s where
  "before_read t c s = Panic \<Longrightarrow> last_turn t u c s Panic"
| "before_read t c s = Done (c1, s1, Err e) \<Longrightarrow> last_turn t u c s (Done (c1, s1, Err e))"
| "before_read t c s = Done (c1, s1, Ok x) \<Longrightarrow> read_message_frame t u c1 s1 = Some Panic \<Longrightarrow> last_turn t u c s Panic"
| "before_read t c s = Done (c1, s1, Ok x) \<Longrightarrow> read_message_frame t u c1 s1 = Some (Done (c2, s2, Err e)) \<Longrightarrow>
     last_turn t u c s (Done (c2, s2, Err e))"
| "before_read t c s = Done (c1, s1, Ok x) \<Longrightarrow> read_message_frame t u c1 s1 = Some (Done (c2, s2, Ok (Some m))) \<Longrightarrow>
     last_turn t u c s (Done (c2, s2, Ok m))"

inductive_cases last_turn_PanicE: "last_turn t u c s Panic"
inductive_cases last_turn_OkE: "last_turn t u c s (Done (c', s', Ok m))"

lemma turn_cases:
  obtains (again) c1 s1 x c2 s2 where "before_read t c s = Done (c1, s1, Ok x)"
      "read_message_frame t u c1 s1 = Some (Done (c2, s2, Ok None))"
    | (stuck) c1 s1 x where "before_read t c s = Done (c1, s1, Ok x)" "read_message_frame t u c1 s1 = None"
    | (ends) y where "last_turn t u c s y" "read_loop t u c s = Some y"
proof (cases "before_read t c s")
  case Panic
  then show thesis by (intro ends [of Panic]) (auto intro: last_turn.intros simp: read_loop.simps)
next
  case (Done b)
  then obtain c1 s1 ret where b: "before_read t c s = Done (c1, s1, ret)" by (cases b) auto
  show thesis
  proof (cases ret)
    case (Inl e)
    with b show thesis by (intro ends [of "Done (c1, s1, Err e)"]) (auto intro: last_turn.intros simp: read_loop.simps)
  next
    case (Inr x)
    note b = b [unfolded Inr]
    show thesis
    proof (cases "read_message_frame t u c1 s1")
      case None
      with b show thesis by (rule stuck)
    next
      case (Some q)
      show thesis
      proof (cases q)
        case Panic
        with b Some show thesis by (intro ends [of Panic]) (auto intro: last_turn.intros simp: read_loop.simps)
      next
        case (Done z)
        then obtain c2 s2 r2 where m: "read_message_frame t u c1 s1 = Some (Done (c2, s2, r2))" using Some by (cases z) auto
        show thesis
        proof (cases r2)
          case (Inl e)
          with b m show thesis
            by (intro ends [of "Done (c2, s2, Err e)"]) (auto intro: last_turn.intros simp: read_loop.simps)
        next
          case (Inr got)
          with b m show thesis
            using again [of c1 s1 x c2 s2] ends [of "Done (c2, s2, Ok (the got))"]
            by (cases got) (auto intro: last_turn.intros simp: read_loop.simps)
        qed
      qed
    qed
  qed
qed

section \<open>Relations kept by every call\<close>

locale context_relation =
  fixes t :: target and u :: utf8_crate
    and R :: "WebSocketContext \<times> wstream \<Rightarrow> WebSocketContext \<times> wstream \<Rightarrow> bool"
  assumes keep: "R x x"
    and chain: "R x y \<Longrightarrow> R y z \<Longrightarrow> R x z"
    and additional: "R (c, s) (c\<lparr>additional_send := a\<rparr>, s)"
    and buffered: "buffer_frame t c s f = Done (c', s', ret) \<Longrightarrow> R (c, s) (c', s')"
    and written: "ctx_write_out_buffer c s = Done (c', s', ret) \<Longrightarrow> R (c, s) (c', s')"
    and flushed: "stream_flush s = (s', res) \<Longrightarrow> R (c, s) (c, s')"
    and received: "read_frame (ctx_frame c) s m = Some (Done (k, s', got)) \<Longrightarrow> R (c, s) (c\<lparr>ctx_frame := k\<rparr>, s')"
    and collected: "data_frame u c d fr = (c', out) \<Longrightarrow> R (c, s) (c', s)"
    and closed_by_us: "ctx_state c = Active \<Longrightarrow> R (c, s) (c\<lparr>ctx_state := ClosedByUs\<rparr>, s)"
    and closed_by_them: "ctx_state c = Active \<Longrightarrow> R (c, s) (c\<lparr>ctx_state := ClosedByPeer\<rparr>, s)"
    and acknowledged: "ctx_state c = ClosedByUs \<Longrightarrow> R (c, s) (c\<lparr>ctx_state := CloseAcknowledged\<rparr>, s)"
    and terminated: "R (c, s) (c\<lparr>ctx_state := Terminated\<rparr>, s)"
begin

lemma set_additional_R: "R (c, s) (set_additional f c, s)"
  by (simp add: set_additional_def additional keep)

lemma write_additional_R:
  assumes "write_additional t c s = Done (c', s', ret)"
  shows "R (c, s) (c', s')"
proof (cases "additional_send c")
  case None
  with assms show ?thesis by (simp add: write_additional_def keep)
next
  case (Some f)
  let ?c = "c\<lparr>additional_send := None\<rparr>"
  from assms Some obtain c1 s1 r1 where b: "buffer_frame t ?c s f = Done (c1, s1, r1)"
    by (auto simp: write_additional_def xbind_eq_Done)
  with assms Some have "R (c1, s1) (c', s')"
    by (auto simp: write_additional_def keep set_additional_R split: sum.splits Error.splits Message.splits)
  with buffered [OF b] show ?thesis by (blast intro: chain additional)
qed

lemma raw_write_R:
  assumes "raw_write t c s data = Done (c', s', ret)"
  shows "R (c, s) (c', s')"
proof -
  have first: "R (c, s) (c1, s1)"
    if "(case data of None \<Rightarrow> Done (c, s, Ok ()) | Some f \<Rightarrow> buffer_frame t c s f) = Done (c1, s1, r1)" for c1 s1 r1
    using that by (auto simp: keep buffered split: option.splits)
  from assms show ?thesis unfolding raw_write_def
  proof (cases rule: wbind_Done)
    case (error e)
    show ?thesis by (rule first [OF error(1)])
  next
    case (ok c1 s1 x)
    from ok(2) have "R (c1, s1) (c', s')"
    proof (cases rule: wbind_Done)
      case (error e)
      show ?thesis by (rule write_additional_R [OF error(1)])
    next
      case (ok c2 s2 b)
      have "R (c2, s2) (c', s')"
      proof (cases "ctx_role c2 = Server \<and> \<not> can_read (ctx_state c2)")
        case True
        with ok(2) have "wbind (ctx_write_out_buffer c2 s2) (\<lambda>c s _. Done (c\<lparr>ctx_state := Terminated\<rparr>, s, Err ConnectionClosed)) =
            Done (c', s', ret)" by simp
        then show ?thesis
          by (cases rule: wbind_Done) (auto intro: written chain [OF written terminated])
      qed (use ok(2) in \<open>auto simp: keep\<close>)
      with write_additional_R [OF ok(1)] show ?thesis by (rule chain)
    qed
    with first [OF ok(1)] show ?thesis by (rule chain)
  qed
qed

lemma ctx_flush_R:
  assumes "ctx_flush t c s = Done (c', s', ret)"
  shows "R (c, s) (c', s')"
  using assms unfolding ctx_flush_def
proof (cases rule: wbind_Done)
  case (error e)
  show ?thesis by (rule raw_write_R [OF error(1)])
next
  case (ok c1 s1 x)
  from ok(2) have "R (c1, s1) (c', s')"
    by (cases rule: wbind_Done) (auto simp: written split: prod.splits intro: chain [OF written flushed])
  with raw_write_R [OF ok(1)] show ?thesis by (rule chain)
qed

lemma ctx_close_R:
  assumes "ctx_close t c s cf = Done (c', s', ret)"
  shows "R (c, s) (c', s')"
proof -
  have first: "R (c, s) (c1, s1)"
    if "(if ctx_state c = Active then raw_write t (c\<lparr>ctx_state := ClosedByUs\<rparr>) s (Frame_close t cf)
         else Done (c, s, Ok False)) = Done (c1, s1, r1)" for c1 s1 r1
    using that by (auto simp: keep intro: chain [OF closed_by_us raw_write_R] split: if_splits)
  from assms show ?thesis unfolding ctx_close_def
    by (cases rule: wbind_Done) (auto intro: first chain [OF first ctx_flush_R])
qed

lemma write_frame_R: "write_frame t c s f = Done (c', s', ret) \<Longrightarrow> R (c, s) (c', s')"
  unfolding write_frame_def
  by (erule wbind_Done) (auto intro: raw_write_R chain [OF raw_write_R ctx_flush_R] split: if_splits)

lemma ctx_write_R: "ctx_write t c s m = Done (c', s', ret) \<Longrightarrow> R (c, s) (c', s')"
  by (auto simp: ctx_write_def keep split: sum.splits if_splits Message.splits elim!: wbind_Done
      intro: write_frame_R ctx_close_R chain [OF set_additional_R raw_write_R])

lemma received_frame_R:
  assumes "received_frame t u c fr = Done (c', ret)"
  shows "R (c, s) (c', s)"
proof -
  have close: "R (c, s) (c1, s)" if "do_close t c cf = Done (c1, r)" for cf c1 r
    using that by (auto simp: do_close_def keep acknowledged Let_def split: WebSocketState.splits option.splits
      intro: closed_by_them chain [OF closed_by_them set_additional_R])
  have ctl: "R (c, s) (c', s)" if "control_frame t c ctl fr' = Done (c', ret)" for ctl fr'
    using that by (auto simp: control_frame_def keep Let_def xbind_eq_Done set_additional_R intro: close
      split: if_splits Control.splits sum.splits)
  from assms show ?thesis
    by (auto simp: received_frame_def keep intro: ctl collected split: if_splits sum.splits OpCode.splits)
qed

lemma read_message_frame_R:
  assumes "read_message_frame t u c s = Some (Done (c', s', ret))"
  shows "R (c, s) (c', s')"
proof -
  from assms obtain f s1 got where r: "read_frame (ctx_frame c) s (max_frame_size (ctx_config c)) = Some (Done (f, s1, got))"
    unfolding read_message_frame_def obind_eq_Done by auto
  have "R (c\<lparr>ctx_frame := f\<rparr>, s1) (c', s')"
    using assms r by (auto simp: read_message_frame_def Let_def closed_by_peer_def keep terminated xbind_eq_Done
      intro: received_frame_R split: sum.splits option.splits)
  with received [OF r] show ?thesis by (rule chain)
qed

lemma before_read_R: "before_read t c s = Done (c', s', ret) \<Longrightarrow> R (c, s) (c', s')"
  by (auto simp: before_read_def keep terminated xbind_eq_Done intro: ctx_flush_R split: if_splits)

lemma read_loop_ends:
  assumes "read_loop t u c s = Some y"
  shows "\<exists>c0 s0. R (c, s) (c0, s0) \<and> last_turn t u c0 s0 y"
proof -
  have "\<exists>c0 s0. R (c, s) (c0, s0) \<and> last_turn t u c0 s0 y"
    if "read_loop t' u' c s = Some y" "t' = t" "u' = u" for t' u' c s
    using that
  proof (induction rule: read_loop.raw_induct [rotated, consumes 1, case_names turn])
    case (turn rec t' u' c s y)
    show ?case
    proof (cases rule: turn_cases [of t c s u])
      case (again c1 s1 x c2 s2)
      with turn(2-4) have "rec t u c2 s2 = Some y" by simp
      from turn(1) [OF this refl refl] obtain c0 s0 where "R (c2, s2) (c0, s0)" "last_turn t u c0 s0 y" by blast
      with before_read_R [OF again(1)] read_message_frame_R [OF again(2)] show ?thesis by (blast intro: chain)
    next
      case (stuck c1 s1 x)
      with turn(2-4) show ?thesis by simp
    next
      case (ends z)
      from ends(1) turn(2-4) have "z = y" by cases simp_all
      with ends(1) keep show ?thesis by blast
    qed
  qed
  with assms show ?thesis by blast
qed

lemma last_turn_R: "last_turn t u c s (Done (c', s', ret)) \<Longrightarrow> R (c, s) (c', s')"
  by (erule last_turn.cases) (auto intro: before_read_R chain [OF before_read_R read_message_frame_R])

lemma read_loop_R: "read_loop t u c s = Some (Done (c', s', ret)) \<Longrightarrow> R (c, s) (c', s')"
  using read_loop_ends last_turn_R by (blast intro: chain)

lemma ctx_read_R: "ctx_read t u c s = Some (Done (c', s', ret)) \<Longrightarrow> R (c, s) (c', s')"
  by (auto simp: ctx_read_def keep intro: read_loop_R split: sum.splits)

lemma ctx_step_R: "ctx_step t u x y \<Longrightarrow> R x y"
  by (erule ctx_step.cases) (auto intro: ctx_read_R ctx_write_R ctx_flush_R ctx_close_R)

lemma ctx_run_R: "ctx_run t u x y \<Longrightarrow> R x y"
  unfolding ctx_run_def by (induction rule: rtranclp_induct) (auto intro: keep chain ctx_step_R)

end


section \<open>Results of writing\<close>

lemma write_out_loop_ret:
  "write_out_loop out s = Done (out', s', ret) \<Longrightarrow> ret = Ok () \<or> (\<exists>e. ret = Err (Io e))"
  by (induction out s rule: write_out_loop.induct)
    (subst (asm) write_out_loop.simps, auto split: if_splits prod.splits sum.splits)

lemma write_out_buffer_ret:
  "write_out_buffer c s = Done (c', s', ret) \<Longrightarrow> ret = Ok () \<or> (\<exists>e. ret = Err (Io e))"
  by (auto simp: write_out_buffer_def xbind_eq_Done dest: write_out_loop_ret)

section \<open>The order of the states\<close>

instantiation WebSocketState :: order
begin

definition less_eq_WebSocketState :: "WebSocketState \<Rightarrow> WebSocketState \<Rightarrow> bool" where
  "less_eq_WebSocketState a b \<longleftrightarrow> a = b \<or> a = Active \<or> b = Terminated \<or> a = ClosedByUs \<and> b = CloseAcknowledged"

definition less_WebSocketState :: "WebSocketState \<Rightarrow> WebSocketState \<Rightarrow> bool" where
  "less_WebSocketState a b \<longleftrightarrow> a \<le> b \<and> \<not> b \<le> a"

instance
proof
  fix a b d :: WebSocketState
  show "a < b \<longleftrightarrow> a \<le> b \<and> \<not> b \<le> a" by (rule less_WebSocketState_def)
  show "a \<le> a" by (simp add: less_eq_WebSocketState_def)
  show "a \<le> b \<Longrightarrow> b \<le> d \<Longrightarrow> a \<le> d" by (auto simp: less_eq_WebSocketState_def)
  show "a \<le> b \<Longrightarrow> b \<le> a \<Longrightarrow> a = b" by (auto simp: less_eq_WebSocketState_def)
qed

end

definition forward :: "WebSocketContext \<times> wstream \<Rightarrow> WebSocketContext \<times> wstream \<Rightarrow> bool" where
  "forward x y \<longleftrightarrow> ctx_state (fst x) \<le> ctx_state (fst y) \<and> ctx_role (fst y) = ctx_role (fst x) \<and>
     ctx_config (fst y) = ctx_config (fst x)"

interpretation fw: context_relation t u forward for t u
  by unfold_locales
    (auto simp: forward_def less_eq_WebSocketState_def
      dest!: buffer_frame_shape ctx_write_out_buffer_shape data_frame_shape)

section \<open>The bytes sent\<close>

text \<open>Everything handed to the stream and still buffered, in order.\<close>

definition queued :: "WebSocketContext \<times> wstream \<Rightarrow> bytes" where
  "queued x = sent_bytes (snd x) @ out_buffer (ctx_frame (fst x))"

lemma queued_simps [simp]:
  "queued (c\<lparr>ctx_frame := (ctx_frame c)\<lparr>out_buffer := out\<rparr>\<rparr>, s) = sent_bytes s @ out"
  "queued (c\<lparr>ctx_state := st\<rparr>, s) = queued (c, s)"
  "queued (c\<lparr>additional_send := a\<rparr>, s) = queued (c, s)"
  "queued (c\<lparr>ctx_incomplete := i\<rparr>, s) = queued (c, s)"
  by (simp_all add: queued_def)

text \<open>A frame as the role of the context sends it, and whether the buffer takes it.\<close>

definition frame_out :: "WebSocketContext \<Rightarrow> wstream \<Rightarrow> Frame \<Rightarrow> Frame" where
  "frame_out c s f = (case ctx_role c of Server \<Rightarrow> f | Client \<Rightarrow> set_random_mask (next_masks s 0) f)"

definition fits :: "WebSocketContext \<Rightarrow> Frame \<Rightarrow> bool" where
  "fits c f \<longleftrightarrow> Frame_len f + length (out_buffer (ctx_frame c)) \<le> max_out_buffer_len (ctx_frame c)"

lemma ctx_write_out_buffer_effect:
  assumes "write_contract s"
  obtains out s' ret where
    "ctx_write_out_buffer c s = Done (c\<lparr>ctx_frame := (ctx_frame c)\<lparr>out_buffer := out\<rparr>\<rparr>, s', ret)" "write_contract s'"
    "next_reads s' = next_reads s" "sent_bytes s' @ out = queued (c, s)" "ret = Ok () \<longleftrightarrow> out = []"
    "length out \<le> length (out_buffer (ctx_frame c))" "next_masks s' = next_masks s" "next_flushes s' = next_flushes s"
proof (rule write_out_buffer_keeps [OF assms, of "ctx_frame c"])
  fix out s' ret
  assume "write_out_buffer (ctx_frame c) s = Done ((ctx_frame c)\<lparr>out_buffer := out\<rparr>, s', ret)" "write_contract s'"
    "sent_bytes s' @ out = sent_bytes s @ out_buffer (ctx_frame c)" "ret = Ok () \<longleftrightarrow> out = []"
    "length out \<le> length (out_buffer (ctx_frame c))" "next_reads s' = next_reads s" "next_masks s' = next_masks s"
    "next_flushes s' = next_flushes s"
  then show thesis by (intro that [of out s' ret]) (simp_all add: ctx_write_out_buffer_def queued_def)
qed

lemma buffer_frame_effect:
  assumes "write_contract s"
  obtains
    (full) s' where "buffer_frame t c s f = Done (c, s', Err (WriteBufferFull (Msg_Frame (frame_out c s f))))"
      "\<not> fits c (frame_out c s f)" "write_contract s'" "next_reads s' = next_reads s" "sent_bytes s' = sent_bytes s"
      "next_flushes s' = next_flushes s"
  | (taken) out s' ret where "buffer_frame t c s f = Done (c\<lparr>ctx_frame := (ctx_frame c)\<lparr>out_buffer := out\<rparr>\<rparr>, s', ret)"
      "fits c (frame_out c s f)" "write_contract s'" "next_reads s' = next_reads s"
      "sent_bytes s' @ out = queued (c, s) @ Frame_format t (frame_out c s f)"
      "length out \<le> length (out_buffer (ctx_frame c)) + length (Frame_format t (frame_out c s f))"
      "next_flushes s' = next_flushes s" "\<And>x. ret \<noteq> Err (WriteBufferFull x)"
proof -
  let ?f = "frame_out c s f"
  obtain s1 where s1: "(case ctx_role c of Server \<Rightarrow> (s, f)
      | Client \<Rightarrow> (case generate_mask s of (s, m) \<Rightarrow> (s, set_random_mask m f))) = (s1, ?f)"
    and same: "write_contract s1" "next_reads s1 = next_reads s" "sent_bytes s1 = sent_bytes s" "next_flushes s1 = next_flushes s"
    using assms by (cases "ctx_role c") (auto simp: frame_out_def generate_mask_def write_contract_def)
  show thesis
  proof (cases "fits c ?f")
    case False
    with s1 same show thesis
      by (intro full [of s1]) (auto simp: buffer_frame_def codec_buffer_frame_def fits_def check_connection_reset_def)
  next
    case True
    let ?k = "(ctx_frame c)\<lparr>out_buffer := out_buffer (ctx_frame c) @ Frame_format t ?f\<rparr>"
    obtain out s' ret where w: "write_out_buffer ?k s1 = Done (?k\<lparr>out_buffer := out\<rparr>, s', ret)" "write_contract s'"
      "sent_bytes s' @ out = sent_bytes s1 @ out_buffer ?k" "length out \<le> length (out_buffer ?k)" "next_reads s' = next_reads s1"
      "next_flushes s' = next_flushes s1"
      by (rule write_out_buffer_keeps [OF same(1), of ?k], rule that; assumption)
    show thesis
    proof (cases "out_buffer_write_len (ctx_frame c) < length (out_buffer ?k)")
      case big: True
      from w(1) have ret: "ret = Ok () \<or> (\<exists>e. ret = Err (Io e))" by (rule write_out_buffer_ret)
      with big True w s1 same show thesis
        by (intro taken [of out s' "check_connection_reset (ctx_state c) ret"])
          (auto simp: buffer_frame_def codec_buffer_frame_def fits_def queued_def check_connection_reset_def
            split: if_splits)
    next
      case False
      with True s1 same show thesis
        by (intro taken [of "out_buffer ?k" s1 "Ok ()"])
          (auto simp: buffer_frame_def codec_buffer_frame_def fits_def queued_def check_connection_reset_def)
    qed
  qed
qed

definition appends :: "WebSocketContext \<times> wstream \<Rightarrow> WebSocketContext \<times> wstream \<Rightarrow> bool" where
  "appends x y \<longleftrightarrow> (write_contract (snd x) \<longrightarrow>
     write_contract (snd y) \<and> prefix (queued x) (queued y) \<and> (\<exists>j. \<forall>n. next_reads (snd y) n = next_reads (snd x) (j + n)))"

lemma appends_same:
  "write_contract s' \<Longrightarrow> next_reads s' = next_reads s \<Longrightarrow> prefix (queued (c, s)) (queued (c', s')) \<Longrightarrow> appends (c, s) (c', s')"
  by (auto simp: appends_def intro: exI [of _ 0])

lemma appends_buffer_frame:
  assumes "buffer_frame t c s f = Done (c', s', ret)"
  shows "appends (c, s) (c', s')"
proof (cases "write_contract s")
  case True
  then show ?thesis
  proof (cases rule: buffer_frame_effect [of s t c f])
    case (full s1)
    with assms show ?thesis by (auto simp: queued_def intro: appends_same)
  next
    case (taken out s1 r)
    with assms show ?thesis by (auto intro!: appends_same)
  qed
qed (simp add: appends_def)

lemma appends_write_out_buffer:
  assumes "ctx_write_out_buffer c s = Done (c', s', ret)"
  shows "appends (c, s) (c', s')"
proof (cases "write_contract s")
  case True
  then show ?thesis
    by (rule ctx_write_out_buffer_effect [of s c]) (use assms in \<open>auto intro!: appends_same\<close>)
qed (simp add: appends_def)

lemma appends_read_frame:
  assumes "read_frame (ctx_frame c) s m = Some (Done (k, s', got))"
  shows "appends (c, s) (c\<lparr>ctx_frame := k\<rparr>, s')"
  using read_frame_only [OF assms]
  by (auto simp: appends_def reads_only_def queued_def after_reads_def write_contract_def)

interpretation ap: context_relation t u appends for t u
proof
  show keep: "appends x x" for x by (auto simp: appends_def intro: exI [of _ 0])
  show "appends x y \<Longrightarrow> appends y z \<Longrightarrow> appends x z" for x y z
    by (fastforce simp: appends_def add.assoc [symmetric] intro: prefix_order.trans)
  show "stream_flush s = (s', res) \<Longrightarrow> appends (c, s) (c, s')" for c s s' res
    by (auto simp: appends_def stream_flush_def write_contract_def queued_def intro: exI [of _ 0])
  show "appends (c, s) (c', s)" if "data_frame u c d fr = (c', out)" for c s c' d fr out
    using data_frame_shape [OF that] by (auto simp: appends_def intro: exI [of _ 0])
qed ((erule appends_buffer_frame appends_write_out_buffer appends_read_frame)
    | (simp add: appends_def, rule impI, rule exI [of _ 0], simp))+

section \<open>Bounds\<close>

text \<open>
  What the decoder of text keeps of the sizes: it hands over no more bytes than it was given (the
  documentation of the \<open>utf8\<close> crate: a text is a part of the input).
\<close>

definition utf8_sizes :: "utf8_crate \<Rightarrow> bool" where
  "utf8_sizes u \<longleftrightarrow>
     (\<forall>bs. case utf8_decode u bs of
        Decoded x \<Rightarrow> length x \<le> length bs
      | Decode_Incomplete p i \<Rightarrow> length p + length i \<le> length bs
      | Decode_Invalid p \<Rightarrow> length p \<le> length bs) \<and>
     (\<forall>i bs. case try_complete u i bs of
        Completed x rest \<Rightarrow> length x + length rest \<le> length i + length bs
      | Complete_Invalid rest \<Rightarrow> True
      | Still_Incomplete j \<Rightarrow> length j \<le> length i + length bs)"

definition message_limit :: "WebSocketConfig \<Rightarrow> nat" where
  "message_limit config = (case max_message_size config of None \<Rightarrow> usize_MAX | Some k \<Rightarrow> k)"

definition text_size :: "StringCollector \<Rightarrow> nat" where
  "text_size sc = length (sc_data sc) + (case sc_incomplete sc of None \<Rightarrow> 0 | Some i \<Rightarrow> length i)"

definition collected_size :: "IncompleteMessage \<Rightarrow> nat" where
  "collected_size m = (case m of Collect_Text t \<Rightarrow> text_size t | Collect_Binary b \<Rightarrow> length b)"

definition bounded :: "WebSocketContext \<Rightarrow> bool" where
  "bounded c \<longleftrightarrow> message_limit (ctx_config c) \<le> usize_MAX \<and>
     max_out_buffer_len (ctx_frame c) = max_write_buffer_size (ctx_config c) \<and>
     length (out_buffer (ctx_frame c)) \<le> max_write_buffer_size (ctx_config c) \<and>
     (case ctx_incomplete c of None \<Rightarrow> True | Some m \<Rightarrow> collected_size m \<le> message_limit (ctx_config c))"

lemma decode_rest_size:
  assumes "utf8_sizes u" and "decode_rest u sc bs = (sc', ret)" and "sc_incomplete sc = None \<or> bs = []"
  shows "text_size sc' \<le> text_size sc + length bs"
proof (cases "bs = []")
  case True
  with assms(2) show ?thesis by (simp add: decode_rest_def)
next
  case False
  with assms(2,3) spec [OF conjunct1 [OF assms(1) [unfolded utf8_sizes_def]], of bs] show ?thesis
    by (auto simp: decode_rest_def text_size_def split: decoded.splits)
qed

lemma StringCollector_extend_size:
  assumes "utf8_sizes u" and "StringCollector_extend u sc bs = (sc', ret)"
  shows "text_size sc' \<le> text_size sc + length bs"
proof (cases "sc_incomplete sc")
  case None
  with assms show ?thesis by (intro decode_rest_size) (auto simp: StringCollector_extend_def)
next
  case (Some i)
  let ?sc = "sc\<lparr>sc_incomplete := None\<rparr>"
  note c = spec [OF spec [OF conjunct2 [OF assms(1) [unfolded utf8_sizes_def]], of i], of bs]
  show ?thesis
  proof (cases "try_complete u i bs")
    case (Completed x rest)
    then have "text_size sc' \<le> text_size (?sc\<lparr>sc_data := sc_data sc @ x\<rparr>) + length rest"
      using assms Some by (intro decode_rest_size) (auto simp: StringCollector_extend_def Let_def)
    with c Completed Some show ?thesis by (simp add: text_size_def)
  next
    case (Complete_Invalid rest)
    with assms(2) Some show ?thesis by (auto simp: StringCollector_extend_def text_size_def)
  next
    case (Still_Incomplete j)
    with assms(2) Some c show ?thesis by (auto simp: StringCollector_extend_def text_size_def decode_rest_def)
  qed
qed

lemma IncompleteMessage_extend_size:
  assumes "utf8_sizes u" and "IncompleteMessage_extend u m bs lim = (m', ret)"
    and "collected_size m \<le> k" and "k = (case lim of None \<Rightarrow> usize_MAX | Some n \<Rightarrow> n)" and "k \<le> usize_MAX"
  shows "collected_size m' \<le> k"
proof (cases "k < collected_size m + length bs")
  case True
  have len: "IncompleteMessage_len m = collected_size m"
    using assms(3,5) by (auto simp: IncompleteMessage_len_def collected_size_def StringCollector_len_def text_size_def
        split: IncompleteMessage.splits)
  have "IncompleteMessage_extend u m bs lim = (m, Err (Capacity (MessageTooLong (IncompleteMessage_len m + length bs) k)))"
    using True by (simp add: IncompleteMessage_extend_def Let_def assms(4) [symmetric] len) linarith
  with assms(2,3) show ?thesis by simp
next
  case False
  show ?thesis
  proof (cases m)
    case (Collect_Text sc)
    with assms(2) consider "m' = m" | sc' r where "StringCollector_extend u sc bs = (sc', r)" "m' = Collect_Text sc'"
      by (auto simp: IncompleteMessage_extend_def Let_def split: if_splits prod.splits)
    then show ?thesis
      by cases (use False Collect_Text assms(3) StringCollector_extend_size [OF assms(1)] in \<open>force simp: collected_size_def\<close>)+
  next
    case (Collect_Binary b)
    with assms(2,3) False show ?thesis
      by (auto simp: IncompleteMessage_extend_def collected_size_def Let_def split: if_splits)
  qed
qed

text \<open>The size of a message that is handed over.\<close>

definition message_bound :: "WebSocketConfig \<Rightarrow> Message \<Rightarrow> bool" where
  "message_bound config m =
     (case m of
        Msg_Text x \<Rightarrow> length x \<le> message_limit config
      | Msg_Binary x \<Rightarrow> length x \<le> message_limit config
      | Msg_Ping x \<Rightarrow> length x \<le> 125
      | Msg_Pong x \<Rightarrow> length x \<le> 125
      | Msg_Close cf \<Rightarrow> (case cf of None \<Rightarrow> True | Some d \<Rightarrow> length (reason d) \<le> 123)
      | Msg_Frame f \<Rightarrow> False)"

lemma complete_size: "complete m = Ok msg \<Longrightarrow> collected_size m \<le> message_limit config \<Longrightarrow> message_bound config msg"
  by (auto simp: complete_def message_bound_def collected_size_def text_size_def into_string_def
      split: IncompleteMessage.splits if_splits)

lemma IncompleteMessage_new_size [simp]: "collected_size (IncompleteMessage_new ty) = 0"
  by (simp add: IncompleteMessage_new_def collected_size_def text_size_def StringCollector_new_def split: IncompleteMessageType.split)

lemma bounded_incomplete:
  "bounded c \<Longrightarrow> bounded (c\<lparr>ctx_incomplete := None\<rparr>)"
  "bounded c \<Longrightarrow> collected_size m \<le> message_limit (ctx_config c) \<Longrightarrow> bounded (c\<lparr>ctx_incomplete := Some m\<rparr>)"
  by (simp_all add: bounded_def)

lemma bounded_out:
  "bounded c \<Longrightarrow> length out \<le> max_write_buffer_size (ctx_config c) \<Longrightarrow>
    bounded (c\<lparr>ctx_frame := (ctx_frame c)\<lparr>out_buffer := out\<rparr>\<rparr>)"
  by (simp add: bounded_def split: option.splits)

lemma data_frame_bounded:
  assumes "utf8_sizes u" and "bounded c" and "data_frame u c d f = (c', ret)"
  shows "bounded c'" and "ret = Ok (Some msg) \<Longrightarrow> message_bound (ctx_config c) msg"
proof -
  have ext: "collected_size m' \<le> message_limit (ctx_config c)"
    if "IncompleteMessage_extend u m (payload f) (max_message_size (ctx_config c)) = (m', r)"
      "m = IncompleteMessage_new ty \<or> ctx_incomplete c = Some m" for m m' r ty
    using that assms(2) IncompleteMessage_extend_size [OF assms(1) that(1), of "message_limit (ctx_config c)"]
    by (auto simp: message_limit_def bounded_def)
  have "bounded c' \<and> (ret = Ok (Some msg) \<longrightarrow> message_bound (ctx_config c) msg)"
  proof (cases "d = Data_Continue")
    case True
    show ?thesis
    proof (cases "ctx_incomplete c")
      case None
      with True assms(2,3) show ?thesis by (auto simp: data_frame_def)
    next
      case (Some m)
      obtain m' r where e: "IncompleteMessage_extend u m (payload f) (max_message_size (ctx_config c)) = (m', r)"
        by (cases "IncompleteMessage_extend u m (payload f) (max_message_size (ctx_config c))")
      note size = ext [OF e disjI2 [OF Some]]
      from True Some e assms(2,3) size show ?thesis
        by (cases r) (auto simp: data_frame_def Let_def rbind_eq_Inr bounded_incomplete complete_size split: if_splits)
    qed
  next
    case False
    let ?ty = "if d = Data_Text then Type_Text else Type_Binary"
    obtain m' r where e: "IncompleteMessage_extend u (IncompleteMessage_new ?ty) (payload f) (max_message_size (ctx_config c)) = (m', r)"
      by (cases "IncompleteMessage_extend u (IncompleteMessage_new ?ty) (payload f) (max_message_size (ctx_config c))")
    note size = ext [OF e disjI1 [OF refl]]
    from False e assms(2,3) size show ?thesis
      by (cases r; cases d) (auto simp: data_frame_def Let_def rbind_eq_Inr bounded_incomplete complete_size split: if_splits)
  qed
  then show "bounded c'" "ret = Ok (Some msg) \<Longrightarrow> message_bound (ctx_config c) msg" by simp_all
qed

definition keeps_bounds :: "target \<Rightarrow> utf8_crate \<Rightarrow> WebSocketContext \<times> wstream \<Rightarrow> WebSocketContext \<times> wstream \<Rightarrow> bool" where
  "keeps_bounds t u x y \<longleftrightarrow> (target_ok t \<and> utf8_sizes u \<and> write_contract (snd x) \<and> bounded (fst x) \<longrightarrow>
     write_contract (snd y) \<and> bounded (fst y) \<and> ctx_config (fst y) = ctx_config (fst x))"

lemma keeps_bounds_buffer_frame:
  assumes "buffer_frame t c s f = Done (c', s', ret)"
  shows "keeps_bounds t u (c, s) (c', s')"
  unfolding keeps_bounds_def fst_conv snd_conv
proof (intro impI, elim conjE)
  assume t: "target_ok t" and w: "write_contract s" and "bounded c"
  from w show "write_contract s' \<and> bounded c' \<and> ctx_config c' = ctx_config c"
  proof (cases rule: buffer_frame_effect [of s t c f])
    case (full s1)
    with assms \<open>bounded c\<close> show ?thesis by simp
  next
    case (taken out s1 r)
    with \<open>bounded c\<close> length_Frame_format [OF t] have "length out \<le> max_write_buffer_size (ctx_config c)"
      by (simp add: bounded_def fits_def)
    with assms taken(1,3) bounded_out [OF \<open>bounded c\<close>] show ?thesis by auto
  qed
qed

lemma keeps_bounds_write_out_buffer:
  assumes "ctx_write_out_buffer c s = Done (c', s', ret)"
  shows "keeps_bounds t u (c, s) (c', s')"
proof (cases "write_contract s")
  case True
  then show ?thesis
    by (rule ctx_write_out_buffer_effect [of s c])
      (use assms in \<open>auto simp: keeps_bounds_def bounded_def split: option.splits\<close>)
qed (simp add: keeps_bounds_def)

lemma keeps_bounds_read_frame:
  assumes "read_frame (ctx_frame c) s m = Some (Done (k, s', got))"
  shows "keeps_bounds t u (c, s) (c\<lparr>ctx_frame := k\<rparr>, s')"
  using read_frame_only [OF assms]
  by (auto simp: keeps_bounds_def reads_only_def after_reads_def write_contract_def bounded_def split: option.splits)

interpretation kb: context_relation t u "keeps_bounds t u" for t u
proof
  show "stream_flush s = (s', res) \<Longrightarrow> keeps_bounds t u (c, s) (c, s')" for c s s' res
    by (auto simp: keeps_bounds_def stream_flush_def write_contract_def)
  show "keeps_bounds t u (c, s) (c', s)" if "data_frame u c d fr = (c', out)" for c s c' d fr out
    using data_frame_bounded(1) [OF _ _ that] data_frame_shape [OF that] by (auto simp: keeps_bounds_def)
qed ((erule keeps_bounds_buffer_frame keeps_bounds_write_out_buffer keeps_bounds_read_frame)
    | (fastforce simp: keeps_bounds_def bounded_def split: option.splits))+

lemma received_frame_bound:
  assumes "target_ok t" and "utf8_sizes u" and "bounded c" and "received_frame t u c fr = Done (c', Ok (Some m))"
  shows "message_bound (ctx_config c) m"
proof -
  have close: "length (reason d) \<le> 123"
    if "into_close t f = Ok cf" "\<not> 125 < length (payload f)" "do_close t c cf = Done (c1, Some (Some d))" for f cf c1 d
  proof -
    from that(2) have "length (payload f) \<le> 125" by simp
    have "length (snd (read_u16 t (payload f))) \<le> 123" if "2 \<le> length (payload f)"
      using assms(1) that \<open>length (payload f) \<le> 125\<close> by (simp add: target_ok_def)
    moreover have "length (payload f) \<noteq> 0" "length (payload f) \<noteq> 1" "d' = \<lparr>code = CloseCode_from_u16 (fst (read_u16 t (payload f))),
        reason = snd (read_u16 t (payload f))\<rparr>" if "cf = Some d'" for d'
      using that \<open>into_close t f = Ok cf\<close> by (auto simp: into_close_def case_prod_beta Let_def split: if_splits)
    ultimately have "length (reason d') \<le> 123" if "cf = Some d'" for d'
      using that by (metis CloseFrame.select_convs(2) One_nat_def Suc_1 Suc_leI less_one linorder_neqE_nat not_less_eq)
    then show ?thesis
      using that(3) by (auto simp: do_close_def Let_def protocol_violation_def split: WebSocketState.splits if_splits option.splits)
  qed
  have ctl: "message_bound (ctx_config c) m" if "control_frame t c ctl f = Done (c', Ok (Some m))" for ctl f
    using that by (auto simp: control_frame_def message_bound_def Let_def xbind_eq_Done dest: close
      split: if_splits Control.splits sum.splits option.splits)
  from assms(4) show ?thesis
    by (auto simp: received_frame_def intro: ctl data_frame_bounded(2) [OF assms(2,3)]
        split: if_splits sum.splits OpCode.splits)
qed

lemma read_message_frame_bound:
  assumes "target_ok t" and "utf8_sizes u" and "bounded c" and "write_contract s"
    and "read_message_frame t u c s = Some (Done (c', s', Ok (Some m)))"
  shows "message_bound (ctx_config c) m"
proof -
  from assms(5) obtain k s1 got where r: "read_frame (ctx_frame c) s (max_frame_size (ctx_config c)) = Some (Done (k, s1, got))"
    unfolding read_message_frame_def obind_eq_Done by auto
  from keeps_bounds_read_frame [OF r, of t u] assms(1-4) have k: "bounded (c\<lparr>ctx_frame := k\<rparr>)"
    by (simp add: keeps_bounds_def)
  from assms(5) r obtain fr where "received_frame t u (c\<lparr>ctx_frame := k\<rparr>) fr = Done (c', Ok (Some m))"
    by (auto simp: read_message_frame_def Let_def closed_by_peer_def xbind_eq_Done split: sum.splits option.splits)
  from received_frame_bound [OF assms(1,2) k this] show ?thesis by simp
qed

end
