(* ===== verification/Ws_Returns.thy ===== *)
theory Ws_Returns
  imports Ws_Protocol
begin

text \<open>
  Every call of the websocket context returns, and the properties of its runs: the order of the states,
  the bytes sent, the bounds and the return of every call, each for the definitions of \<open>Ws_Context\<close>.
\<close>

section \<open>Every call returns\<close>

text \<open>
  A call that returns and keeps the contract of the stream, with the reading side untouched: the
  answers to reads and what the codec still has to look at.
\<close>

definition pending :: "FrameCodec \<Rightarrow> nat" where
  "pending c = length (in_buffer c) + (if codec_header c = None then 0 else 1)"

definition safe :: "WebSocketContext \<Rightarrow> wstream \<Rightarrow> 'a step \<Rightarrow> bool" where
  "safe c s r \<longleftrightarrow> (\<exists>c' s' ret. r = Done (c', s', ret) \<and> write_contract s' \<and> next_reads s' = next_reads s \<and>
     pending (ctx_frame c') = pending (ctx_frame c))"

lemma safe_Done [simp]:
  "safe c s (Done (c', s', ret)) \<longleftrightarrow>
    write_contract s' \<and> next_reads s' = next_reads s \<and> pending (ctx_frame c') = pending (ctx_frame c)"
  by (auto simp: safe_def)

lemma safe_ctx_update [simp]:
  "safe (c\<lparr>additional_send := a\<rparr>) s r \<longleftrightarrow> safe c s r"
  "safe (c\<lparr>ctx_state := st\<rparr>) s r \<longleftrightarrow> safe c s r"
  "safe (set_additional f c) s r \<longleftrightarrow> safe c s r"
  by (simp_all add: safe_def set_additional_def)

lemma safe_wbind:
  assumes "safe c s r" and "\<And>c1 s1 x. write_contract s1 \<Longrightarrow> safe c1 s1 (f c1 s1 x)"
  shows "safe c s (wbind r f)"
proof -
  from assms(1) obtain c1 s1 ret where r: "r = Done (c1, s1, ret)" "write_contract s1" "next_reads s1 = next_reads s"
    "pending (ctx_frame c1) = pending (ctx_frame c)"
    by (auto simp: safe_def)
  show ?thesis
  proof (cases ret)
    case (Inr x)
    with r assms(2) [OF r(2), of c1 x] show ?thesis by (auto simp: wbind_def safe_def)
  qed (use r in \<open>simp add: wbind_def\<close>)
qed

lemma safe_buffer_frame:
  assumes "write_contract s"
  shows "safe c s (buffer_frame t c s f)"
  using assms by (cases rule: buffer_frame_effect [of s t c f]) (simp_all add: pending_def)

lemma safe_write_out_buffer:
  assumes "write_contract s"
  shows "safe c s (ctx_write_out_buffer c s)"
  by (rule ctx_write_out_buffer_effect [OF assms, of c]) (simp add: pending_def)

lemma safe_write_additional:
  assumes "write_contract s"
  shows "safe c s (write_additional t c s)"
proof (cases "additional_send c")
  case None
  with assms show ?thesis by (simp add: write_additional_def)
next
  case (Some f)
  from safe_buffer_frame [OF assms, of "c\<lparr>additional_send := None\<rparr>" t f] obtain c1 s1 ret where
    "buffer_frame t (c\<lparr>additional_send := None\<rparr>) s f = Done (c1, s1, ret)" "write_contract s1" "next_reads s1 = next_reads s"
    "pending (ctx_frame c1) = pending (ctx_frame c)"
    unfolding safe_ctx_update by (auto simp: safe_def)
  moreover have "ctx_frame (set_additional g c1) = ctx_frame c1" for g by (simp add: set_additional_def)
  ultimately show ?thesis
    using Some by (auto simp: write_additional_def split: sum.splits Error.splits Message.splits)
qed

lemma safe_raw_write:
  assumes "write_contract s"
  shows "safe c s (raw_write t c s data)"
proof -
  have "safe c s (wbind (ctx_write_out_buffer c s) (\<lambda>c s _. Done (c\<lparr>ctx_state := st\<rparr>, s, Err e)))"
    if "write_contract s" for c s st and e :: Error
    using that by (intro safe_wbind safe_write_out_buffer) simp_all
  with assms show ?thesis
    unfolding raw_write_def
    by (intro safe_wbind) (auto intro: safe_write_additional safe_buffer_frame split: option.split)
qed

lemma safe_flush: "write_contract s \<Longrightarrow> safe c s (ctx_flush t c s)"
  unfolding ctx_flush_def
  by (intro safe_wbind safe_raw_write safe_write_out_buffer)
    (auto simp: stream_flush_def write_contract_def)

lemma safe_close: "write_contract s \<Longrightarrow> safe c s (ctx_close t c s cf)"
  unfolding ctx_close_def
  using safe_raw_write [of s "c\<lparr>ctx_state := ClosedByUs\<rparr>"] by (intro safe_wbind) (auto intro: safe_flush)

lemma safe_write_frame: "write_contract s \<Longrightarrow> safe c s (write_frame t c s f)"
  unfolding write_frame_def by (intro safe_wbind) (auto intro: safe_raw_write safe_flush)

lemma safe_write: "write_contract s \<Longrightarrow> safe c s (ctx_write t c s m)"
  using safe_raw_write [of s "set_additional f c" for f]
  by (auto simp: ctx_write_def intro: safe_write_frame safe_close intro!: safe_wbind split: sum.splits Message.splits)

lemma safe_before_read:
  assumes "write_contract s"
  shows "safe c s (before_read t c s)"
  using safe_flush [OF assms, of c t] assms by (auto simp: before_read_def safe_def)

text \<open>No frame makes the context panic: the codec's headers are parsed, and \<open>do_close\<close> is not reached when terminated.\<close>

lemma OpCode_from_nibble: "\<exists>op. OpCode_from_u8 (b AND 0x0F) = Done op"
proof -
  have "b AND 0x0F \<le> 15" by (rule word_and_le1)
  then show ?thesis by (auto simp: OpCode_from_u8_def unat_arith_simps)
qed

lemma FrameHeader_parse_total: "\<exists>rest ret. FrameHeader_parse bs = Done (rest, ret)"
proof -
  obtain op where "OpCode_from_u8 (hd bs AND 0x0F) = Done op" using OpCode_from_nibble by blast
  then have "\<exists>y. parse_internal bs = Done y"
    by (auto simp: parse_internal_def split: list.splits option.splits)
  then show ?thesis by (auto simp: FrameHeader_parse_def)
qed

lemma received_frame_total: "received_frame t u c fr \<noteq> Panic"
proof (cases "can_read (ctx_state c)")
  case True
  then have "do_close t c cf \<noteq> Panic" for cf
    by (auto simp: do_close_def can_read_def Let_def)
  then have "control_frame t c ctl f \<noteq> Panic" for ctl f
    by (auto simp: control_frame_def Let_def xbind_eq_Panic split: Control.splits sum.splits)
  then show ?thesis
    by (auto simp: received_frame_def split: sum.splits OpCode.splits)
qed (simp add: received_frame_def)

text \<open>
  The stream does not deliver data for ever: one of its answers is an error (blocking is one) or the
  end. Then the codec returns.
\<close>

definition pauses_at :: "wstream \<Rightarrow> nat \<Rightarrow> bool" where
  "pauses_at s n \<longleftrightarrow> (\<forall>bs. next_reads s n = Ok bs \<longrightarrow> bs = [])"

lemma parse_parts_shorter:
  "parse_length b bs = Some (len, rest) \<Longrightarrow> length rest \<le> length bs"
  "parse_mask m bs = Some (k, rest) \<Longrightarrow> length rest \<le> length bs"
  by (auto simp: parse_length_def parse_mask_def Let_def split: if_splits list.splits)

lemma parse_internal_shorter:
  assumes "parse_internal bs = Done (rest, ret)" and "ret \<noteq> Ok None"
  shows "length rest < length bs"
proof -
  obtain first second more_bytes where bs: "bs = first # second # more_bytes"
    using assms by (auto simp: parse_internal_def split: list.splits)
  obtain op where op: "OpCode_from_u8 (first AND 0x0F) = Done op" using OpCode_from_nibble by blast
  obtain len r1 where l: "parse_length second more_bytes = Some (len, r1)"
    using assms by (cases "parse_length second more_bytes") (auto simp: parse_internal_def bs op)
  obtain m r2 where m: "parse_mask (second AND 0x80 \<noteq> 0) r1 = Some (m, r2)"
    using assms l by (cases "parse_mask (second AND 0x80 \<noteq> 0) r1") (auto simp: parse_internal_def bs op)
  have "rest = r2" using assms(1) by (simp add: parse_internal_def bs op l m split: if_splits)
  with parse_parts_shorter(1) [OF l] parse_parts_shorter(2) [OF m] show ?thesis by (simp add: bs)
qed

lemma read_header_total:
  obtains c1 ret where "read_header c = Done (c1, ret)" "pending c1 \<le> pending c"
proof (cases "codec_header c")
  case None
  obtain rest ret where p: "FrameHeader_parse (in_buffer c) = Done (rest, ret)" using FrameHeader_parse_total by blast
  then obtain r where i: "parse_internal (in_buffer c) = Done (r, ret)" and rest: "rest = (if ret = Ok None then in_buffer c else r)"
    by (auto simp: FrameHeader_parse_def xbind_eq_Done split: if_splits)
  have "length rest \<le> length (in_buffer c)" "ret \<noteq> Ok None \<Longrightarrow> length rest < length (in_buffer c)"
    using parse_internal_shorter [OF i] by (auto simp: rest)
  with None p show thesis
    by (cases ret) (auto simp: read_header_def pending_def intro!: that)
next
  case (Some h)
  then show thesis by (intro that [of c "Ok ()"]) (simp_all add: read_header_def)
qed

lemma read_frame_loop_total:
  assumes "pauses_at s n"
  shows "\<exists>c' j ret. read_frame_loop m c s = Some (Done (c', after_reads j s, ret)) \<and>
    (\<forall>f. ret = Ok (Some f) \<longrightarrow> j \<le> n \<and> (j = 0 \<longrightarrow> pending c' < pending c))"
  using assms
proof (induction n arbitrary: c s rule: less_induct)
  case (less n)
  obtain c1 r1 where h: "read_header c = Done (c1, r1)" "pending c1 \<le> pending c" by (rule read_header_total)
  obtain c2 p where p: "take_payload m c1 = (c2, p)" by (cases "take_payload m c1")
  note now = read_frame_loop_step [of m c s, unfolded h(1)]
  consider (header) e where "r1 = Err e" | (size) e where "r1 = Ok ()" "p = Some (Err e)"
    | (whole) bs where "r1 = Ok ()" "p = Some (Ok bs)" | (more_data) "r1 = Ok ()" "p = None"
    by (cases r1; cases p) (auto, metis obj_sumE)
  then show ?case
  proof cases
    case header
    with now show ?thesis by (intro exI [of _ c1] exI [of _ 0]) simp
  next
    case size
    with now p show ?thesis by (intro exI [of _ c2] exI [of _ 0]) simp
  next
    case (whole bs)
    with p obtain hd l where "codec_header c1 = Some (hd, l)" "codec_header c2 = Some (hd, l)" "length (in_buffer c2) \<le> length (in_buffer c1)"
      by (auto simp: take_payload_def split: option.splits if_splits)
    with whole now p h(2) show ?thesis
      by (intro exI [of _ "c2\<lparr>codec_header := None\<rparr>"] exI [of _ 0]) (auto simp: pending_def split: if_splits)
  next
    case more_data
    have read: "stream_read s = (after_reads 1 s, next_reads s 0)"
      by (simp add: stream_read_def after_reads_def)
    show ?thesis
    proof (cases "\<exists>bs. next_reads s 0 = Ok bs \<and> bs \<noteq> []")
      case True
      then obtain bs where bs: "next_reads s 0 = Ok bs" "bs \<noteq> []" by blast
      with less.prems obtain k where n: "n = Suc k" by (cases n) (auto simp: pauses_at_def)
      with less.prems have "pauses_at (after_reads 1 s) k" by (simp add: pauses_at_def after_reads_def)
      from less.IH [OF _ this, of "c2\<lparr>in_buffer := in_buffer c2 @ bs\<rparr>"] n obtain c' j ret where
        "read_frame_loop m (c2\<lparr>in_buffer := in_buffer c2 @ bs\<rparr>) (after_reads 1 s) = Some (Done (c', after_reads (Suc j) s, ret))"
        "\<forall>f. ret = Ok (Some f) \<longrightarrow> j \<le> k" by auto
      with now more_data p read bs n show ?thesis by (intro exI [of _ c'] exI [of _ "Suc j"] exI [of _ ret]) simp
    next
      case False
      with now more_data p read show ?thesis
        by (cases "next_reads s 0") (auto intro!: exI [of _ c2] exI [of _ 1])
    qed
  qed
qed

lemma received_frame_codec:
  assumes "received_frame t u c fr = Done (c', ret)"
  shows "ctx_frame c' = ctx_frame c"
proof -
  have set: "ctx_frame (set_additional f d) = ctx_frame d" for f d by (simp add: set_additional_def)
  have "ctx_frame c1 = ctx_frame c" if "do_close t c cf = Done (c1, r)" for cf c1 r
    using that by (auto simp: do_close_def Let_def set split: WebSocketState.splits option.splits)
  then have "ctx_frame c' = ctx_frame c" if "control_frame t c ctl f = Done (c', ret)" for ctl f
    using that by (auto simp: control_frame_def Let_def xbind_eq_Done set split: if_splits Control.splits sum.splits)
  with assms show ?thesis
    by (auto simp: received_frame_def split: if_splits sum.splits OpCode.splits dest: data_frame_shape)
qed

lemma read_message_frame_total:
  assumes "pauses_at s n"
  shows "\<exists>c' j ret. read_message_frame t u c s = Some (Done (c', after_reads j s, ret)) \<and>
    (ret = Ok None \<longrightarrow> j \<le> n \<and> (j = 0 \<longrightarrow> pending (ctx_frame c') < pending (ctx_frame c)))"
proof -
  let ?m = "case max_frame_size (ctx_config c) of None \<Rightarrow> usize_MAX | Some m \<Rightarrow> m"
  from read_frame_loop_total [OF assms, of ?m "ctx_frame c"] obtain k j got where
    r: "read_frame (ctx_frame c) s (max_frame_size (ctx_config c)) = Some (Done (k, after_reads j s, got))"
    and f: "\<forall>f. got = Ok (Some f) \<longrightarrow> j \<le> n \<and> (j = 0 \<longrightarrow> pending k < pending (ctx_frame c))"
    by (auto simp: read_frame_def)
  let ?c = "c\<lparr>ctx_frame := k\<rparr>"
  show ?thesis
  proof (cases "\<exists>f. check_connection_reset (ctx_state c) got = Ok (Some f)")
    case True
    then obtain fr where fr: "check_connection_reset (ctx_state c) got = Ok (Some fr)" by blast
    then have got: "got = Ok (Some fr)" by (auto simp: check_connection_reset_def split: sum.splits Error.splits)
    obtain c' ret where rf: "received_frame t u ?c fr = Done (c', ret)"
      using received_frame_total [of t u ?c fr] by (cases "received_frame t u ?c fr") auto
    have "ctx_frame c' = k"
      using received_frame_codec [OF rf] by simp
    with r rf fr got f show ?thesis
      by (intro exI [of _ c'] exI [of _ j] exI [of _ ret]) (auto simp: read_message_frame_def)
  next
    case False
    with r show ?thesis
      by (cases "check_connection_reset (ctx_state c) got")
        (auto simp: read_message_frame_def closed_by_peer_def split: option.splits)
  qed
qed

lemma read_loop_total:
  assumes "pauses_at s n" and "write_contract s"
  shows "\<exists>c' s' ret. read_loop t u c s = Some (Done (c', s', ret))"
  using assms
proof (induction "(n, pending (ctx_frame c))" arbitrary: n c s
    rule: wf_induct_rule [OF wf_lex_prod [OF wf_less_than wf_less_than], case_names less])
  case (less n c s)
  from safe_before_read [OF less(3), of c t] obtain c1 s1 r1 where
    b: "before_read t c s = Done (c1, s1, r1)" "write_contract s1" "next_reads s1 = next_reads s"
    "pending (ctx_frame c1) = pending (ctx_frame c)" by (auto simp: safe_def)
  with less(2) have "pauses_at s1 n" by (simp add: pauses_at_def)
  from read_message_frame_total [OF this, of t u c1] obtain c2 j r2 where
    m: "read_message_frame t u c1 s1 = Some (Done (c2, after_reads j s1, r2))"
    "r2 = Ok None \<longrightarrow> j \<le> n \<and> (j = 0 \<longrightarrow> pending (ctx_frame c2) < pending (ctx_frame c))"
    using b(4) by auto
  show ?case
  proof (cases rule: turn_cases [of t c s u])
    case (again d1 t1 x d2 t2)
    with b m have eqs: "c2 = d2" "t2 = after_reads j s1" "r2 = Ok None" by auto
    with m(2) have j: "j \<le> n" "j = 0 \<longrightarrow> pending (ctx_frame c2) < pending (ctx_frame c)" by auto
    have "\<exists>c' s' ret. read_loop t u c2 (after_reads j s1) = Some (Done (c', s', ret))"
    proof (rule less(1))
      show "((n - j, pending (ctx_frame c2)), n, pending (ctx_frame c)) \<in> less_than <*lex*> less_than"
        using j by (cases "j = 0") auto
      show "pauses_at (after_reads j s1) (n - j)" using \<open>pauses_at s1 n\<close> j by (simp add: pauses_at_def after_reads_def)
      show "write_contract (after_reads j s1)" using b(2) by (simp add: write_contract_def after_reads_def)
    qed
    with again eqs show ?thesis by (subst read_loop.simps) simp
  next
    case (stuck d1 t1 x)
    with b m show ?thesis by simp
  next
    case (ends y)
    from ends(1) b m show ?thesis by cases (use ends(2) in auto)
  qed
qed

section \<open>Sample context\<close>

text \<open>A decoder that accepts the one-byte code points, and a new context of either role.\<close>

definition ascii_utf8 :: utf8_crate where
  "ascii_utf8 = \<lparr>utf8_decode = (\<lambda>bs. if \<forall>b \<in> set bs. b < 128 then Decoded bs else Decode_Invalid (takeWhile (\<lambda>b. b < 128) bs)),
     try_complete = (\<lambda>i bs. Complete_Invalid bs)\<rparr>"

lemma utf8_sizes_ascii: "utf8_sizes ascii_utf8"
  by (simp add: utf8_sizes_def ascii_utf8_def length_takeWhile_le)

definition new_context :: "Role \<Rightarrow> WebSocketContext" where
  "new_context role = \<lparr>ctx_role = role,
     ctx_frame = \<lparr>in_buffer = [], out_buffer = [], max_out_buffer_len = usize_MAX, out_buffer_write_len = 128 * 1024,
       codec_header = None\<rparr>,
     ctx_state = Active, ctx_incomplete = None, additional_send = None, ctx_config = WebSocketConfig_default\<rparr>"

lemma new_context: "WebSocketContext_new role None = Done (new_context role)"
  by (simp add: WebSocketContext_new_def context_new_def assert_valid_def WebSocketConfig_default_def usize_MAX_def
      new_context_def FrameCodec_new_def set_max_out_buffer_len_def set_out_buffer_write_len_def)

lemma close_new_client:
  "ctx_close sample_target (new_context Client) (sample_stream []) None =
     Done ((new_context Client)\<lparr>ctx_state := ClosedByUs\<rparr>, (sample_stream [])\<lparr>next_flushes := \<lambda>n. Ok ()\<rparr>, Ok ())"
  by (simp add: ctx_close_def ctx_flush_def raw_write_def write_additional_def Frame_close_def new_context_def wbind_def
      ctx_write_out_buffer_def write_out_buffer_def write_out_loop.simps stream_flush_def sample_stream_def)

text \<open>A read with nothing buffered whose first read of the stream fails changes nothing else.\<close>

lemma read_refused:
  assumes "ctx_state c \<noteq> Terminated" and "additional_send c = None" and "ctx_role c = Client \<or> can_read (ctx_state c)"
    and k: "in_buffer (ctx_frame c) = []" "codec_header (ctx_frame c) = None" and "next_reads s 0 = Err e"
  shows "ctx_read t u c s = Some (Done (c, after_reads 1 s, check_connection_reset (ctx_state c) (Err (Io e))))"
proof -
  have "(ctx_frame c)\<lparr>in_buffer := [], codec_header := None\<rparr> = ctx_frame c" using k by (cases "ctx_frame c") simp
  with k assms(6) have "read_frame (ctx_frame c) s (max_frame_size (ctx_config c)) =
      Some (Done (ctx_frame c, after_reads 1 s, Err (Io e)))"
    by (simp add: read_frame_def read_frame_loop.simps read_header_def FrameHeader_parse_def parse_internal_def
        take_payload_def stream_read_def after_reads_def)
  then have "read_message_frame t u c s = Some (Done (c, after_reads 1 s, check_connection_reset (ctx_state c) (Err (Io e))))"
    by (simp add: read_message_frame_def check_connection_reset_def)
  moreover have "before_read t c s = Done (c, s, Ok ())" using assms(2,3) by (auto simp: before_read_def)
  ultimately show ?thesis
    using assms(1) by (simp add: ctx_read_def check_not_terminated_def read_loop.simps check_connection_reset_def)
qed

section \<open>Properties\<close>

text \<open>
  C9: The state of a connection only moves forward, over every sequence of calls: from active to closed
  by us and acknowledged, or to closed by the peer, and to terminated, which is final. Once the
  connection is not active every write is refused and changes nothing, and once it is terminated so
  are reads. Role and configuration never change. The error \<open>ConnectionClosed\<close> does not always go with the final
  state: when the stream of a client whose peer has closed is reset, the read that reports it leaves the connection
  as it is, so that the next write is answered \<open>SendAfterClosing\<close>, where the documentation of \<open>write\<close> and of
  the error promises \<open>AlreadyClosed\<close>.
\<close>
theorem ws_state_forward:
  assumes "ctx_run t u (c, s) (c', s')"
  shows "ctx_state c \<le> ctx_state c' \<and> ctx_role c' = ctx_role c \<and> ctx_config c' = ctx_config c \<and>
    (ctx_state c \<noteq> Active \<longrightarrow> ctx_state c' \<noteq> Active \<and>
       ctx_write t c' s' m =
         Done (c', s', Err (if ctx_state c' = Terminated then AlreadyClosed else Protocol SendAfterClosing))) \<and>
    (ctx_state c = Terminated \<longrightarrow> ctx_state c' = Terminated \<and>
       ctx_read t u c' s' = Some (Done (c', s', Err AlreadyClosed))) \<and>
    (ctx_role c = Client \<and> ctx_state c' \<in> {ClosedByPeer, CloseAcknowledged} \<and> additional_send c' = None \<and>
       in_buffer (ctx_frame c') = [] \<and> codec_header (ctx_frame c') = None \<and> next_reads s' 0 = Err ConnectionReset \<longrightarrow>
     ctx_read t u c' s' = Some (Done (c', after_reads 1 s', Err ConnectionClosed)) \<and>
     ctx_write t c' (after_reads 1 s') m = Done (c', after_reads 1 s', Err (Protocol SendAfterClosing)))"
proof -
  note f = fw.ctx_run_R [OF assms]
  have closed: "ctx_read t u c' s' = Some (Done (c', after_reads 1 s', Err ConnectionClosed)) \<and>
      ctx_write t c' (after_reads 1 s') m = Done (c', after_reads 1 s', Err (Protocol SendAfterClosing))"
    if "ctx_role c = Client" "ctx_state c' \<in> {ClosedByPeer, CloseAcknowledged}" "additional_send c' = None"
      "in_buffer (ctx_frame c') = []" "codec_header (ctx_frame c') = None" "next_reads s' 0 = Err ConnectionReset"
    using that f read_refused [of c' s' ConnectionReset t u]
    by (auto simp: forward_def ctx_write_def check_not_terminated_def is_active_def can_read_def check_connection_reset_def)
  show ?thesis
    using f closed
    by (auto simp: forward_def less_eq_WebSocketState_def ctx_write_def ctx_read_def check_not_terminated_def is_active_def)
qed

theorem ws_state_forward_witness:
  "ctx_run sample_target ascii_utf8 (new_context Client, sample_stream [])
     ((new_context Client)\<lparr>ctx_state := ClosedByUs\<rparr>, (sample_stream [])\<lparr>next_flushes := \<lambda>n. Ok ()\<rparr>) \<and>
   ctx_state (new_context Client) \<le> ClosedByUs \<and>
   ctx_write sample_target ((new_context Client)\<lparr>ctx_state := ClosedByUs\<rparr>) (sample_stream []) (Msg_Binary [1]) =
     Done ((new_context Client)\<lparr>ctx_state := ClosedByUs\<rparr>, sample_stream [], Err (Protocol SendAfterClosing)) \<and>
   (let c = (new_context Client)\<lparr>ctx_state := ClosedByPeer\<rparr>; s = (sample_stream [])\<lparr>next_reads := \<lambda>n. Err ConnectionReset\<rparr> in
     ctx_read sample_target ascii_utf8 c s = Some (Done (c, after_reads 1 s, Err ConnectionClosed)) \<and>
     ctx_write sample_target c (after_reads 1 s) (Msg_Binary [1]) = Done (c, after_reads 1 s, Err (Protocol SendAfterClosing)))"
proof -
  have run: "ctx_run sample_target ascii_utf8 (new_context Client, sample_stream [])
     ((new_context Client)\<lparr>ctx_state := ClosedByUs\<rparr>, (sample_stream [])\<lparr>next_flushes := \<lambda>n. Ok ()\<rparr>)"
    unfolding ctx_run_def by (rule r_into_rtranclp) (rule ctx_step.Close [OF close_new_client])
  have none: "ctx_run sample_target ascii_utf8 (c, s) (c, s)" for c s by (simp add: ctx_run_def)
  from ws_state_forward [OF run, of "Msg_Binary [1]"]
    ws_state_forward [OF none [of "(new_context Client)\<lparr>ctx_state := ClosedByUs\<rparr>" "sample_stream []"], of "Msg_Binary [1]"]
    ws_state_forward [OF none [of "(new_context Client)\<lparr>ctx_state := ClosedByPeer\<rparr>"
      "(sample_stream [])\<lparr>next_reads := \<lambda>n. Err ConnectionReset\<rparr>"], of "Msg_Binary [1]"]
    run
  show ?thesis by (simp add: new_context_def Let_def)
qed

text \<open>
  C10: No byte that was queued is ever lost, changed or overtaken: over every sequence of calls, what the
  stream took and what is buffered together only grow at their end, even when writes fail or block in
  between, for every stream that takes no more than it is given.
\<close>
theorem ws_bytes_append_only:
  assumes "ctx_run t u (c, s) (c', s')" and "write_contract s"
  shows "prefix (sent_bytes s @ out_buffer (ctx_frame c)) (sent_bytes s' @ out_buffer (ctx_frame c')) \<and> write_contract s'"
  using ap.ctx_run_R [OF assms(1)] assms(2) by (simp add: appends_def queued_def)

theorem ws_bytes_append_only_witness:
  "\<exists>c' s'. ctx_run sample_target ascii_utf8 (new_context Client, slow_stream) (c', s') \<and>
     ctx_write sample_target (new_context Client) slow_stream (Msg_Ping [1, 2, 3]) = Done (c', s', Ok ()) \<and>
     prefix [] (sent_bytes s' @ out_buffer (ctx_frame c'))"
proof -
  have "\<exists>c' s'. ctx_write sample_target (new_context Client) slow_stream (Msg_Ping [1, 2, 3]) = Done (c', s', Ok ())"
    by (simp add: ctx_write_def write_frame_def raw_write_def write_additional_def buffer_frame_def codec_buffer_frame_def
        new_context_def wbind_def check_not_terminated_def is_active_def Frame_ping_def generate_mask_def
        Frame_len_def header_len_def usize_MAX_def for_length_def extra_bytes_def length_Frame_format [OF target_ok_sample]
        set_random_mask_def header_set_random_mask_def check_connection_reset_def FrameHeader_default_def)
  then obtain c' s' where w: "ctx_write sample_target (new_context Client) slow_stream (Msg_Ping [1, 2, 3]) = Done (c', s', Ok ())"
    by blast
  then have run: "ctx_run sample_target ascii_utf8 (new_context Client, slow_stream) (c', s')"
    unfolding ctx_run_def by (intro r_into_rtranclp ctx_step.Write)
  from ws_bytes_append_only [OF this slow_stream_ok] w run show ?thesis by (auto simp: slow_stream_def sample_stream_def new_context_def)
qed

text \<open>
  C11: A connection's memory is bounded by its configuration: after every sequence of calls on a new
  context the write buffer holds at most \<open>max_write_buffer_size\<close> bytes and the message under assembly
  at most \<open>max_message_size\<close>; a message that is handed over is at most that long, a ping or pong at most
  125 bytes and the reason of a close at most 123.
\<close>
theorem ws_bounds:
  assumes "target_ok t" and "utf8_sizes u" and "write_contract s" and "message_limit config \<le> usize_MAX"
    and "WebSocketContext_new role (Some config) = Done c" and "ctx_run t u (c, s) (c', s')"
  shows "length (out_buffer (ctx_frame c')) \<le> max_write_buffer_size config \<and>
    (case ctx_incomplete c' of None \<Rightarrow> True | Some m \<Rightarrow> collected_size m \<le> message_limit config) \<and>
    (ctx_read t u c' s' = Some (Done (c'', s'', Ok msg)) \<longrightarrow> message_bound config msg)"
proof -
  from assms(5) have c: "ctx_config c = config" and "bounded c"
    using assms(4) by (auto simp: WebSocketContext_new_def context_new_def xbind_eq_Done bounded_def FrameCodec_new_def
        set_max_out_buffer_len_def set_out_buffer_write_len_def Let_def)
  from fw.ctx_run_R [OF assms(6)] c have c': "ctx_config c' = config" by (simp add: forward_def)
  have b: "bounded c'" and w: "write_contract s'"
    using kb.ctx_run_R [OF assms(6)] assms(1-3) \<open>bounded c\<close> by (simp_all add: keeps_bounds_def)
  have "message_bound config msg" if r: "ctx_read t u c' s' = Some (Done (c'', s'', Ok msg))"
  proof -
    from r have "read_loop t u c' s' = Some (Done (c'', s'', Ok msg))"
      by (auto simp: ctx_read_def split: sum.splits)
    from kb.read_loop_ends [OF this] assms(1,2) b w obtain c0 s0 where
      c0: "bounded c0" "write_contract s0" "ctx_config c0 = config" "last_turn t u c0 s0 (Done (c'', s'', Ok msg))"
      by (auto simp: keeps_bounds_def c')
    from c0(4) obtain c1 s1 x where t: "before_read t c0 s0 = Done (c1, s1, Ok x)"
      "read_message_frame t u c1 s1 = Some (Done (c'', s'', Ok (Some msg)))"
      by (rule last_turn_OkE)
    from kb.before_read_R [OF t(1), of u] c0 assms(1,2) have "bounded c1" "write_contract s1" "ctx_config c1 = config"
      by (simp_all add: keeps_bounds_def)
    with read_message_frame_bound [OF assms(1,2) _ _ t(2)] show ?thesis by simp
  qed
  with b show ?thesis by (simp add: bounded_def c' split: option.splits)
qed

definition small_config :: WebSocketConfig where
  "small_config = WebSocketConfig_default\<lparr>write_buffer_size := 0, max_write_buffer_size := 16, max_message_size := Some 4\<rparr>"

theorem ws_bounds_witness:
  "\<exists>c c' s' ret. WebSocketContext_new Server (Some small_config) = Done c \<and>
     ctx_write sample_target c slow_stream (Msg_Binary [1, 2, 3]) = Done (c', s', ret) \<and>
     length (out_buffer (ctx_frame c')) \<le> 16"
proof -
  obtain c where c: "WebSocketContext_new Server (Some small_config) = Done c"
    by (simp add: WebSocketContext_new_def context_new_def assert_valid_def small_config_def)
  from safe_write [OF slow_stream_ok, of c sample_target "Msg_Binary [1, 2, 3]"] obtain c' s' ret where
    w: "ctx_write sample_target c slow_stream (Msg_Binary [1, 2, 3]) = Done (c', s', ret)" by (auto simp: safe_def)
  then have run: "ctx_run sample_target ascii_utf8 (c, slow_stream) (c', s')"
    unfolding ctx_run_def by (intro r_into_rtranclp ctx_step.Write)
  have "message_limit small_config \<le> usize_MAX" by (simp add: message_limit_def small_config_def usize_MAX_def)
  from ws_bounds [OF target_ok_sample utf8_sizes_ascii slow_stream_ok this c run] c w
  show ?thesis by (auto simp: small_config_def)
qed

text \<open>
  C12: Every call returns and none panics, for a stream that takes no more than it is given: writing,
  flushing and closing always, and reading whenever the stream does not deliver data without end, that
  is, at some point it blocks, fails or is closed; control frames and fragments in between, however
  many, do not keep \<open>read\<close> from returning.
\<close>
theorem ws_calls_return:
  assumes "write_contract s"
  shows "(\<exists>c' s' ret. ctx_write t c s m = Done (c', s', ret)) \<and>
    (\<exists>c' s' ret. ctx_flush t c s = Done (c', s', ret)) \<and>
    (\<exists>c' s' ret. ctx_close t c s cf = Done (c', s', ret)) \<and>
    (pauses_at s n \<longrightarrow> (\<exists>c' s' ret. ctx_read t u c s = Some (Done (c', s', ret))))"
proof (intro conjI impI)
  show "\<exists>c' s' ret. ctx_write t c s m = Done (c', s', ret)" using safe_write [OF assms, of c t m] by (auto simp: safe_def)
  show "\<exists>c' s' ret. ctx_flush t c s = Done (c', s', ret)" using safe_flush [OF assms, of c t] by (auto simp: safe_def)
  show "\<exists>c' s' ret. ctx_close t c s cf = Done (c', s', ret)" using safe_close [OF assms, of c t cf] by (auto simp: safe_def)
  show "\<exists>c' s' ret. ctx_read t u c s = Some (Done (c', s', ret))" if "pauses_at s n"
    using read_loop_total [OF that assms, of t u c] by (simp add: ctx_read_def check_not_terminated_def)
qed

theorem ws_calls_return_witness:
  "\<exists>c' s' ret. ctx_read sample_target ascii_utf8 (new_context Server) (sample_stream [[0x89, 0x80], [1, 2, 3, 4, 0x80]]) =
     Some (Done (c', s', ret))"
proof -
  let ?s = "sample_stream [[0x89, 0x80], [1, 2, 3, 4, 0x80]]"
  have "pauses_at ?s 2" by (simp add: pauses_at_def sample_stream_def)
  with ws_calls_return [OF sample_stream_ok(1), where t = sample_target and u = ascii_utf8 and c = "new_context Server" and n = 2]
  show ?thesis by blast
qed

end
