(* ===== verification/Ws_Exchange.thy ===== *)
theory Ws_Exchange
  imports Ws_Returns
begin

text \<open>
  Two websocket contexts that talk to each other: messages and fragmented messages sent by one are
  read by the other, and the closing handshake runs to its end. The bytes travel in any chunks.
\<close>

section \<open>Receiving one frame\<close>

text \<open>The frame \<open>g\<close> on the wire carries the unmasked frame \<open>f\<close> of a sender in role \<open>r\<close>.\<close>

definition carried :: "Role \<Rightarrow> Frame \<Rightarrow> Frame \<Rightarrow> bool" where
  "carried r f g \<longleftrightarrow> (case r of Server \<Rightarrow> g = f | Client \<Rightarrow> (\<exists>m. g = set_random_mask m f))"

text \<open>A frame without mask and extension bits that the configuration of the receiver admits.\<close>

definition plain_frame :: "WebSocketConfig \<Rightarrow> Frame \<Rightarrow> bool" where
  "plain_frame config f \<longleftrightarrow> frame_ok (max_frame_size config) f \<and> hmask (header f) = None \<and>
     \<not> rsv1 (header f) \<and> \<not> rsv2 (header f) \<and> \<not> rsv3 (header f)"

definition process_frame ::
  "target \<Rightarrow> utf8_crate \<Rightarrow> WebSocketContext \<Rightarrow> Frame \<Rightarrow> (WebSocketContext \<times> (Error + Message option)) exec" where
  "process_frame t u c f =
     (case opcode (header f) of OpControl ctl \<Rightarrow> control_frame t c ctl f | OpData d \<Rightarrow> Done (data_frame u c d f))"

lemma frame_out_carried: "carried (ctx_role c) f (frame_out c s f)"
  by (auto simp: carried_def frame_out_def split: Role.split)

lemma received_carried:
  assumes "target_ok t" and "carried r f g" and "plain_frame config f" and "ctx_role c \<noteq> r" and "can_read (ctx_state c)"
  shows "received_frame t u c (on_wire g) = process_frame t u c f"
proof (cases r)
  case Server
  with assms(2) have "g = f" by (simp add: carried_def)
  moreover from assms(4) Server have "ctx_role c = Client" by (cases "ctx_role c") simp_all
  moreover have "on_wire f = f" using assms(3) by (simp add: on_wire_def from_payload_def wire_payload_def plain_frame_def)
  ultimately show ?thesis
    using assms(3,5) by (simp add: received_frame_def unmask_def is_masked_def plain_frame_def process_frame_def)
next
  case Client
  with assms(2) obtain m where g: "g = set_random_mask m f" by (auto simp: carried_def)
  from assms(4) Client have role: "ctx_role c = Server" by (cases "ctx_role c") simp_all
  have "Frame_apply_mask t (on_wire g) = f"
    using assms(3) by (cases f, cases "header f")
      (simp add: Frame_apply_mask_eq [OF assms(1)] g on_wire_def from_payload_def wire_payload_def set_random_mask_def
        header_set_random_mask_def plain_frame_def)
  with role assms(3,5) show ?thesis
    by (simp add: received_frame_def unmask_def is_masked_def plain_frame_def process_frame_def g on_wire_def
        from_payload_def set_random_mask_def header_set_random_mask_def)
qed

lemma carried_frame_ok: "carried r f g \<Longrightarrow> plain_frame config f \<Longrightarrow> frame_ok (max_frame_size config) g"
  by (auto simp: carried_def plain_frame_def frame_ok_def set_random_mask_def header_set_random_mask_def
      split: Role.splits option.splits)

text \<open>One turn of the loop of \<open>read\<close> takes the next frame from the wire and processes it.\<close>

lemma read_carried:
  assumes "target_ok t" and "carried r f g" and "plain_frame (ctx_config c) f"
    and "ctx_role c \<noteq> r" and "can_read (ctx_state c)" and "codec_ok (ctx_frame c)"
    and "unread (ctx_frame c) @ concat chunks = Frame_format t g @ rest" and "delivers s chunks"
  shows "\<exists>k j. j \<le> length chunks \<and> unread k @ concat (drop j chunks) = rest \<and> codec_ok k \<and>
    out_buffer k = out_buffer (ctx_frame c) \<and> max_out_buffer_len k = max_out_buffer_len (ctx_frame c) \<and>
    read_message_frame t u c s =
      Some (xbind (process_frame t u (c\<lparr>ctx_frame := k\<rparr>) f) (\<lambda>(c, ret). Done (c, after_reads j s, ret)))"
proof -
  from read_frame_wire [OF assms(1) carried_frame_ok [OF assms(2,3)] assms(6-8)] obtain j q where
    j: "j \<le> length chunks" "q @ concat (drop j chunks) = rest"
    "read_frame (ctx_frame c) s (max_frame_size (ctx_config c)) =
      Some (Done ((ctx_frame c)\<lparr>in_buffer := q, codec_header := None\<rparr>, after_reads j s, Ok (Some (on_wire g))))" by blast
  let ?k = "(ctx_frame c)\<lparr>in_buffer := q, codec_header := None\<rparr>"
  have "received_frame t u (c\<lparr>ctx_frame := ?k\<rparr>) (on_wire g) = process_frame t u (c\<lparr>ctx_frame := ?k\<rparr>) f"
    using assms by (intro received_carried [of t r f g "ctx_config c"]) simp_all
  with j show ?thesis
    by (intro exI [of _ ?k] exI [of _ j]) (simp add: read_message_frame_def check_connection_reset_def unread_def codec_ok_def)
qed

lemma before_read_idle:
  "additional_send c = None \<Longrightarrow> can_read (ctx_state c) \<Longrightarrow> before_read t c s = Done (c, s, Ok ())"
  by (simp add: before_read_def)

section \<open>Fragmented messages\<close>

text \<open>The frames of a message cut into parts: the first has the type, the last the final bit.\<close>

fun fragments :: "Data \<Rightarrow> bytes list \<Rightarrow> Frame list" where
  "fragments d [] = []"
| "fragments d [p] = [Frame_message p (OpData d) True]"
| "fragments d (p # q # ps) = Frame_message p (OpData d) False # fragments Data_Continue (q # ps)"

definition part_ok :: "WebSocketConfig \<Rightarrow> bytes \<Rightarrow> bool" where
  "part_ok config p \<longleftrightarrow> length p < 2 ^ 64 \<and> (case max_frame_size config of None \<Rightarrow> True | Some k \<Rightarrow> length p \<le> k)"

lemma plain_Frame_message:
  "part_ok config p \<Longrightarrow> d \<in> {Data_Continue, Data_Text, Data_Binary} \<Longrightarrow> plain_frame config (Frame_message p (OpData d) fin)"
  by (auto simp: part_ok_def plain_frame_def frame_ok_def Frame_message_def FrameHeader_default_def is_reserved_def
      split: option.splits)

text \<open>The state of the receiver between the frames: the parts so far.\<close>

definition assembling :: "Data \<Rightarrow> bytes \<Rightarrow> IncompleteMessage option \<Rightarrow> bool" where
  "assembling d acc i \<longleftrightarrow> (d = Data_Binary \<and> acc = [] \<and> i = None) \<or> (d = Data_Continue \<and> i = Some (Collect_Binary acc))"

lemma data_frame_part:
  assumes "assembling d acc (ctx_incomplete c)" and "length acc + length p \<le> message_limit (ctx_config c)"
  shows "data_frame u c d (Frame_message p (OpData d) fin) =
    (if fin then (c\<lparr>ctx_incomplete := None\<rparr>, Ok (Some (Msg_Binary (acc @ p))))
     else (c\<lparr>ctx_incomplete := Some (Collect_Binary (acc @ p))\<rparr>, Ok None))"
proof -
  have "IncompleteMessage_extend u (Collect_Binary acc) p (max_message_size (ctx_config c)) = (Collect_Binary (acc @ p), Ok ())"
    using assms(2) by (auto simp: IncompleteMessage_extend_def IncompleteMessage_len_def message_limit_def Let_def)
  moreover have "d = Data_Binary \<Longrightarrow> c\<lparr>ctx_incomplete := None\<rparr> = c" using assms(1) by (auto simp: assembling_def)
  ultimately show ?thesis
    using assms(1) by (auto simp: data_frame_def assembling_def Frame_message_def IncompleteMessage_new_def complete_def)
qed

lemma read_fragments:
  assumes "target_ok t" and "list_all2 (carried r) (fragments d parts) gs" and "parts \<noteq> []"
    and "ctx_role c \<noteq> r" and "can_read (ctx_state c)" and "additional_send c = None" and "codec_ok (ctx_frame c)"
    and "assembling d acc (ctx_incomplete c)" and "length acc + length (concat parts) \<le> message_limit (ctx_config c)"
    and "\<forall>p \<in> set parts. part_ok (ctx_config c) p"
    and "unread (ctx_frame c) @ concat chunks = concat (map (Frame_format t) gs) @ rest" and "delivers s chunks"
  shows "\<exists>k j. j \<le> length chunks \<and> unread k @ concat (drop j chunks) = rest \<and> codec_ok k \<and>
    read_loop t u c s =
      Some (Done (c\<lparr>ctx_frame := k, ctx_incomplete := None\<rparr>, after_reads j s, Ok (Msg_Binary (acc @ concat parts))))"
  using assms(2-)
proof (induction d parts arbitrary: gs c s chunks acc rule: fragments.induct)
  case (2 d p)
  then obtain g where g: "gs = [g]" "carried r (Frame_message p (OpData d) True) g"
    by (auto simp: list_all2_Cons1)
  have d: "d \<in> {Data_Continue, Data_Text, Data_Binary}" using 2 by (auto simp: assembling_def)
  have "plain_frame (ctx_config c) (Frame_message p (OpData d) True)" using 2 d by (intro plain_Frame_message) simp_all
  from read_carried [OF assms(1) g(2) this, of chunks rest s u] 2 g(1) obtain k j where
    k: "j \<le> length chunks" "unread k @ concat (drop j chunks) = rest" "codec_ok k"
    "read_message_frame t u c s = Some (xbind (process_frame t u (c\<lparr>ctx_frame := k\<rparr>) (Frame_message p (OpData d) True))
       (\<lambda>(c, ret). Done (c, after_reads j s, ret)))" by auto
  moreover have "process_frame t u (c\<lparr>ctx_frame := k\<rparr>) (Frame_message p (OpData d) True) =
      Done (c\<lparr>ctx_frame := k, ctx_incomplete := None\<rparr>, Ok (Some (Msg_Binary (acc @ p))))"
    using data_frame_part [of d acc "c\<lparr>ctx_frame := k\<rparr>" p u True] 2 by (simp add: process_frame_def Frame_message_def)
  ultimately show ?case
    using before_read_idle [of c t s] 2 by (intro exI [of _ k] exI [of _ j]) (simp add: read_loop.simps)
next
  case (3 d p q ps)
  then obtain g gs' where g: "gs = g # gs'" "carried r (Frame_message p (OpData d) False) g"
    "list_all2 (carried r) (fragments Data_Continue (q # ps)) gs'"
    by (auto simp: list_all2_Cons1)
  have d: "d \<in> {Data_Continue, Data_Text, Data_Binary}" using 3 by (auto simp: assembling_def)
  have "plain_frame (ctx_config c) (Frame_message p (OpData d) False)" using 3 d by (intro plain_Frame_message) simp_all
  from read_carried [OF assms(1) g(2) this, of chunks "concat (map (Frame_format t) gs') @ rest" s u] 3 g(1) obtain k j where
    k: "j \<le> length chunks" "unread k @ concat (drop j chunks) = concat (map (Frame_format t) gs') @ rest" "codec_ok k"
    "read_message_frame t u c s = Some (xbind (process_frame t u (c\<lparr>ctx_frame := k\<rparr>) (Frame_message p (OpData d) False))
       (\<lambda>(c, ret). Done (c, after_reads j s, ret)))" by auto
  let ?c = "c\<lparr>ctx_frame := k, ctx_incomplete := Some (Collect_Binary (acc @ p))\<rparr>"
  have "process_frame t u (c\<lparr>ctx_frame := k\<rparr>) (Frame_message p (OpData d) False) = Done (?c, Ok None)"
    using data_frame_part [of d acc "c\<lparr>ctx_frame := k\<rparr>" p u False] 3 by (simp add: process_frame_def Frame_message_def)
  with k(4) before_read_idle [of c t s] 3 have loop: "read_loop t u c s = read_loop t u ?c (after_reads j s)"
    by (subst read_loop.simps) simp
  have "\<exists>k' j'. j' \<le> length (drop j chunks) \<and> unread k' @ concat (drop j' (drop j chunks)) = rest \<and> codec_ok k' \<and>
    read_loop t u ?c (after_reads j s) = Some (Done (?c\<lparr>ctx_frame := k', ctx_incomplete := None\<rparr>,
      after_reads j' (after_reads j s), Ok (Msg_Binary ((acc @ p) @ concat (q # ps)))))"
    by (rule "3.IH" [OF g(3)]) (use 3 k delivers_drop in \<open>simp_all add: assembling_def\<close>)
  then obtain k' j' where "j' \<le> length (drop j chunks)" "unread k' @ concat (drop j' (drop j chunks)) = rest" "codec_ok k'"
    "read_loop t u ?c (after_reads j s) = Some (Done (?c\<lparr>ctx_frame := k', ctx_incomplete := None\<rparr>,
      after_reads j' (after_reads j s), Ok (Msg_Binary ((acc @ p) @ concat (q # ps)))))" by blast
  with loop k(1) show ?case by (intro exI [of _ k'] exI [of _ "j + j'"]) (simp add: add.commute)
qed simp

section \<open>Sending\<close>

definition message_frame :: "Message \<Rightarrow> Frame" where
  "message_frame m = (case m of Msg_Text x \<Rightarrow> Frame_message x (OpData Data_Text) True
     | Msg_Binary x \<Rightarrow> Frame_message x (OpData Data_Binary) True | _ \<Rightarrow> Frame_ping [])"

definition is_data :: "Message \<Rightarrow> bool" where
  "is_data m \<longleftrightarrow> (case m of Msg_Text _ \<Rightarrow> True | Msg_Binary _ \<Rightarrow> True | _ \<Rightarrow> False)"

text \<open>A context with nothing pending that may send.\<close>

definition sending :: "WebSocketContext \<Rightarrow> bool" where
  "sending c \<longleftrightarrow> ctx_state c = Active \<and> additional_send c = None"

lemma raw_write_idle:
  "additional_send c = None \<Longrightarrow> can_read (ctx_state c) \<Longrightarrow> raw_write t c s None = Done (c, s, Ok False)"
  by (simp add: raw_write_def write_additional_def wbind_def)

lemma raw_write_frame:
  assumes "additional_send c = None" and "can_read (ctx_state c)" and "write_contract s"
    and "raw_write t c s (Some f) = Done (c', s', Ok b)"
  obtains out where "c' = c\<lparr>ctx_frame := (ctx_frame c)\<lparr>out_buffer := out\<rparr>\<rparr>" "write_contract s'" "b = False"
    "sent_bytes s' @ out = queued (c, s) @ Frame_format t (frame_out c s f)"
proof (cases rule: buffer_frame_effect [OF assms(3), of t c f])
  case (1 s1)
  with assms(4) show thesis by (simp add: raw_write_def wbind_def)
next
  case (2 out s1 ret)
  show thesis
  proof (cases ret)
    case (Inl e)
    with assms(4) 2(1) show thesis by (simp add: raw_write_def wbind_def)
  next
    case (Inr x)
    with assms 2 show thesis by (intro that [of out]) (simp_all add: raw_write_def wbind_def write_additional_def)
  qed
qed

lemma flush_idle:
  assumes "additional_send c = None" and "can_read (ctx_state c)" and "write_contract s"
    and "ctx_flush t c s = Done (c', s', Ok ())"
  shows "c' = c\<lparr>ctx_frame := (ctx_frame c)\<lparr>out_buffer := []\<rparr>\<rparr>" "write_contract s'" "sent_bytes s' = queued (c, s)"
proof -
  obtain out s1 ret where w: "ctx_write_out_buffer c s = Done (c\<lparr>ctx_frame := (ctx_frame c)\<lparr>out_buffer := out\<rparr>\<rparr>, s1, ret)"
    "write_contract s1" "sent_bytes s1 @ out = queued (c, s)" "ret = Ok () \<longleftrightarrow> out = []"
    by (rule ctx_write_out_buffer_effect [OF assms(3), of c]) blast
  from assms(4) w(1) have ret: "ret = Ok ()"
    by (cases ret) (simp_all add: ctx_flush_def raw_write_idle [OF assms(1,2)] wbind_def)
  with assms(4) w show "c' = c\<lparr>ctx_frame := (ctx_frame c)\<lparr>out_buffer := []\<rparr>\<rparr>" "write_contract s'" "sent_bytes s' = queued (c, s)"
    by (auto simp: ctx_flush_def raw_write_idle [OF assms(1,2)] wbind_def stream_flush_def write_contract_def)
qed

lemma send_message:
  assumes "sending c" and "write_contract s" and "is_data m" and "ctx_send t c s m = Done (c', s', Ok ())"
  shows "sent_bytes s' = queued (c, s) @ Frame_format t (frame_out c s (message_frame m))"
    and "c' = c\<lparr>ctx_frame := (ctx_frame c)\<lparr>out_buffer := []\<rparr>\<rparr>" and "write_contract s'"
proof -
  have c: "additional_send c = None" "can_read (ctx_state c)" using assms(1) by (simp_all add: sending_def can_read_def)
  have "ctx_write t c s m = write_frame t c s (message_frame m)"
    using assms(1,3) by (simp add: ctx_write_def sending_def check_not_terminated_def is_active_def is_data_def message_frame_def
        split: Message.splits)
  then have "wbind (write_frame t c s (message_frame m)) (\<lambda>c s _. ctx_flush t c s) = Done (c', s', Ok ())"
    using assms(4) by (simp add: ctx_send_def)
  then obtain c1 s1 where w: "write_frame t c s (message_frame m) = Done (c1, s1, Ok ())" "ctx_flush t c1 s1 = Done (c', s', Ok ())"
    by (rule wbind_Done) auto
  from w(1) obtain c2 s2 b where r: "raw_write t c s (Some (message_frame m)) = Done (c2, s2, Ok b)"
    and rest: "(if b then ctx_flush t c2 s2 else Done (c2, s2, Ok ())) = Done (c1, s1, Ok ())"
    unfolding write_frame_def by (rule wbind_Done) auto
  from raw_write_frame [OF c assms(2) r] obtain out where out: "c2 = c\<lparr>ctx_frame := (ctx_frame c)\<lparr>out_buffer := out\<rparr>\<rparr>"
    "write_contract s2" "\<not> b" "sent_bytes s2 @ out = queued (c, s) @ Frame_format t (frame_out c s (message_frame m))" by auto
  with rest have "c1 = c2" "s1 = s2" by simp_all
  with flush_idle [of c1 s1, OF _ _ _ w(2)] out c show
    "sent_bytes s' = queued (c, s) @ Frame_format t (frame_out c s (message_frame m))"
    "c' = c\<lparr>ctx_frame := (ctx_frame c)\<lparr>out_buffer := []\<rparr>\<rparr>" "write_contract s'" by simp_all
qed

fun send_all :: "target \<Rightarrow> WebSocketContext \<Rightarrow> wstream \<Rightarrow> Message list \<Rightarrow> unit step" where
  "send_all t c s [] = Done (c, s, Ok ())"
| "send_all t c s (m # ms) = wbind (ctx_send t c s m) (\<lambda>c s _. send_all t c s ms)"

fun read_all :: "nat \<Rightarrow> target \<Rightarrow> utf8_crate \<Rightarrow> WebSocketContext \<Rightarrow> wstream \<Rightarrow>
    (WebSocketContext \<times> wstream \<times> (Error + Message) list) exec option" where
  "read_all 0 t u c s = Some (Done (c, s, []))"
| "read_all (Suc n) t u c s =
     obind (ctx_read t u c s) (\<lambda>(c, s, ret).
     obind (read_all n t u c s) (\<lambda>(c, s, rets). Some (Done (c, s, ret # rets))))"

lemma send_all_wire:
  assumes "sending c" and "write_contract s" and "\<forall>m \<in> set ms. is_data m" and "send_all t c s ms = Done (c', s', Ok ())"
    and "out_buffer (ctx_frame c) = []"
  shows "\<exists>gs. list_all2 (carried (ctx_role c)) (map message_frame ms) gs \<and>
    sent_bytes s' = sent_bytes s @ concat (map (Frame_format t) gs)"
  using assms
proof (induction ms arbitrary: c s)
  case (Cons m ms)
  from Cons.prems(4) obtain c1 s1 where
    s1: "ctx_send t c s m = Done (c1, s1, Ok ())" "send_all t c1 s1 ms = Done (c', s', Ok ())"
    unfolding send_all.simps by (rule wbind_Done) auto
  from Cons.prems(3) have "is_data m" by simp
  note one = send_message [OF Cons.prems(1,2) this s1(1)]
  from Cons.IH [of c1 s1] one s1(2) Cons.prems obtain gs where
    "list_all2 (carried (ctx_role c)) (map message_frame ms) gs" "sent_bytes s' = sent_bytes s1 @ concat (map (Frame_format t) gs)"
    by (auto simp: sending_def)
  with one Cons.prems(5) frame_out_carried show ?case
    by (intro exI [of _ "frame_out c s (message_frame m) # gs"]) (simp add: queued_def)
qed simp

section \<open>Messages arrive\<close>

text \<open>A context between messages, and the messages its configuration and the decoder of text admit.\<close>

definition idle :: "WebSocketContext \<Rightarrow> bool" where
  "idle c \<longleftrightarrow> ctx_state c = Active \<and> additional_send c = None \<and> ctx_incomplete c = None \<and>
     codec_ok (ctx_frame c) \<and> unread (ctx_frame c) = []"

definition admits :: "utf8_crate \<Rightarrow> WebSocketConfig \<Rightarrow> Message \<Rightarrow> bool" where
  "admits u config m \<longleftrightarrow>
     (case m of
        Msg_Text x \<Rightarrow> (x = [] \<or> utf8_decode u x = Decoded x) \<and> part_ok config x \<and> length x \<le> message_limit config
      | Msg_Binary x \<Rightarrow> part_ok config x \<and> length x \<le> message_limit config
      | _ \<Rightarrow> False)"

lemma data_frame_whole:
  assumes "admits u (ctx_config c) m" and "ctx_incomplete c = None"
  shows "process_frame t u c (message_frame m) = Done (c, Ok (Some m))"
  using assms
  by (auto simp: admits_def process_frame_def message_frame_def Frame_message_def data_frame_def IncompleteMessage_extend_def
      IncompleteMessage_len_def IncompleteMessage_new_def message_limit_def Message_len_def Let_def complete_def
      StringCollector_len_def StringCollector_new_def StringCollector_extend_def decode_rest_def into_string_def
      split: Message.splits)

lemma read_message:
  assumes "target_ok t" and "carried r (message_frame m) g" and "ctx_role c \<noteq> r" and "admits u (ctx_config c) m"
    and "ctx_state c = Active" "additional_send c = None" "ctx_incomplete c = None" "codec_ok (ctx_frame c)"
    and "unread (ctx_frame c) @ concat chunks = Frame_format t g @ rest" and "delivers s chunks"
  shows "\<exists>k j. j \<le> length chunks \<and> unread k @ concat (drop j chunks) = rest \<and> codec_ok k \<and>
    ctx_read t u c s = Some (Done (c\<lparr>ctx_frame := k\<rparr>, after_reads j s, Ok m))"
proof -
  have "plain_frame (ctx_config c) (message_frame m)"
    using assms(4) by (auto simp: admits_def message_frame_def Message_len_def intro!: plain_Frame_message split: Message.splits)
  from read_carried [OF assms(1,2) this assms(3) _ assms(8-10), of u] assms(5) obtain k j where
    k: "j \<le> length chunks" "unread k @ concat (drop j chunks) = rest" "codec_ok k"
    "read_message_frame t u c s =
      Some (xbind (process_frame t u (c\<lparr>ctx_frame := k\<rparr>) (message_frame m)) (\<lambda>(c, ret). Done (c, after_reads j s, ret)))"
    by (auto simp: can_read_def)
  with data_frame_whole [of u "c\<lparr>ctx_frame := k\<rparr>" m t] assms(4-7) before_read_idle [of c t s] show ?thesis
    by (intro exI [of _ k] exI [of _ j]) (simp add: ctx_read_def check_not_terminated_def read_loop.simps can_read_def)
qed

lemma read_all_wire:
  assumes "target_ok t" and "list_all2 (carried r) (map message_frame ms) gs" and "ctx_role c \<noteq> r"
    and "\<forall>m \<in> set ms. admits u (ctx_config c) m"
    and "ctx_state c = Active" "additional_send c = None" "ctx_incomplete c = None" "codec_ok (ctx_frame c)"
    and "unread (ctx_frame c) @ concat chunks = concat (map (Frame_format t) gs)" and "delivers s chunks"
  shows "\<exists>c' s'. read_all (length ms) t u c s = Some (Done (c', s', map Ok ms)) \<and> idle c'"
  using assms(2-)
proof (induction ms arbitrary: gs c s chunks)
  case Nil
  then show ?case by (auto simp: idle_def)
next
  case (Cons m ms)
  then obtain g gs' where g: "gs = g # gs'" "carried r (message_frame m) g" "list_all2 (carried r) (map message_frame ms) gs'"
    by (auto simp: list_all2_Cons1)
  from read_message [OF assms(1) g(2) Cons.prems(2), of u chunks "concat (map (Frame_format t) gs')" s] Cons.prems g(1)
  obtain k j where k: "j \<le> length chunks" "unread k @ concat (drop j chunks) = concat (map (Frame_format t) gs')" "codec_ok k"
    "ctx_read t u c s = Some (Done (c\<lparr>ctx_frame := k\<rparr>, after_reads j s, Ok m))" by auto
  have "\<exists>c' s'. read_all (length ms) t u (c\<lparr>ctx_frame := k\<rparr>) (after_reads j s) = Some (Done (c', s', map Ok ms)) \<and> idle c'"
    by (rule Cons.IH [OF g(3)]) (use Cons.prems k delivers_drop in simp_all)
  with k(4) show ?case by auto
qed

section \<open>Streams that take everything\<close>

definition takes_all :: "wstream \<Rightarrow> bool" where
  "takes_all s \<longleftrightarrow> (\<forall>n bs. next_writes s n bs = Ok (length bs)) \<and> (\<forall>n. next_flushes s n = Ok ())"

lemma takes_all_sample: "takes_all (sample_stream chunks)"
  by (simp add: takes_all_def sample_stream_def)

lemma takes_all_flush: "takes_all s \<Longrightarrow> stream_flush s = (s, Ok ())"
  by (cases s) (simp add: takes_all_def stream_flush_def fun_eq_iff)

lemma write_out_takes_all:
  assumes "takes_all s"
  obtains s' where "write_out_buffer k s = Done (k\<lparr>out_buffer := []\<rparr>, s', Ok ())" "takes_all s'"
    "sent_bytes s' = sent_bytes s @ out_buffer k" "next_reads s' = next_reads s"
proof (cases "out_buffer k = []")
  case True
  then have "k\<lparr>out_buffer := []\<rparr> = k" by (cases k) simp
  with assms True show thesis by (intro that [of s]) (simp_all add: write_out_buffer_def write_out_loop.simps)
next
  case False
  let ?s = "s\<lparr>next_writes := \<lambda>n. next_writes s (Suc n), sent_bytes := sent_bytes s @ out_buffer k\<rparr>"
  have "stream_write s (out_buffer k) = (?s, Ok (length (out_buffer k)))"
    using assms by (simp add: stream_write_def takes_all_def)
  with False have "write_out_loop (out_buffer k) s = Done ([], ?s, Ok ())"
    by (subst write_out_loop.simps) (simp add: write_out_loop.simps)
  with assms show thesis by (intro that [of ?s]) (simp_all add: write_out_buffer_def takes_all_def)
qed

lemma buffer_frame_takes_all:
  assumes "takes_all s" and "fits c (frame_out c s f)"
  obtains out s' where "buffer_frame t c s f = Done (c\<lparr>ctx_frame := (ctx_frame c)\<lparr>out_buffer := out\<rparr>\<rparr>, s', Ok ())" "takes_all s'"
    "sent_bytes s' @ out = queued (c, s) @ Frame_format t (frame_out c s f)" "next_reads s' = next_reads s"
proof -
  let ?f = "frame_out c s f"
  let ?k = "(ctx_frame c)\<lparr>out_buffer := out_buffer (ctx_frame c) @ Frame_format t ?f\<rparr>"
  obtain s1 where s1: "(case ctx_role c of Server \<Rightarrow> (s, f)
      | Client \<Rightarrow> (case generate_mask s of (s, m) \<Rightarrow> (s, set_random_mask m f))) = (s1, ?f)"
    and same: "takes_all s1" "next_reads s1 = next_reads s" "sent_bytes s1 = sent_bytes s"
    using assms(1) by (cases "ctx_role c") (auto simp: frame_out_def generate_mask_def takes_all_def)
  obtain s2 where s2: "write_out_buffer ?k s1 = Done (?k\<lparr>out_buffer := []\<rparr>, s2, Ok ())" "takes_all s2"
    "sent_bytes s2 = sent_bytes s1 @ out_buffer ?k" "next_reads s2 = next_reads s1"
    by (rule write_out_takes_all [OF same(1), of ?k])
  show thesis
  proof (cases "out_buffer_write_len (ctx_frame c) < length (out_buffer ?k)")
    case True
    with assms(2) s1 s2 same show thesis
      by (intro that [of "[]" s2]) (simp_all add: buffer_frame_def codec_buffer_frame_def fits_def queued_def check_connection_reset_def)
  next
    case False
    with assms(2) s1 same show thesis
      by (intro that [of "out_buffer ?k" s1]) (simp_all add: buffer_frame_def codec_buffer_frame_def fits_def queued_def check_connection_reset_def)
  qed
qed

section \<open>Closing\<close>

text \<open>A close frame with a code and a short reason, and a buffer with room for it.\<close>

definition close_frame :: "target \<Rightarrow> u16 \<Rightarrow> bytes \<Rightarrow> Frame" where
  "close_frame t n x = \<lparr>header = FrameHeader_default, payload = prepend_u16 t n x\<rparr>"

definition roomy :: "WebSocketContext \<Rightarrow> bool" where
  "roomy c \<longleftrightarrow> length (out_buffer (ctx_frame c)) + 131 \<le> max_out_buffer_len (ctx_frame c) \<and>
     (case max_frame_size (ctx_config c) of None \<Rightarrow> True | Some k \<Rightarrow> 125 \<le> k)"

definition close_with :: "u16 \<Rightarrow> bytes \<Rightarrow> CloseFrame" where
  "close_with n x = \<lparr>code = CloseCode_from_u16 n, reason = x\<rparr>"

lemma Frame_close_Some:
  "Frame_close t (Some \<lparr>code = CloseCode_from_u16 n, reason = x\<rparr>) = Some (close_frame t n x)"
  by (simp add: Frame_close_def close_frame_def u16_from_CloseCode_def CloseCode_from_u16_def)

lemma close_frame_fits:
  assumes "target_ok t" and "roomy c" and "length x \<le> 123"
  shows "fits c (frame_out c s (close_frame t n x))"
proof -
  have "length (prepend_u16 t n x) = length x + 2" using assms(1) by (simp add: target_ok_def)
  moreover have "(of_nat (length x + 2) :: u64) < 126"
    unfolding word_less_nat_alt unat_of_nat using assms(3) by simp
  ultimately show ?thesis
    using assms(2,3)
    by (auto simp: fits_def roomy_def frame_out_def close_frame_def Frame_len_def header_len_def for_length_def extra_bytes_def
        set_random_mask_def header_set_random_mask_def FrameHeader_default_def split: Role.split)
qed

lemma close_frame_plain:
  "target_ok t \<Longrightarrow> roomy c \<Longrightarrow> length x \<le> 123 \<Longrightarrow> plain_frame (ctx_config c) (close_frame t n x)"
  by (auto simp: plain_frame_def frame_ok_def close_frame_def FrameHeader_default_def is_reserved_def roomy_def target_ok_def
      split: option.splits)

lemma process_close:
  assumes "target_ok t" and "length x \<le> 123"
  shows "process_frame t u c (close_frame t n x) =
    xbind (do_close t c (Some \<lparr>code = CloseCode_from_u16 n, reason = x\<rparr>)) (\<lambda>(c, ret). Done (c, Ok (map_option Msg_Close ret)))"
proof -
  have "length (prepend_u16 t n x) = length x + 2" "read_u16 t (prepend_u16 t n x) = (n, x)"
    using assms(1) by (simp_all add: target_ok_def)
  with assms(2) show ?thesis
    by (simp add: process_frame_def close_frame_def control_frame_def FrameHeader_default_def into_close_def)
qed

text \<open>The side that closes.\<close>

lemma close_sends:
  assumes "target_ok t" and "sending c" and "roomy c" and "takes_all s" and "length x \<le> 123"
  obtains s' where "ctx_close t c s (Some \<lparr>code = CloseCode_from_u16 n, reason = x\<rparr>) =
      Done (c\<lparr>ctx_state := ClosedByUs, ctx_frame := (ctx_frame c)\<lparr>out_buffer := []\<rparr>\<rparr>, s', Ok ())"
    "sent_bytes s' = queued (c, s) @ Frame_format t (frame_out c s (close_frame t n x))" "takes_all s'"
proof -
  let ?c = "c\<lparr>ctx_state := ClosedByUs\<rparr>"
  have out: "frame_out ?c s (close_frame t n x) = frame_out c s (close_frame t n x)" by (simp add: frame_out_def)
  have "fits ?c (frame_out ?c s (close_frame t n x))"
    using close_frame_fits [OF assms(1,3,5), of s n] by (simp add: fits_def out)
  then obtain out s1 where b: "buffer_frame t ?c s (close_frame t n x) = Done (?c\<lparr>ctx_frame := (ctx_frame c)\<lparr>out_buffer := out\<rparr>\<rparr>, s1, Ok ())"
    "takes_all s1" "sent_bytes s1 @ out = queued (c, s) @ Frame_format t (frame_out c s (close_frame t n x))"
    by (rule buffer_frame_takes_all [OF assms(4), where c = ?c]) (simp add: out)
  let ?c1 = "?c\<lparr>ctx_frame := (ctx_frame c)\<lparr>out_buffer := out\<rparr>\<rparr>"
  obtain s2 where w: "write_out_buffer (ctx_frame ?c1) s1 = Done ((ctx_frame ?c1)\<lparr>out_buffer := []\<rparr>, s2, Ok ())" "takes_all s2"
    "sent_bytes s2 = sent_bytes s1 @ out"
    by (rule write_out_takes_all [OF b(2), of "ctx_frame ?c1"]) simp
  have "raw_write t ?c s (Some (close_frame t n x)) = Done (?c1, s1, Ok False)"
    using b(1) assms(2) by (simp add: raw_write_def wbind_def write_additional_def sending_def can_read_def)
  moreover have "ctx_flush t ?c1 s1 = Done (?c1\<lparr>ctx_frame := (ctx_frame ?c1)\<lparr>out_buffer := []\<rparr>\<rparr>, s2, Ok ())"
    using w assms(2) takes_all_flush [OF w(2)]
    by (simp add: ctx_flush_def raw_write_idle wbind_def ctx_write_out_buffer_def sending_def can_read_def)
  ultimately have "ctx_close t c s (Some \<lparr>code = CloseCode_from_u16 n, reason = x\<rparr>) =
      Done (c\<lparr>ctx_state := ClosedByUs, ctx_frame := (ctx_frame c)\<lparr>out_buffer := []\<rparr>\<rparr>, s2, Ok ())"
    using assms(2) by (simp add: ctx_close_def Frame_close_Some wbind_def sending_def)
  with w b(3) show thesis by (intro that [of s2]) simp_all
qed

text \<open>The server that answers a close ends the connection with its next read.\<close>

lemma server_answers:
  assumes "target_ok t" and "ctx_role c = Server" and "ctx_state c = ClosedByPeer" and "roomy c" and "takes_all s"
    and "length x \<le> 123" and "additional_send c = Some (close_frame t n x)"
  obtains c' s' where "ctx_read t u c s = Some (Done (c', s', Err ConnectionClosed))" "ctx_state c' = Terminated"
    "sent_bytes s' = queued (c, s) @ Frame_format t (close_frame t n x)"
proof -
  let ?c = "c\<lparr>additional_send := None\<rparr>"
  have out: "frame_out ?c s (close_frame t n x) = close_frame t n x" using assms(2) by (simp add: frame_out_def)
  have "fits ?c (frame_out ?c s (close_frame t n x))"
    using close_frame_fits [OF assms(1,4,6), of s n] assms(2) by (simp add: fits_def frame_out_def)
  then obtain out s1 where b: "buffer_frame t ?c s (close_frame t n x) = Done (?c\<lparr>ctx_frame := (ctx_frame c)\<lparr>out_buffer := out\<rparr>\<rparr>, s1, Ok ())"
    "takes_all s1" "sent_bytes s1 @ out = queued (c, s) @ Frame_format t (close_frame t n x)"
    by (rule buffer_frame_takes_all [OF assms(5), where c = ?c]) (simp add: out)
  let ?c1 = "?c\<lparr>ctx_frame := (ctx_frame c)\<lparr>out_buffer := out\<rparr>\<rparr>"
  obtain s2 where w: "write_out_buffer (ctx_frame ?c1) s1 = Done ((ctx_frame ?c1)\<lparr>out_buffer := []\<rparr>, s2, Ok ())"
    "sent_bytes s2 = sent_bytes s1 @ out"
    by (rule write_out_takes_all [OF b(2), of "ctx_frame ?c1"]) simp
  let ?c2 = "?c1\<lparr>ctx_frame := (ctx_frame ?c1)\<lparr>out_buffer := []\<rparr>, ctx_state := Terminated\<rparr>"
  have "raw_write t c s None = Done (?c2, s2, Err ConnectionClosed)"
    using b(1) w(1) assms(2,3,7)
    by (simp add: raw_write_def wbind_def write_additional_def ctx_write_out_buffer_def can_read_def)
  then have "before_read t c s = Done (?c2, s2, Err ConnectionClosed)"
    using assms(7) by (simp add: before_read_def ctx_flush_def wbind_def no_block_def into_non_blocking_def)
  then have "ctx_read t u c s = Some (Done (?c2, s2, Err ConnectionClosed))"
    using assms(3) by (simp add: ctx_read_def check_not_terminated_def read_loop.simps)
  with w b(3) show thesis by (intro that [of ?c2 s2]) simp_all
qed

text \<open>Reading a close frame.\<close>

lemma read_close:
  assumes "target_ok t" and "carried r (close_frame t n x) g" and "ctx_role c \<noteq> r" and "can_read (ctx_state c)"
    and "additional_send c = None" and "roomy c" and "length x \<le> 123" and "codec_ok (ctx_frame c)"
    and "unread (ctx_frame c) @ concat chunks = Frame_format t g" and "delivers s chunks"
    and "is_allowed (CloseCode_from_u16 n)"
  shows "\<exists>c' s'. ctx_read t u c s = Some (Done (c', s', Ok (Msg_Close (Some \<lparr>code = CloseCode_from_u16 n, reason = x\<rparr>)))) \<and>
    (ctx_state c = Active \<longrightarrow> ctx_state c' = ClosedByPeer \<and> additional_send c' = Some (close_frame t n x)) \<and>
    (ctx_state c = ClosedByUs \<longrightarrow> ctx_state c' = CloseAcknowledged) \<and>
    ctx_role c' = ctx_role c \<and> roomy c' \<and> (takes_all s \<longrightarrow> takes_all s') \<and> queued (c', s') = queued (c, s)"
proof -
  let ?cf = "\<lparr>code = CloseCode_from_u16 n, reason = x\<rparr>"
  from read_carried [OF assms(1,2) close_frame_plain [OF assms(1,6,7)] assms(3,4,8), of chunks "[]" s u] assms(9,10)
  obtain k j where k: "out_buffer k = out_buffer (ctx_frame c)" "max_out_buffer_len k = max_out_buffer_len (ctx_frame c)"
    "read_message_frame t u c s =
      Some (xbind (process_frame t u (c\<lparr>ctx_frame := k\<rparr>) (close_frame t n x)) (\<lambda>(c, ret). Done (c, after_reads j s, ret)))"
    by auto
  let ?c = "if ctx_state c = Active
    then c\<lparr>ctx_frame := k, ctx_state := ClosedByPeer, additional_send := Some (close_frame t n x)\<rparr>
    else c\<lparr>ctx_frame := k, ctx_state := CloseAcknowledged\<rparr>"
  have "do_close t (c\<lparr>ctx_frame := k\<rparr>) (Some ?cf) = Done (?c, Some (Some ?cf))"
    using assms(4,5,11) by (cases "ctx_state c") (simp_all add: do_close_def can_read_def Frame_close_Some set_additional_def Let_def)
  then have "read_message_frame t u c s = Some (Done (?c, after_reads j s, Ok (Some (Msg_Close (Some ?cf)))))"
    using k(3) process_close [OF assms(1,7)] by simp
  then have read: "ctx_read t u c s = Some (Done (?c, after_reads j s, Ok (Msg_Close (Some ?cf))))"
    using before_read_idle [OF assms(5,4), of t s] assms(4)
    by (auto simp: ctx_read_def check_not_terminated_def can_read_def read_loop.simps)
  show ?thesis
    by (intro exI, rule conjI [OF read]) (use k(1,2) assms(6) in \<open>auto simp: roomy_def queued_def takes_all_def after_reads_def split: option.splits\<close>)
qed

lemma client_acknowledged:
  assumes "target_ok t" and "idle c" and "ctx_role c = Client" and "roomy c" and "length x \<le> 123"
    and "is_allowed (CloseCode_from_u16 n)" and "delivers s chunks" and "concat chunks = Frame_format t (close_frame t n x)"
  defines "c1 \<equiv> c\<lparr>ctx_state := ClosedByUs, ctx_frame := (ctx_frame c)\<lparr>out_buffer := []\<rparr>\<rparr>"
  shows "\<exists>c2 s2. ctx_read t u c1 s = Some (Done (c2, s2, Ok (Msg_Close (Some \<lparr>code = CloseCode_from_u16 n, reason = x\<rparr>)))) \<and>
    ctx_state c2 = CloseAcknowledged"
proof -
  have c1: "can_read (ctx_state c1)" "additional_send c1 = None" "roomy c1" "codec_ok (ctx_frame c1)" "ctx_role c1 \<noteq> Server"
    "unread (ctx_frame c1) @ concat chunks = Frame_format t (close_frame t n x)" "ctx_state c1 = ClosedByUs"
    using assms(2-4,8)
    by (auto simp: c1_def idle_def can_read_def roomy_def codec_ok_def unread_def split: option.splits)
  have "carried Server (close_frame t n x) (close_frame t n x)" by (simp add: carried_def)
  from read_close [OF assms(1) this c1(5,1-3) assms(5) c1(4,6) assms(7,6), of u] c1(7) show ?thesis by auto
qed

lemma server_closes:
  assumes "target_ok t" and "idle d" and "ctx_role d = Server" and "roomy d" and "length x \<le> 123"
    and "is_allowed (CloseCode_from_u16 n)" and "delivers r chunks" and "concat chunks = Frame_format t g"
    and "carried Client (close_frame t n x) g" and "takes_all r"
  shows "\<exists>d1 r1 d2 r2. ctx_read t u d r = Some (Done (d1, r1, Ok (Msg_Close (Some \<lparr>code = CloseCode_from_u16 n, reason = x\<rparr>)))) \<and>
    ctx_state d1 = ClosedByPeer \<and> ctx_read t u d1 r1 = Some (Done (d2, r2, Err ConnectionClosed)) \<and>
    ctx_state d2 = Terminated \<and> sent_bytes r2 = queued (d, r) @ Frame_format t (close_frame t n x)"
proof -
  have d: "ctx_state d = Active" "can_read (ctx_state d)" "additional_send d = None" "codec_ok (ctx_frame d)" "ctx_role d \<noteq> Client"
    "unread (ctx_frame d) @ concat chunks = Frame_format t g"
    using assms(2,3,8) by (auto simp: idle_def can_read_def)
  from read_close [OF assms(1,9) d(5,2,3) assms(4,5) d(4,6) assms(7,6), of u] d(1) assms(3,10) obtain d1 r1 where
    d1: "ctx_read t u d r = Some (Done (d1, r1, Ok (Msg_Close (Some \<lparr>code = CloseCode_from_u16 n, reason = x\<rparr>))))"
    "ctx_role d1 = Server" "ctx_state d1 = ClosedByPeer" "roomy d1" "takes_all r1"
    "additional_send d1 = Some (close_frame t n x)" "queued (d1, r1) = queued (d, r)"
    by auto
  from server_answers [OF assms(1) d1(2-5) assms(5) d1(6), of u] obtain d2 r2 where
    "ctx_read t u d1 r1 = Some (Done (d2, r2, Err ConnectionClosed))" "ctx_state d2 = Terminated"
    "sent_bytes r2 = queued (d1, r1) @ Frame_format t (close_frame t n x)" .
  with d1 show ?thesis by auto
qed

lemma new_context_idle: "idle (new_context role)" "sending (new_context role)" "out_buffer (ctx_frame (new_context role)) = []"
  by (simp_all add: idle_def sending_def new_context_def codec_ok_def unread_def)

definition demo_messages :: "Message list" where
  "demo_messages = [Msg_Binary [1, 2, 3], Msg_Text [72, 105]]"

lemma Frame_format_nonempty: "Frame_format t f \<noteq> []"
  by (simp add: Frame_format_def header_format_def Let_def)

lemma demo_send:
  "\<exists>c' s'. send_all sample_target (new_context Client) (sample_stream []) demo_messages = Done (c', s', Ok ()) \<and> sent_bytes s' \<noteq> []"
  by (simp add: demo_messages_def ctx_send_def ctx_write_def write_frame_def raw_write_def write_additional_def buffer_frame_def
      codec_buffer_frame_def new_context_def wbind_def check_not_terminated_def is_active_def Frame_message_def generate_mask_def
      Frame_len_def header_len_def usize_MAX_def for_length_def extra_bytes_def length_Frame_format [OF target_ok_sample]
      set_random_mask_def header_set_random_mask_def check_connection_reset_def FrameHeader_default_def
      ctx_flush_def ctx_write_out_buffer_def write_out_buffer_def write_out_loop.simps stream_flush_def stream_write_def sample_stream_def
      can_read_def Frame_format_nonempty)

section \<open>Properties\<close>

text \<open>
  C5: Messages arrive unchanged and in order: what one side sends successfully with \<open>send\<close>, text or
  binary, masked by a client and unmasked by a server, the other side reads, message for message,
  however the bytes are cut into chunks on the way; afterwards the reader is between messages again.
\<close>
theorem ws_messages_arrive:
  assumes "target_ok t" and "sending c" and "out_buffer (ctx_frame c) = []" and "write_contract s"
    and "send_all t c s ms = Done (c', s', Ok ())"
    and "idle d" and "ctx_role d \<noteq> ctx_role c" and "\<forall>m \<in> set ms. admits u (ctx_config d) m"
    and "delivers r chunks" and "sent_bytes s' = sent_bytes s @ concat chunks"
  shows "\<exists>d' r'. read_all (length ms) t u d r = Some (Done (d', r', map Ok ms)) \<and> idle d'"
proof -
  have "\<forall>m \<in> set ms. is_data m" using assms(8) by (auto simp: admits_def is_data_def split: Message.splits)
  from send_all_wire [OF assms(2,4) this assms(5,3)] assms(10) obtain gs where
    "list_all2 (carried (ctx_role c)) (map message_frame ms) gs" "concat chunks = concat (map (Frame_format t) gs)" by auto
  with read_all_wire [OF assms(1) _ assms(7,8), of gs chunks r] assms(6,9) show ?thesis by (simp add: idle_def)
qed

theorem ws_messages_arrive_witness:
  "\<exists>c' s' d' r'. send_all sample_target (new_context Client) (sample_stream []) demo_messages = Done (c', s', Ok ()) \<and>
     read_all 2 sample_target ascii_utf8 (new_context Server) (sample_stream [sent_bytes s']) =
       Some (Done (d', r', [Ok (Msg_Binary [1, 2, 3]), Ok (Msg_Text [72, 105])]))"
proof -
  obtain c' s' where s': "send_all sample_target (new_context Client) (sample_stream []) demo_messages = Done (c', s', Ok ())"
    "sent_bytes s' \<noteq> []" using demo_send by blast
  have "delivers (sample_stream [sent_bytes s']) [sent_bytes s']" using s'(2) by (intro sample_stream_ok) simp
  moreover have "\<forall>m \<in> set demo_messages. admits ascii_utf8 (ctx_config (new_context Server)) m"
    by (simp add: demo_messages_def admits_def part_ok_def message_limit_def new_context_def WebSocketConfig_default_def ascii_utf8_def)
  moreover have "sent_bytes s' = sent_bytes (sample_stream []) @ concat [sent_bytes s']" by (simp add: sample_stream_def)
  moreover have "ctx_role (new_context Server) \<noteq> ctx_role (new_context Client)" by (simp add: new_context_def)
  ultimately have "\<exists>d' r'. read_all (length demo_messages) sample_target ascii_utf8 (new_context Server) (sample_stream [sent_bytes s']) =
      Some (Done (d', r', map Ok demo_messages)) \<and> idle d'"
    by (intro ws_messages_arrive [OF target_ok_sample new_context_idle(2,3) sample_stream_ok(1) s'(1) new_context_idle(1)])
  then have "\<exists>d' r'. read_all 2 sample_target ascii_utf8 (new_context Server) (sample_stream [sent_bytes s']) =
      Some (Done (d', r', [Ok (Msg_Binary [1, 2, 3]), Ok (Msg_Text [72, 105])]))"
    by (auto simp: demo_messages_def numeral_2_eq_2 simp del: read_all.simps)
  with s'(1) show ?thesis by blast
qed

text \<open>
  C19: A binary message cut into any number of fragments is read as one message, the parts joined in
  order, by a reader of either role and for any chunks on the wire, as long as the parts and the
  whole are within the limits of its configuration; nothing of the next message is consumed.
\<close>
theorem ws_fragments_join:
  assumes "target_ok t" and "parts \<noteq> []" and "list_all2 (carried r) (fragments Data_Binary parts) gs"
    and "idle c" and "ctx_role c \<noteq> r" and "length (concat parts) \<le> message_limit (ctx_config c)"
    and "\<forall>p \<in> set parts. part_ok (ctx_config c) p"
    and "concat chunks = concat (map (Frame_format t) gs) @ rest" and "delivers s chunks"
  shows "\<exists>k j. ctx_read t u c s = Some (Done (c\<lparr>ctx_frame := k\<rparr>, after_reads j s, Ok (Msg_Binary (concat parts)))) \<and>
    unread k @ concat (drop j chunks) = rest"
proof -
  have c: "can_read (ctx_state c)" "additional_send c = None" "codec_ok (ctx_frame c)"
    "assembling Data_Binary [] (ctx_incomplete c)" "unread (ctx_frame c) = []"
    using assms(4) by (simp_all add: idle_def can_read_def assembling_def)
  from read_fragments [OF assms(1,3,2,5) c(1-4) _ assms(7) _ assms(9), of rest u] assms(6,8) c(5) obtain k j where
    k: "unread k @ concat (drop j chunks) = rest"
    "read_loop t u c s = Some (Done (c\<lparr>ctx_frame := k, ctx_incomplete := None\<rparr>, after_reads j s, Ok (Msg_Binary (concat parts))))"
    by auto
  moreover have "c\<lparr>ctx_frame := k, ctx_incomplete := None\<rparr> = c\<lparr>ctx_frame := k\<rparr>"
    using assms(4) by (cases c) (simp add: idle_def)
  ultimately show ?thesis
    using assms(4) by (intro exI [of _ k] exI [of _ j]) (simp add: ctx_read_def check_not_terminated_def idle_def)
qed

theorem ws_fragments_join_witness:
  "\<exists>k j. ctx_read sample_target ascii_utf8 (new_context Client)
      (sample_stream [concat (map (Frame_format sample_target) (fragments Data_Binary [[1, 2], [], [3]]))]) =
    Some (Done ((new_context Client)\<lparr>ctx_frame := k\<rparr>,
      after_reads j (sample_stream [concat (map (Frame_format sample_target) (fragments Data_Binary [[1, 2], [], [3]]))]),
      Ok (Msg_Binary [1, 2, 3])))"
proof -
  let ?fs = "fragments Data_Binary [[1, 2], [], [3]]"
  let ?chunks = "[concat (map (Frame_format sample_target) ?fs)]"
  have "delivers (sample_stream ?chunks) ?chunks" by (intro sample_stream_ok) (simp add: Frame_format_nonempty)
  moreover have "list_all2 (carried Server) ?fs ?fs" by (simp add: carried_def)
  moreover have "\<forall>p \<in> set [[1, 2], [], [3]]. part_ok (ctx_config (new_context Client)) p"
    "length (concat [[1, 2], [], [3 :: u8]]) \<le> message_limit (ctx_config (new_context Client))"
    by (simp_all add: part_ok_def message_limit_def new_context_def WebSocketConfig_default_def)
  moreover have "ctx_role (new_context Client) \<noteq> Server" by (simp add: new_context_def)
  ultimately show ?thesis
    using ws_fragments_join [OF target_ok_sample, of "[[1, 2], [], [3]]" Server ?fs "new_context Client" ?chunks "[]"
        "sample_stream ?chunks" ascii_utf8] new_context_idle(1) by auto
qed

text \<open>
  C8: The closing handshake runs to its end: a client's \<open>close\<close> with an allowed code puts the close
  frame on the wire; the server reads it as a close message, answers with the same code and reason
  and terminates the connection with its next read; the client reads the answer and has its close
  acknowledged, whatever the chunks on either way.
\<close>
theorem ws_close_handshake:
  assumes "target_ok t" and "is_allowed (CloseCode_from_u16 n)" and "length x \<le> 123"
    and "idle c" and "ctx_role c = Client" and "roomy c" and "takes_all s"
    and "idle d" and "ctx_role d = Server" and "roomy d"
  shows "\<exists>c1 s1 sent. ctx_close t c s (Some (close_with n x)) = Done (c1, s1, Ok ()) \<and> ctx_state c1 = ClosedByUs \<and>
    sent_bytes s1 = sent_bytes s @ out_buffer (ctx_frame c) @ sent \<and>
    (\<forall>r chunks. delivers r chunks \<and> concat chunks = sent \<and> takes_all r \<longrightarrow>
      (\<exists>d1 r1 d2 r2 answer. ctx_read t u d r = Some (Done (d1, r1, Ok (Msg_Close (Some (close_with n x))))) \<and> ctx_state d1 = ClosedByPeer \<and>
        ctx_read t u d1 r1 = Some (Done (d2, r2, Err ConnectionClosed)) \<and> ctx_state d2 = Terminated \<and>
        sent_bytes r2 = sent_bytes r @ out_buffer (ctx_frame d) @ answer \<and>
        (\<forall>s2 chunks2. delivers s2 chunks2 \<and> concat chunks2 = answer \<longrightarrow>
          (\<exists>c2 s3. ctx_read t u c1 s2 = Some (Done (c2, s3, Ok (Msg_Close (Some (close_with n x))))) \<and> ctx_state c2 = CloseAcknowledged))))"
proof -
  let ?f = "close_frame t n x" and ?c1 = "c\<lparr>ctx_state := ClosedByUs, ctx_frame := (ctx_frame c)\<lparr>out_buffer := []\<rparr>\<rparr>"
  have "sending c" using assms(4) by (simp add: sending_def idle_def)
  from assms(1) this assms(6,7,3) obtain s1 where s1: "ctx_close t c s (Some (close_with n x)) = Done (?c1, s1, Ok ())"
    "sent_bytes s1 = queued (c, s) @ Frame_format t (frame_out c s ?f)"
    unfolding close_with_def by (rule close_sends)
  have "carried Client ?f (frame_out c s ?f)" using frame_out_carried [of c ?f s] assms(5) by simp
  note server = server_closes [OF assms(1,8,9,10,3,2) _ _ this, of _ _ u, folded close_with_def]
  note client = client_acknowledged [OF assms(1,4,5,6,3,2), of _ _ u, folded close_with_def]
  have "\<exists>d1 r1 d2 r2 answer. ctx_read t u d r = Some (Done (d1, r1, Ok (Msg_Close (Some (close_with n x))))) \<and> ctx_state d1 = ClosedByPeer \<and>
        ctx_read t u d1 r1 = Some (Done (d2, r2, Err ConnectionClosed)) \<and> ctx_state d2 = Terminated \<and>
        sent_bytes r2 = sent_bytes r @ out_buffer (ctx_frame d) @ answer \<and>
        (\<forall>s2 chunks2. delivers s2 chunks2 \<and> concat chunks2 = answer \<longrightarrow>
          (\<exists>c2 s3. ctx_read t u ?c1 s2 = Some (Done (c2, s3, Ok (Msg_Close (Some (close_with n x))))) \<and> ctx_state c2 = CloseAcknowledged))"
    if "delivers r chunks" "concat chunks = Frame_format t (frame_out c s ?f)" "takes_all r" for r chunks
  proof -
    from server [OF that] obtain d1 r1 d2 r2 where d:
      "ctx_read t u d r = Some (Done (d1, r1, Ok (Msg_Close (Some (close_with n x)))))" "ctx_state d1 = ClosedByPeer"
      "ctx_read t u d1 r1 = Some (Done (d2, r2, Err ConnectionClosed))" "ctx_state d2 = Terminated"
      "sent_bytes r2 = queued (d, r) @ Frame_format t ?f" by blast
    show ?thesis
      by (rule exI [of _ d1], rule exI [of _ r1], rule exI [of _ d2], rule exI [of _ r2],
          rule exI [of _ "Frame_format t ?f"]) (use d client in \<open>simp add: queued_def, blast\<close>)
  qed
  note answers = this
  show ?thesis
  proof (rule exI [of _ ?c1], rule exI [of _ s1], rule exI [of _ "Frame_format t (frame_out c s ?f)"], intro conjI allI impI)
    fix r chunks
    assume "delivers r chunks \<and> concat chunks = Frame_format t (frame_out c s ?f) \<and> takes_all r"
    then show "\<exists>d1 r1 d2 r2 answer. ctx_read t u d r = Some (Done (d1, r1, Ok (Msg_Close (Some (close_with n x))))) \<and>
        ctx_state d1 = ClosedByPeer \<and> ctx_read t u d1 r1 = Some (Done (d2, r2, Err ConnectionClosed)) \<and>
        ctx_state d2 = Terminated \<and> sent_bytes r2 = sent_bytes r @ out_buffer (ctx_frame d) @ answer \<and>
        (\<forall>s2 chunks2. delivers s2 chunks2 \<and> concat chunks2 = answer \<longrightarrow>
          (\<exists>c2 s3. ctx_read t u ?c1 s2 = Some (Done (c2, s3, Ok (Msg_Close (Some (close_with n x))))) \<and>
            ctx_state c2 = CloseAcknowledged))"
      by (intro answers [of r chunks]) simp_all
  qed (use s1 in \<open>simp_all add: queued_def\<close>)
qed

theorem ws_close_handshake_witness:
  "\<exists>c1 s1 chunks d1 r1 d2 r2.
     ctx_close sample_target (new_context Client) (sample_stream []) (Some (close_with 1000 [98, 121, 101])) = Done (c1, s1, Ok ()) \<and>
     concat chunks = sent_bytes s1 \<and>
     ctx_read sample_target ascii_utf8 (new_context Server) (sample_stream chunks) =
       Some (Done (d1, r1, Ok (Msg_Close (Some (close_with 1000 [98, 121, 101]))))) \<and>
     ctx_read sample_target ascii_utf8 d1 r1 = Some (Done (d2, r2, Err ConnectionClosed))"
proof -
  have room: "roomy (new_context role)" for role
    by (simp add: roomy_def new_context_def usize_MAX_def WebSocketConfig_default_def)
  have "is_allowed (CloseCode_from_u16 1000)" by (simp add: is_allowed_def CloseCode_from_u16_def)
  from ws_close_handshake [OF target_ok_sample this _ new_context_idle(1) _ room takes_all_sample new_context_idle(1) _ room,
      of "[98, 121, 101]" Client Server "[]" ascii_utf8]
  obtain c1 s1 sent where c1: "ctx_close sample_target (new_context Client) (sample_stream []) (Some (close_with 1000 [98, 121, 101])) =
      Done (c1, s1, Ok ())" and sent: "sent_bytes s1 = sent"
    and server: "\<And>r chunks. delivers r chunks \<Longrightarrow> concat chunks = sent \<Longrightarrow> takes_all r \<Longrightarrow>
      \<exists>d1 r1 d2 r2. ctx_read sample_target ascii_utf8 (new_context Server) r =
         Some (Done (d1, r1, Ok (Msg_Close (Some (close_with 1000 [98, 121, 101]))))) \<and>
       ctx_read sample_target ascii_utf8 d1 r1 = Some (Done (d2, r2, Err ConnectionClosed))"
    by (auto simp: new_context_def sample_stream_def) metis
  let ?chunks = "if sent = [] then [] else [sent]"
  have "delivers (sample_stream ?chunks) ?chunks" by (intro sample_stream_ok) simp
  moreover have "concat ?chunks = sent" by simp
  ultimately show ?thesis using server [OF _ _ takes_all_sample, of ?chunks ?chunks] c1 sent by blast
qed

end
