(* ===== verification/Ws_Upgrade.thy ===== *)
theory Ws_Upgrade
  imports Ws_Context
begin

text \<open>
  The HTTP side of the websocket handshake: \<open>src/src/adapters/ws/handshake/headers.rs\<close>, the accept
  key of \<open>handshake/mod.rs\<close>, the request and the check of the response of \<open>handshake/client.rs\<close>, the
  check of the request and the response of \<open>handshake/server.rs\<close>, and the conversion of a URI into a
  request of \<open>ws/client.rs\<close>. Each is a function over the record \<open>http_crates\<close>.
\<close>

definition ok_or :: "'e \<Rightarrow> 'a option \<Rightarrow> 'e + 'a" where
  "ok_or e x = (case x of None \<Rightarrow> Err e | Some y \<Rightarrow> Ok y)"

definition expect :: "'a option \<Rightarrow> 'a exec" where
  "expect x = (case x of None \<Rightarrow> Panic | Some y \<Rightarrow> Done y)"

lemma ok_or_simps [simp, result_simps]: "ok_or e None = Err e" "ok_or e (Some x) = Ok x"
  by (simp_all add: ok_or_def)

lemma ok_or_eq_Inr [result_simps]: "ok_or e x = Inr y \<longleftrightarrow> x = Some y"
  by (cases x) simp_all

lemma expect_simps [simp, result_simps]: "expect None = Panic" "expect (Some x) = Done x"
  by (simp_all add: expect_def)

section \<open>Parsed headers\<close>

definition MAX_HEADERS :: nat where "MAX_HEADERS = 124"

definition Error_from_httparse :: "httparse_error \<Rightarrow> Error" where
  "Error_from_httparse e =
     (case e of
        Httparse_TooManyHeaders \<Rightarrow> Capacity TooManyHeaders
      | Httparse_Other \<Rightarrow> Protocol (HttparseError e))"

fun append_headers :: "'x http_crates_scheme \<Rightarrow> HeaderMap \<Rightarrow> (string \<times> bytes) list \<Rightarrow> Error + HeaderMap" where
  "append_headers h headers [] = Ok headers"
| "append_headers h headers ((name, val) # rest) =
     rbind (ok_or HttpFormat (name_from_bytes h (as_bytes name))) (\<lambda>k.
     rbind (ok_or HttpFormat (value_from_bytes h val)) (\<lambda>v.
     append_headers h (header_append k v headers) rest))"

definition HeaderMap_from_httparse :: "'x http_crates_scheme \<Rightarrow> (string \<times> bytes) list \<Rightarrow> Error + HeaderMap" where
  "HeaderMap_from_httparse h hdrs = append_headers h [] hdrs"

definition HeaderMap_try_parse :: "'x http_crates_scheme \<Rightarrow> bytes \<Rightarrow> Error + (nat \<times> HeaderMap) option" where
  "HeaderMap_try_parse h buf =
     (case parse_headers h MAX_HEADERS buf of
        Inl e \<Rightarrow> Err (Error_from_httparse e)
      | Inr None \<Rightarrow> Ok None
      | Inr (Some (used, hdr)) \<Rightarrow> rbind (HeaderMap_from_httparse h hdr) (\<lambda>m. Ok (Some (used, m))))"

section \<open>The accept key\<close>

definition WS_GUID :: bytes where
  "WS_GUID = as_bytes ''258EAFA5-E914-47DA-95CA-C5AB0DC85B11''"

definition derive_accept_key :: "'x http_crates_scheme \<Rightarrow> bytes \<Rightarrow> string" where
  "derive_accept_key h request_key = base64 h (sha1 h (request_key @ WS_GUID))"

definition generate_key :: "'x http_crates_scheme \<Rightarrow> string" where
  "generate_key h = base64 h (random16 h)"

section \<open>Requests of the client\<close>

datatype Mode = Plain | Tls

definition uri_mode :: "Uri \<Rightarrow> Error + Mode" where
  "uri_mode uri =
     (if scheme_str uri = Some ''ws'' then Ok Plain
      else if scheme_str uri = Some ''wss'' then Ok Tls
      else Err (Url UnsupportedUrlScheme))"

text \<open>The builders of the \<open>http\<close> crate hold back an invalid part until \<open>body\<close> is called.\<close>

definition build_header ::
  "'x http_crates_scheme \<Rightarrow> string \<Rightarrow> bytes option \<Rightarrow> HeaderMap option \<Rightarrow> HeaderMap option" where
  "build_header h name val headers =
     (case headers of
        None \<Rightarrow> None
      | Some m \<Rightarrow>
          (case name_from_bytes h (as_bytes name) of
             None \<Rightarrow> None
           | Some k \<Rightarrow> (case val of None \<Rightarrow> None | Some v \<Rightarrow> Some (header_append k v m))))"

definition Uri_into_client_request :: "'x http_crates_scheme \<Rightarrow> Uri \<Rightarrow> Error + unit HttpRequest" where
  "Uri_into_client_request h uri =
     rbind (ok_or (Url NoHostName) (authority uri)) (\<lambda>authority.
     let host = (case after_first (CHR ''@'') authority of Some rest \<Rightarrow> rest | None \<Rightarrow> authority) in
     if host = [] then Err (Url EmptyHostName)
     else
       let headers =
         build_header h ''Sec-WebSocket-Key'' (value_from_bytes h (as_bytes (generate_key h)))
        (build_header h ''Sec-WebSocket-Version'' (value_from_str h ''13'')
        (build_header h ''Upgrade'' (value_from_str h ''websocket'')
        (build_header h ''Connection'' (value_from_str h ''Upgrade'')
        (build_header h ''Host'' (value_from_str h host) (Some []))))) in
       rbind (ok_or HttpFormat headers) (\<lambda>headers.
       Ok \<lparr>req_method = ''GET'', req_uri = uri, req_version = HTTP_11, req_headers = headers, req_body = ()\<rparr>))"

definition str_into_client_request :: "'x http_crates_scheme \<Rightarrow> string \<Rightarrow> Error + unit HttpRequest" where
  "str_into_client_request h s = rbind (ok_or HttpFormat (uri_parse h s)) (Uri_into_client_request h)"

text \<open>\<open>generate_request\<close>: the first line, the five headers of the protocol, the other headers, an empty line.\<close>

definition KEY_HEADERNAME :: string where "KEY_HEADERNAME = ''Sec-WebSocket-Key''"

definition WEBSOCKET_HEADERS :: "string list" where
  "WEBSOCKET_HEADERS = [''Host'', ''Connection'', ''Upgrade'', ''Sec-WebSocket-Version'', KEY_HEADERNAME]"

definition header_line :: "string \<Rightarrow> string \<Rightarrow> string" where
  "header_line name val = name @ '': '' @ val @ CRLF"

definition invalid_header :: "string \<Rightarrow> Error" where
  "invalid_header name = Protocol (InvalidHeader (to_ascii_lowercase name))"

fun write_required ::
  "'x http_crates_scheme \<Rightarrow> string list \<Rightarrow> HeaderMap \<Rightarrow> bytes \<Rightarrow> Error + HeaderMap \<times> bytes" where
  "write_required h [] headers req = Ok (headers, req)"
| "write_required h (name # names) headers req =
     (case header_remove name headers of
        (None, _) \<Rightarrow> Err (invalid_header name)
      | (Some v, headers) \<Rightarrow>
          rbind (ok_or Utf8 (value_to_str h v)) (\<lambda>val.
          write_required h names headers (req @ as_bytes (header_line name val))))"

definition shown_name :: "string \<Rightarrow> string" where
  "shown_name name =
     (if name = ''sec-websocket-protocol'' then ''Sec-WebSocket-Protocol''
      else if name = ''origin'' then ''Origin'' else name)"

fun write_others :: "'x http_crates_scheme \<Rightarrow> HeaderMap \<Rightarrow> bytes \<Rightarrow> Error + bytes" where
  "write_others h [] req = Ok req"
| "write_others h ((k, v) # rest) req =
     (if k \<in> set (map to_ascii_lowercase WEBSOCKET_HEADERS) then Err (Protocol (InvalidHeader k))
      else
        rbind (ok_or Utf8 (value_to_str h v)) (\<lambda>val.
        write_others h rest (req @ as_bytes (header_line (shown_name k) val))))"

definition generate_request :: "'x http_crates_scheme \<Rightarrow> unit HttpRequest \<Rightarrow> Error + bytes \<times> string" where
  "generate_request h request =
     rbind (ok_or (Url NoPathOrQuery) (path_and_query (req_uri request))) (\<lambda>path.
     let req = as_bytes (''GET '' @ path @ '' '' @ show_version h (req_version request) @ CRLF) in
     rbind (ok_or (invalid_header KEY_HEADERNAME) (header_get KEY_HEADERNAME (req_headers request))) (\<lambda>v.
     rbind (ok_or Utf8 (value_to_str h v)) (\<lambda>key.
     rbind (write_required h WEBSOCKET_HEADERS (req_headers request) req) (\<lambda>(headers, req).
     rbind (write_others h (header_iter h headers) req) (\<lambda>req.
     Ok (req @ as_bytes CRLF, key))))))"

section \<open>Responses of the server\<close>

text \<open>\<open>headers.get(name).and_then(|h| h.to_str().ok()).map(p).unwrap_or(false)\<close>\<close>

definition header_is ::
  "'x http_crates_scheme \<Rightarrow> HeaderMap \<Rightarrow> string \<Rightarrow> (string \<Rightarrow> bool) \<Rightarrow> bool" where
  "header_is h headers name p =
     (case header_get name headers of
        None \<Rightarrow> False
      | Some v \<Rightarrow> (case value_to_str h v of None \<Rightarrow> False | Some s \<Rightarrow> p s))"

definition create_parts :: "'x http_crates_scheme \<Rightarrow> 'b HttpRequest \<Rightarrow> Error + (Version \<times> HeaderMap option)" where
  "create_parts h request =
     (let headers = req_headers request in
      if req_method request \<noteq> ''GET'' then Err (Protocol WrongHttpMethod)
      else if req_version request < HTTP_11 then Err (Protocol WrongHttpVersion)
      else if \<not> header_is h headers ''Connection''
             (\<lambda>s. \<exists>p \<in> set (str_split (\<lambda>c. c = CHR '' '' \<or> c = CHR '','') s). eq_ignore_ascii_case p ''Upgrade'')
      then Err (Protocol MissingConnectionUpgradeHeader)
      else if \<not> header_is h headers ''Upgrade'' (\<lambda>s. eq_ignore_ascii_case s ''websocket'')
      then Err (Protocol MissingUpgradeWebSocketHeader)
      else if header_get ''Sec-WebSocket-Version'' headers \<noteq> Some (as_bytes ''13'')
      then Err (Protocol MissingSecWebSocketVersionHeader)
      else
        rbind (ok_or (Protocol MissingSecWebSocketKey) (header_get ''Sec-WebSocket-Key'' headers)) (\<lambda>key.
        Ok (req_version request,
          build_header h ''Sec-WebSocket-Accept'' (value_from_bytes h (as_bytes (derive_accept_key h key)))
         (build_header h ''Upgrade'' (value_from_str h ''websocket'')
         (build_header h ''Connection'' (value_from_str h ''Upgrade'') (Some []))))))"

definition create_response_with_body ::
  "'x http_crates_scheme \<Rightarrow> 'b HttpRequest \<Rightarrow> (unit \<Rightarrow> 'c) \<Rightarrow> Error + 'c HttpResponse" where
  "create_response_with_body h request generate_body =
     rbind (create_parts h request) (\<lambda>(version, headers).
     rbind (ok_or HttpFormat headers) (\<lambda>headers.
     Ok \<lparr>resp_status = 101, resp_version = version, resp_headers = headers, resp_body = generate_body ()\<rparr>))"

definition create_response :: "'x http_crates_scheme \<Rightarrow> unit HttpRequest \<Rightarrow> Error + unit HttpResponse" where
  "create_response h request =
     rbind (create_parts h request) (\<lambda>(version, headers).
     rbind (ok_or HttpFormat headers) (\<lambda>headers.
     Ok \<lparr>resp_status = 101, resp_version = version, resp_headers = headers, resp_body = ()\<rparr>))"

fun write_headers :: "'x http_crates_scheme \<Rightarrow> HeaderMap \<Rightarrow> bytes \<Rightarrow> Error + bytes" where
  "write_headers h [] w = Ok w"
| "write_headers h ((k, v) # rest) w =
     rbind (ok_or Utf8 (value_to_str h v)) (\<lambda>val. write_headers h rest (w @ as_bytes (header_line k val)))"

definition write_response :: "'x http_crates_scheme \<Rightarrow> 'b HttpResponse \<Rightarrow> Error + bytes" where
  "write_response h response =
     (let w = as_bytes (show_version h (resp_version response) @ '' '' @ show_status h (resp_status response) @ CRLF) in
      rbind (write_headers h (header_iter h (resp_headers response)) w) (\<lambda>w. Ok (w @ as_bytes CRLF)))"

definition Request_from_httparse :: "'x http_crates_scheme \<Rightarrow> raw_request \<Rightarrow> (Error + unit HttpRequest) exec" where
  "Request_from_httparse h raw =
     xbind (expect (raw_method raw)) (\<lambda>method.
     if method \<noteq> ''GET'' then Done (Err (Protocol WrongHttpMethod))
     else
       xbind (expect (raw_req_version raw)) (\<lambda>version.
       if version < 1 then Done (Err (Protocol WrongHttpVersion))
       else
         case HeaderMap_from_httparse h (raw_req_headers raw) of
           Inl e \<Rightarrow> Done (Err e)
         | Inr headers \<Rightarrow>
             xbind (expect (raw_path raw)) (\<lambda>path.
             Done (rbind (ok_or HttpFormat (uri_parse h path)) (\<lambda>uri.
               Ok \<lparr>req_method = ''GET'', req_uri = uri, req_version = HTTP_11, req_headers = headers,
                   req_body = ()\<rparr>)))))"

definition Request_try_parse :: "'x http_crates_scheme \<Rightarrow> bytes \<Rightarrow> (Error + (nat \<times> unit HttpRequest) option) exec" where
  "Request_try_parse h buf =
     (case parse_request h MAX_HEADERS buf of
        Inl e \<Rightarrow> Done (Err (Error_from_httparse e))
      | Inr None \<Rightarrow> Done (Ok None)
      | Inr (Some (used, raw)) \<Rightarrow>
          xbind (Request_from_httparse h raw) (\<lambda>ret. Done (rbind ret (\<lambda>req. Ok (Some (used, req))))))"

section \<open>The client's check of the response\<close>

type_synonym Response = "bytes option HttpResponse"

definition Response_from_httparse :: "'x http_crates_scheme \<Rightarrow> raw_response \<Rightarrow> (Error + Response) exec" where
  "Response_from_httparse h raw =
     xbind (expect (raw_resp_version raw)) (\<lambda>version.
     if version < 1 then Done (Err (Protocol WrongHttpVersion))
     else
       case HeaderMap_from_httparse h (raw_resp_headers raw) of
         Inl e \<Rightarrow> Done (Err e)
       | Inr headers \<Rightarrow>
           xbind (expect (raw_code raw)) (\<lambda>code.
           Done (rbind (ok_or HttpFormat (status_from_u16 h code)) (\<lambda>status.
             Ok \<lparr>resp_status = status, resp_version = HTTP_11, resp_headers = headers, resp_body = None\<rparr>))))"

definition Response_try_parse :: "'x http_crates_scheme \<Rightarrow> bytes \<Rightarrow> (Error + (nat \<times> Response) option) exec" where
  "Response_try_parse h buf =
     (case parse_response h MAX_HEADERS buf of
        Inl e \<Rightarrow> Done (Err (Error_from_httparse e))
      | Inr None \<Rightarrow> Done (Ok None)
      | Inr (Some (used, raw)) \<Rightarrow>
          xbind (Response_from_httparse h raw) (\<lambda>ret. Done (rbind ret (\<lambda>resp. Ok (Some (used, resp))))))"

record VerifyData =
  accept_key :: string

definition verify_response :: "'x http_crates_scheme \<Rightarrow> VerifyData \<Rightarrow> Response \<Rightarrow> Error + Response" where
  "verify_response h data response =
     (let headers = resp_headers response in
      if resp_status response \<noteq> 101 then Err (Http response)
      else if \<not> header_is h headers ''Upgrade'' (\<lambda>s. eq_ignore_ascii_case s ''websocket'')
      then Err (Protocol MissingUpgradeWebSocketHeader)
      else if \<not> header_is h headers ''Connection'' (\<lambda>s. eq_ignore_ascii_case s ''Upgrade'')
      then Err (Protocol MissingConnectionUpgradeHeader)
      else if header_get ''Sec-WebSocket-Accept'' headers \<noteq> Some (as_bytes (accept_key data))
      then Err (Protocol SecWebSocketAcceptKeyMismatch)
      else Ok response)"

section \<open>The text of a request\<close>

text \<open>A request and a response as the lines they consist of.\<close>

definition header_lines :: "(string \<times> string) list \<Rightarrow> string" where
  "header_lines lines = concat (map (\<lambda>(n, v). header_line n v) lines)"

definition request_text :: "'x http_crates_scheme \<Rightarrow> string \<Rightarrow> Version \<Rightarrow> (string \<times> string) list \<Rightarrow> bytes" where
  "request_text h path version lines =
     as_bytes (''GET '' @ path @ '' '' @ show_version h version @ CRLF @ header_lines lines @ CRLF)"

definition response_text :: "'x http_crates_scheme \<Rightarrow> Version \<Rightarrow> nat \<Rightarrow> (string \<times> string) list \<Rightarrow> bytes" where
  "response_text h version status lines =
     as_bytes (show_version h version @ '' '' @ show_status h status @ CRLF @ header_lines lines @ CRLF)"

lemma header_lines_simps [simp]:
  "header_lines [] = []"
  "header_lines ((n, v) # ls) = header_line n v @ header_lines ls"
  "header_lines (ls @ ls') = header_lines ls @ header_lines ls'"
  by (simp_all add: header_lines_def)

definition value_text :: "'x http_crates_scheme \<Rightarrow> bytes \<Rightarrow> string" where
  "value_text h v = (case value_to_str h v of Some s \<Rightarrow> s | None \<Rightarrow> [])"

definition first_text :: "'x http_crates_scheme \<Rightarrow> HeaderMap \<Rightarrow> string \<Rightarrow> string" where
  "first_text h headers name = (case header_get name headers of Some v \<Rightarrow> value_text h v | None \<Rightarrow> [])"

text \<open>Every value of the map is text.\<close>

definition all_text :: "'x http_crates_scheme \<Rightarrow> HeaderMap \<Rightarrow> bool" where
  "all_text h m \<longleftrightarrow> (\<forall>(k, v) \<in> set m. value_to_str h v \<noteq> None)"

definition without :: "string list \<Rightarrow> HeaderMap \<Rightarrow> HeaderMap" where
  "without names m = filter (\<lambda>(k, _). k \<notin> set (map to_ascii_lowercase names)) m"

lemma header_get_in: "header_get n m = Some v \<Longrightarrow> (to_ascii_lowercase n, v) \<in> set m"
  unfolding header_get_def by (rule map_of_SomeD)

lemma header_remove_eq: "header_remove n m = (header_get n m, without [n] m)"
  by (simp add: header_remove_def without_def)

lemma header_get_without:
  "to_ascii_lowercase n \<notin> set (map to_ascii_lowercase names) \<Longrightarrow> header_get n (without names m) = header_get n m"
  by (induction m) (auto simp: header_get_def without_def)

lemma without_without: "without ns (without [n] m) = without (n # ns) m"
  by (auto simp: without_def intro: filter_cong)

lemma write_required_lines:
  assumes "distinct (map to_ascii_lowercase names)" and "all_text h m"
    and "\<forall>n \<in> set names. header_get n m \<noteq> None"
  shows "write_required h names m req =
    Ok (without names m, req @ as_bytes (header_lines (map (\<lambda>n. (n, first_text h m n)) names)))"
  using assms
proof (induction names arbitrary: m req)
  case Nil
  then show ?case by (simp add: without_def as_bytes_def)
next
  case (Cons n ns)
  then obtain v where v: "header_get n m = Some v" by auto
  with Cons.prems(2) obtain s where s: "value_to_str h v = Some s"
    by (fastforce simp: all_text_def dest: header_get_in)
  let ?m = "without [n] m"
  have same: "header_get k ?m = header_get k m" if "k \<in> set ns" for k
    using that Cons.prems(1) by (intro header_get_without) (simp; metis imageI)
  have "all_text h ?m" using Cons.prems(2) by (auto simp: all_text_def without_def)
  then have "write_required h ns ?m (req @ as_bytes (header_line n s)) =
      Ok (without ns ?m, (req @ as_bytes (header_line n s)) @
        as_bytes (header_lines (map (\<lambda>k. (k, first_text h ?m k)) ns)))"
    using Cons.prems(1,3) same by (intro Cons.IH) auto
  moreover have texts: "map (\<lambda>k. (k, first_text h ?m k)) ns = map (\<lambda>k. (k, first_text h m k)) ns"
    using same by (simp add: first_text_def)
  moreover have "first_text h m n = s" using v s by (simp add: first_text_def value_text_def)
  ultimately show ?case using v s by (simp add: header_remove_eq without_without)
qed

lemma write_others_lines:
  assumes "\<forall>(k, v) \<in> set m. k \<notin> set (map to_ascii_lowercase WEBSOCKET_HEADERS) \<and> value_to_str h v \<noteq> None"
  shows "write_others h m req =
    Ok (req @ as_bytes (header_lines (map (\<lambda>(k, v). (shown_name k, value_text h v)) m)))"
  using assms
proof (induction m arbitrary: req)
  case Nil
  then show ?case by (simp add: as_bytes_def)
next
  case (Cons kv m)
  obtain k v where kv: "kv = (k, v)" by fastforce
  with Cons.prems obtain s where "value_to_str h v = Some s" by auto
  with Cons kv show ?case by (simp add: value_text_def)
qed

lemma write_headers_lines:
  assumes "all_text h m"
  shows "write_headers h m w = Ok (w @ as_bytes (header_lines (map (\<lambda>(k, v). (k, value_text h v)) m)))"
  using assms
proof (induction m arbitrary: w)
  case Nil
  then show ?case by (simp add: as_bytes_def)
next
  case (Cons kv m)
  obtain k v where kv: "kv = (k, v)" by fastforce
  with Cons.prems obtain s where "value_to_str h v = Some s" by (auto simp: all_text_def)
  with Cons kv show ?case by (simp add: value_text_def all_text_def)
qed

lemma distinct_websocket_headers: "distinct (map to_ascii_lowercase WEBSOCKET_HEADERS)"
  by code_simp

lemma write_required_missing:
  "n \<in> set names \<Longrightarrow> header_get n m = None \<Longrightarrow> \<exists>e. write_required h names m req = Err e"
proof (induction names arbitrary: m req)
  case (Cons k names)
  show ?case
  proof (cases "header_get k m")
    case None
    then show ?thesis by (simp add: header_remove_eq)
  next
    case (Some v)
    with Cons.prems have "n \<in> set names" by auto
    moreover have "header_get n (without [k] m) = None"
      using Cons.prems(2) by (metis header_get_remove header_remove_eq snd_conv)
    ultimately have "\<exists>e. write_required h names (without [k] m) r = Err e" for r by (rule Cons.IH)
    with Some show ?thesis by (cases "value_to_str h v") (auto simp: header_remove_eq)
  qed
qed simp

lemma generate_request_lines:
  assumes iter: "\<forall>m. mset (header_iter h m) = mset m" and texts: "all_text h (req_headers req)"
    and path: "path_and_query (req_uri req) = Some path"
    and five: "\<forall>n \<in> set WEBSOCKET_HEADERS. header_get n (req_headers req) \<noteq> None"
  shows "generate_request h req = Ok (request_text h path (req_version req)
        (map (\<lambda>n. (n, first_text h (req_headers req) n)) WEBSOCKET_HEADERS @
         map (\<lambda>(k, v). (shown_name k, value_text h v)) (header_iter h (without WEBSOCKET_HEADERS (req_headers req)))),
        first_text h (req_headers req) KEY_HEADERNAME)"
proof -
  let ?m = "req_headers req" and ?rest = "without WEBSOCKET_HEADERS (req_headers req)"
  have "KEY_HEADERNAME \<in> set WEBSOCKET_HEADERS" by (simp add: WEBSOCKET_HEADERS_def)
  with five obtain v where v: "header_get KEY_HEADERNAME ?m = Some v" by auto
  with texts obtain key where key: "value_to_str h v = Some key"
    by (fastforce simp: all_text_def dest: header_get_in)
  have "set (header_iter h ?rest) = set ?rest" using iter by (metis set_mset_mset)
  then have "\<forall>(k, v) \<in> set (header_iter h ?rest).
      k \<notin> set (map to_ascii_lowercase WEBSOCKET_HEADERS) \<and> value_to_str h v \<noteq> None"
    using texts unfolding all_text_def without_def by auto
  then show ?thesis
    using v key path write_required_lines [OF distinct_websocket_headers texts five]
    by (simp add: generate_request_def write_others_lines request_text_def first_text_def value_text_def
        as_bytes_def del: write_required.simps)
qed

section \<open>What the two sides exchange\<close>

text \<open>The headers of a request made from a URI, those of the response to it, and the lines of the request.\<close>

definition client_headers :: "'x http_crates_scheme \<Rightarrow> string \<Rightarrow> HeaderMap" where
  "client_headers h host =
     [(''host'', as_bytes host), (''connection'', as_bytes ''Upgrade''), (''upgrade'', as_bytes ''websocket''),
      (''sec-websocket-version'', as_bytes ''13''), (''sec-websocket-key'', as_bytes (generate_key h))]"

definition client_lines :: "'x http_crates_scheme \<Rightarrow> string \<Rightarrow> (string \<times> string) list" where
  "client_lines h host =
     [(''Host'', host), (''Connection'', ''Upgrade''), (''Upgrade'', ''websocket''),
      (''Sec-WebSocket-Version'', ''13''), (''Sec-WebSocket-Key'', generate_key h)]"

definition server_headers :: "'x http_crates_scheme \<Rightarrow> string \<Rightarrow> HeaderMap" where
  "server_headers h key =
     [(''connection'', as_bytes ''Upgrade''), (''upgrade'', as_bytes ''websocket''),
      (''sec-websocket-accept'', as_bytes (derive_accept_key h (as_bytes key)))]"

definition server_lines :: "'x http_crates_scheme \<Rightarrow> string \<Rightarrow> (string \<times> string) list" where
  "server_lines h key = map (\<lambda>(k, v). (k, value_text h v)) (header_iter h (server_headers h key))"

text \<open>\<open>httparse\<close> reads a printed message back.\<close>

definition reads_request :: "'x http_crates_scheme \<Rightarrow> string \<Rightarrow> (string \<times> string) list \<Rightarrow> bool" where
  "reads_request h path lines \<longleftrightarrow>
     parse_request h MAX_HEADERS (request_text h path HTTP_11 lines) =
     Ok (Some (length (request_text h path HTTP_11 lines),
       \<lparr>raw_method = Some ''GET'', raw_path = Some path, raw_req_version = Some 1,
        raw_req_headers = map (\<lambda>(n, v). (n, as_bytes v)) lines\<rparr>))"

definition reads_response :: "'x http_crates_scheme \<Rightarrow> nat \<Rightarrow> (string \<times> string) list \<Rightarrow> bool" where
  "reads_response h status lines \<longleftrightarrow>
     parse_response h MAX_HEADERS (response_text h HTTP_11 status lines) =
     Ok (Some (length (response_text h HTTP_11 status lines),
       \<lparr>raw_resp_version = Some 1, raw_code = Some status,
        raw_resp_headers = map (\<lambda>(n, v). (n, as_bytes v)) lines\<rparr>))"

lemma http_okD:
  assumes "http_ok h"
  shows "n \<noteq> [] \<Longrightarrow> length n < 65536 \<Longrightarrow> \<forall>c \<in> set n. name_char c \<Longrightarrow> name_from_bytes h (as_bytes n) = Some (to_ascii_lowercase n)"
    and "printable s \<Longrightarrow> value_from_bytes h (as_bytes s) = Some (as_bytes s)"
    and "printable s \<Longrightarrow> value_from_str h s = Some (as_bytes s)"
    and "printable s \<Longrightarrow> value_to_str h (as_bytes s) = Some s"
    and "100 \<le> k \<Longrightarrow> k < 1000 \<Longrightarrow> status_from_u16 h k = Some k"
    and "printable (base64 h bs)" and "mset (header_iter h m) = mset m"
  using assms by (simp_all add: http_ok_def)

lemma lowered [simp]:
  "to_ascii_lowercase ''Host'' = ''host''" "to_ascii_lowercase ''Connection'' = ''connection''"
  "to_ascii_lowercase ''Upgrade'' = ''upgrade''"
  "to_ascii_lowercase ''Sec-WebSocket-Version'' = ''sec-websocket-version''"
  "to_ascii_lowercase ''Sec-WebSocket-Key'' = ''sec-websocket-key''"
  "to_ascii_lowercase ''Sec-WebSocket-Accept'' = ''sec-websocket-accept''"
  "to_ascii_lowercase ''host'' = ''host''" "to_ascii_lowercase ''connection'' = ''connection''"
  "to_ascii_lowercase ''upgrade'' = ''upgrade''"
  "to_ascii_lowercase ''sec-websocket-accept'' = ''sec-websocket-accept''"
  "to_ascii_lowercase ''websocket'' = ''websocket''"
  by code_simp+

lemma http_names:
  assumes "http_ok h"
  shows "name_from_bytes h (as_bytes ''Host'') = Some ''host''"
    "name_from_bytes h (as_bytes ''Connection'') = Some ''connection''"
    "name_from_bytes h (as_bytes ''Upgrade'') = Some ''upgrade''"
    "name_from_bytes h (as_bytes ''Sec-WebSocket-Version'') = Some ''sec-websocket-version''"
    "name_from_bytes h (as_bytes ''Sec-WebSocket-Key'') = Some ''sec-websocket-key''"
    "name_from_bytes h (as_bytes ''Sec-WebSocket-Accept'') = Some ''sec-websocket-accept''"
    "name_from_bytes h (as_bytes ''connection'') = Some ''connection''"
    "name_from_bytes h (as_bytes ''upgrade'') = Some ''upgrade''"
    "name_from_bytes h (as_bytes ''sec-websocket-accept'') = Some ''sec-websocket-accept''"
  by (subst http_okD(1) [OF assms]; simp add: name_char_def)+

lemma printable_literals [simp]: "printable ''Upgrade''" "printable ''websocket''" "printable ''13''"
  by (simp_all add: printable_def)

lemma printable_keys [simp]:
  assumes "http_ok h"
  shows "printable (generate_key h)" "printable (derive_accept_key h bs)"
  using assms by (simp_all add: generate_key_def derive_accept_key_def http_okD(6))

lemmas http_simps = http_names http_okD(2-5,7)

definition host_of :: "Uri \<Rightarrow> string option" where
  "host_of uri = map_option (\<lambda>a. case after_first (CHR ''@'') a of Some rest \<Rightarrow> rest | None \<Rightarrow> a) (authority uri)"

lemma client_request:
  assumes "http_ok h" and "host_of uri = Some host" and "host \<noteq> []" and "printable host"
  shows "Uri_into_client_request h uri = Ok \<lparr>req_method = ''GET'', req_uri = uri, req_version = HTTP_11,
    req_headers = client_headers h host, req_body = ()\<rparr>"
proof -
  from assms(2) obtain a where "authority uri = Some a"
    "host = (case after_first (CHR ''@'') a of Some rest \<Rightarrow> rest | None \<Rightarrow> a)" by (auto simp: host_of_def)
  then show ?thesis
    using assms(1,3,4)
    by (simp add: Uri_into_client_request_def build_header_def http_simps header_append_def client_headers_def)
qed

lemma client_headers_text:
  "http_ok h \<Longrightarrow> printable host \<Longrightarrow> all_text h (client_headers h host)"
  by (simp add: all_text_def client_headers_def http_simps)

lemma client_generate:
  assumes "http_ok h" and "printable host" and "path_and_query uri = Some path"
  shows "generate_request h \<lparr>req_method = ''GET'', req_uri = uri, req_version = HTTP_11,
      req_headers = client_headers h host, req_body = ()\<rparr> =
    Ok (request_text h path HTTP_11 (client_lines h host), generate_key h)" (is "generate_request h ?req = _")
proof -
  have rest: "without [''Host'', ''Connection'', ''Upgrade'', ''Sec-WebSocket-Version'', ''Sec-WebSocket-Key'']
      (client_headers h host) = []"
    by (simp add: without_def client_headers_def)
  have empty: "header_iter h [] = []" using http_okD(7) [OF assms(1), of "[]"] by simp
  have gets: "header_get ''Host'' (client_headers h host) = Some (as_bytes host)"
    "header_get ''Connection'' (client_headers h host) = Some (as_bytes ''Upgrade'')"
    "header_get ''Upgrade'' (client_headers h host) = Some (as_bytes ''websocket'')"
    "header_get ''Sec-WebSocket-Version'' (client_headers h host) = Some (as_bytes ''13'')"
    "header_get ''Sec-WebSocket-Key'' (client_headers h host) = Some (as_bytes (generate_key h))"
    by (simp_all add: header_get_def client_headers_def)
  have "all_text h (req_headers ?req)" using client_headers_text assms(1,2) by simp
  from generate_request_lines [OF _ this, of path] assms http_okD(7) [OF assms(1)]
  show ?thesis
    by (simp add: rest empty gets WEBSOCKET_HEADERS_def KEY_HEADERNAME_def first_text_def value_text_def
        http_simps client_lines_def)
qed

lemma request_parsed:
  assumes "http_ok h" and "printable host" and "reads_request h path (client_lines h host)"
    and "uri_parse h path = Some u"
  shows "Request_try_parse h (request_text h path HTTP_11 (client_lines h host)) =
    Done (Ok (Some (length (request_text h path HTTP_11 (client_lines h host)),
      \<lparr>req_method = ''GET'', req_uri = u, req_version = HTTP_11, req_headers = client_headers h host, req_body = ()\<rparr>)))"
  using assms
  by (simp add: Request_try_parse_def reads_request_def Request_from_httparse_def HeaderMap_from_httparse_def
      client_lines_def client_headers_def http_simps header_append_def)

lemma server_response:
  assumes "http_ok h"
  shows "create_response h \<lparr>req_method = ''GET'', req_uri = u, req_version = HTTP_11,
      req_headers = client_headers h host, req_body = ()\<rparr> =
    Ok \<lparr>resp_status = 101, resp_version = HTTP_11, resp_headers = server_headers h (generate_key h), resp_body = ()\<rparr>"
  using assms
  by (simp add: create_response_def create_parts_def header_is_def header_get_def client_headers_def http_simps
      eq_ignore_ascii_case_def build_header_def header_append_def server_headers_def less_Version_def)

lemma server_headers_text: "http_ok h \<Longrightarrow> all_text h (header_iter h (server_headers h key))"
proof -
  assume ok: "http_ok h"
  have "all_text h (server_headers h key)" using ok by (simp add: all_text_def server_headers_def http_simps)
  moreover have "set (header_iter h (server_headers h key)) = set (server_headers h key)"
    using http_okD(7) [OF ok] by (metis set_mset_mset)
  ultimately show ?thesis by (simp only: all_text_def)
qed

lemma server_writes:
  assumes "http_ok h"
  shows "write_response h \<lparr>resp_status = 101, resp_version = HTTP_11, resp_headers = server_headers h key, resp_body = b\<rparr> =
    Ok (response_text h HTTP_11 101 (server_lines h key))"
  using write_headers_lines [OF server_headers_text [OF assms]]
  by (simp add: write_response_def response_text_def server_lines_def as_bytes_def)

text \<open>The header names of the response are in lower case already, so parsing gives the map back.\<close>

lemma server_lines_parsed:
  assumes ok: "http_ok h"
  shows "append_headers h acc (map (\<lambda>(n, v). (n, as_bytes v)) (server_lines h key)) =
    Ok (acc @ header_iter h (server_headers h key))"
proof -
  have "append_headers h acc (map (\<lambda>(n, v). (n, as_bytes v)) (map (\<lambda>(k, v). (k, value_text h v)) m)) = Ok (acc @ m)"
    if "set m \<subseteq> set (server_headers h key)" for m
    using that
  proof (induction m arbitrary: acc)
    case (Cons kv m)
    obtain k v where kv: "kv = (k, v)" by fastforce
    with Cons.prems have "name_from_bytes h (as_bytes k) = Some k"
      "value_from_bytes h (as_bytes (value_text h v)) = Some v"
      by (auto simp: server_headers_def http_simps [OF ok] value_text_def printable_keys [OF ok])
    with Cons kv show ?case by (simp add: header_append_def)
  qed simp
  moreover have "set (header_iter h (server_headers h key)) = set (server_headers h key)"
    using http_okD(7) [OF ok] by (metis set_mset_mset)
  ultimately show ?thesis by (simp add: server_lines_def)
qed

lemma response_verified:
  assumes "http_ok h" and "reads_response h 101 (server_lines h key)"
  shows "\<exists>resp. Response_try_parse h (response_text h HTTP_11 101 (server_lines h key)) =
      Done (Ok (Some (length (response_text h HTTP_11 101 (server_lines h key)), resp))) \<and>
    verify_response h \<lparr>accept_key = derive_accept_key h (as_bytes key)\<rparr> resp = Ok resp"
proof -
  let ?resp = "\<lparr>resp_status = 101, resp_version = HTTP_11,
    resp_headers = header_iter h (server_headers h key), resp_body = None\<rparr> :: Response"
  have "distinct (map fst (server_headers h key))" by (simp add: server_headers_def)
  then have same: "header_get n (header_iter h (server_headers h key)) = header_get n (server_headers h key)" for n
    using map_of_permuted [OF http_okD(7) [OF assms(1)]] by (simp add: header_get_def)
  have "Response_try_parse h (response_text h HTTP_11 101 (server_lines h key)) =
      Done (Ok (Some (length (response_text h HTTP_11 101 (server_lines h key)), ?resp)))"
    using assms
    by (simp add: Response_try_parse_def reads_response_def Response_from_httparse_def HeaderMap_from_httparse_def
        server_lines_parsed http_simps)
  moreover have "header_get ''Connection'' (server_headers h key) = Some (as_bytes ''Upgrade'')"
    "header_get ''Upgrade'' (server_headers h key) = Some (as_bytes ''websocket'')"
    "header_get ''Sec-WebSocket-Accept'' (server_headers h key) =
      Some (as_bytes (derive_accept_key h (as_bytes key)))"
    by (simp_all add: header_get_def server_headers_def)
  then have "verify_response h \<lparr>accept_key = derive_accept_key h (as_bytes key)\<rparr> ?resp = Ok ?resp"
    using assms(1) by (simp add: verify_response_def header_is_def same http_simps eq_ignore_ascii_case_def Let_def)
  ultimately show ?thesis by blast
qed

section \<open>A sample of the crates\<close>

definition bytes_str :: "bytes \<Rightarrow> string" where
  "bytes_str bs = map (\<lambda>b. char_of (unat b)) bs"

lemma bytes_str_as_bytes [simp]: "bytes_str (as_bytes s) = s"
  by (simp add: bytes_str_def as_bytes_def comp_def unat_of_char)

definition sample_crates :: http_crates where
  "sample_crates = \<lparr>sha1 = rev, base64 = (\<lambda>_. ''c2FtcGxl''), random16 = replicate 16 7,
     name_from_bytes = (\<lambda>bs. Some (to_ascii_lowercase (bytes_str bs))), value_from_bytes = Some,
     value_from_str = (\<lambda>s. Some (as_bytes s)), value_to_str = (\<lambda>bs. Some (bytes_str bs)), header_iter = rev,
     status_from_u16 = Some, is_success = (\<lambda>n. 200 \<le> n \<and> n < 300), is_redirection = (\<lambda>n. 300 \<le> n \<and> n < 400),
     show_status = (\<lambda>_. ''101 Switching Protocols''), show_version = (\<lambda>_. ''HTTP/1.1''),
     uri_parse = (\<lambda>s. Some \<lparr>scheme_str = Some ''ws'', authority = Some ''localhost:8080'', uri_host = Some ''localhost'',
       port_u16 = Some 8080, path_and_query = Some ''/chat'', uri_text = s\<rparr>),
     parse_headers = (\<lambda>_ _. Ok None), parse_request = (\<lambda>_ _. Ok None), parse_response = (\<lambda>_ _. Ok None)\<rparr>"

lemma sample_crates_ok: "http_ok sample_crates"
  by (simp add: http_ok_def sample_crates_def printable_def)

definition sample_uri :: Uri where
  "sample_uri = \<lparr>scheme_str = Some ''ws'', authority = Some ''localhost:8080'', uri_host = Some ''localhost'',
     port_u16 = Some 8080, path_and_query = Some ''/chat'', uri_text = ''ws://localhost:8080/chat''\<rparr>"

definition duplicated_request :: "unit HttpRequest" where
  "duplicated_request = \<lparr>req_method = ''GET'', req_uri = sample_uri, req_version = HTTP_11,
     req_headers = client_headers sample_crates ''localhost:8080'' @
       [(''host'', as_bytes ''other''), (''origin'', as_bytes ''here'')], req_body = ()\<rparr>"

section \<open>Properties\<close>

text \<open>
  C27: Generating the request prints the first line, the five headers of the protocol once each, with the
  first of their values, and every other header, in the order of the iteration; it also gives the
  websocket key. It fails only for a URI without a path, a header of the protocol that is missing or a value
  that is not text: a duplicated header of the protocol is not an error, its later values are left out.
\<close>
theorem generate_request_exact:
  assumes "\<forall>m. mset (header_iter h m) = mset m" and "all_text h (req_headers req)"
    and "path_and_query (req_uri req) = Some path"
  shows "if \<forall>n \<in> set WEBSOCKET_HEADERS. header_get n (req_headers req) \<noteq> None
    then \<exists>others. mset others = mset (without WEBSOCKET_HEADERS (req_headers req)) \<and>
      generate_request h req = Ok (request_text h path (req_version req)
        (map (\<lambda>n. (n, first_text h (req_headers req) n)) WEBSOCKET_HEADERS @
         map (\<lambda>(k, v). (shown_name k, value_text h v)) others),
        first_text h (req_headers req) KEY_HEADERNAME)
    else \<exists>e. generate_request h req = Err e"
proof (cases "\<forall>n \<in> set WEBSOCKET_HEADERS. header_get n (req_headers req) \<noteq> None")
  case True
  with generate_request_lines [OF assms True] assms(1) show ?thesis by auto
next
  case False
  then obtain n where "n \<in> set WEBSOCKET_HEADERS" "header_get n (req_headers req) = None" by auto
  from write_required_missing [OF this] obtain e where
    "write_required h WEBSOCKET_HEADERS (req_headers req)
      (as_bytes (''GET '' @ path @ '' '' @ show_version h (req_version req) @ CRLF)) = Err e" by blast
  with assms(3) have "\<exists>e. generate_request h req = Err e"
    by (cases "header_get KEY_HEADERNAME (req_headers req)")
      (auto simp: generate_request_def ok_or_def split: option.splits)
  then show ?thesis unfolding if_not_P [OF False] .
qed

theorem generate_request_exact_witness:
  "\<exists>others. mset others = {#(''origin'', as_bytes ''here'')#} \<and>
    generate_request sample_crates duplicated_request =
      Ok (request_text sample_crates ''/chat'' HTTP_11 (client_lines sample_crates ''localhost:8080'' @
        map (\<lambda>(k, v). (shown_name k, value_text sample_crates v)) others), ''c2FtcGxl'')"
proof -
  have iter: "\<forall>m. mset (header_iter sample_crates m) = mset m" by (simp add: sample_crates_def)
  have texts: "all_text sample_crates (req_headers duplicated_request)"
    by (simp add: all_text_def sample_crates_def)
  have path: "path_and_query (req_uri duplicated_request) = Some ''/chat''"
    by (simp add: duplicated_request_def sample_uri_def)
  show ?thesis
    using generate_request_exact [OF iter texts path]
    by (simp add: duplicated_request_def WEBSOCKET_HEADERS_def KEY_HEADERNAME_def header_get_def client_headers_def
        without_def first_text_def value_text_def client_lines_def generate_key_def sample_crates_def)
qed

end
