(* ===== verification/Ws_Handshake.thy ===== *)
theory Ws_Handshake
  imports Ws_Upgrade Ws_Returns
begin

text \<open>
  The websocket handshake: the machine of \<open>src/src/adapters/ws/handshake/machine.rs\<close>, the loop of
  \<open>handshake/mod.rs\<close>, the two roles of \<open>handshake/client.rs\<close> and \<open>handshake/server.rs\<close>, and the entry
  points of \<open>ws/client.rs\<close> and \<open>ws/server.rs\<close>. A machine owns the handle of its stream (\<open>'s\<close>); the
  state of the socket behind the handle, a \<open>wstream\<close>, is passed along, because it outlives a
  machine that fails.
\<close>

section \<open>The attack check\<close>

record AttackCheck =
  number_of_packets :: nat
  number_of_bytes :: nat

definition AttackCheck_new :: AttackCheck where
  "AttackCheck_new = \<lparr>number_of_packets = 0, number_of_bytes = 0\<rparr>"

definition MAX_BYTES :: nat where "MAX_BYTES = 65536"
definition MAX_PACKETS :: nat where "MAX_PACKETS = 512"
definition MIN_PACKET_SIZE :: nat where "MIN_PACKET_SIZE = 128"
definition MIN_PACKET_CHECK_THRESHOLD :: nat where "MIN_PACKET_CHECK_THRESHOLD = 64"

definition check_incoming_packet_size :: "AttackCheck \<Rightarrow> nat \<Rightarrow> AttackCheck \<times> (Error + unit)" where
  "check_incoming_packet_size ac len =
     (let ac = ac\<lparr>number_of_packets := number_of_packets ac + 1, number_of_bytes := number_of_bytes ac + len\<rparr> in
      if MAX_BYTES < number_of_bytes ac then (ac, Err AttackAttempt)
      else if MAX_PACKETS < number_of_packets ac then (ac, Err AttackAttempt)
      else if MIN_PACKET_CHECK_THRESHOLD < number_of_packets ac \<and>
              number_of_bytes ac < number_of_packets ac * MIN_PACKET_SIZE then (ac, Err AttackAttempt)
      else (ac, Ok ()))"

section \<open>The machine\<close>

datatype HandshakeState = Reading bytes AttackCheck | Writing bytes

record 's HandshakeMachine =
  mach_stream :: 's
  mach_state :: HandshakeState

definition start_read :: "'s \<Rightarrow> 's HandshakeMachine" where
  "start_read stream = \<lparr>mach_stream = stream, mach_state = Reading [] AttackCheck_new\<rparr>"

definition start_write :: "'s \<Rightarrow> bytes \<Rightarrow> 's HandshakeMachine" where
  "start_write stream data = \<lparr>mach_stream = stream, mach_state = Writing data\<rparr>"

datatype ('o, 's) StageResult = DoneReading 'o 's bytes | DoneWriting 's

datatype ('o, 's) RoundResult =
    RoundWouldBlock "'s HandshakeMachine"
  | RoundIncomplete "'s HandshakeMachine"
  | StageFinished "('o, 's) StageResult"

type_synonym 'o try_parse = "bytes \<Rightarrow> (Error + (nat \<times> 'o) option) exec"

text \<open>One round. In the reading state the round looks at the bytes in the buffer; it does not call \<open>read\<close>.\<close>

definition single_round ::
  "'o try_parse \<Rightarrow> wstream \<Rightarrow> 's HandshakeMachine \<Rightarrow> (wstream \<times> (Error + ('o, 's) RoundResult)) exec" where
  "single_round try_parse s m =
     (case mach_state m of
        Reading buf attack_check \<Rightarrow>
          let len = length buf in
          if len = 0 then Done (s, Ok (RoundWouldBlock m))
          else
            (case check_incoming_packet_size attack_check len of
               (_, Inl e) \<Rightarrow> Done (s, Err e)
             | (attack_check, Inr _) \<Rightarrow>
                 xbind (try_parse buf) (\<lambda>ret.
                 Done (s, rbind ret (\<lambda>parsed.
                   case parsed of
                     Some (used, obj) \<Rightarrow> Ok (StageFinished (DoneReading obj (mach_stream m) (drop used buf)))
                   | None \<Rightarrow> Ok (RoundIncomplete (m\<lparr>mach_state := Reading buf attack_check\<rparr>))))))
      | Writing buf \<Rightarrow>
          xbind (assert_that (buf \<noteq> [])) (\<lambda>_.
          case stream_write s buf of
            (s, ret) \<Rightarrow>
              (case no_block (map_sum Io id ret) of
                 Inl e \<Rightarrow> Done (s, Err e)
               | Inr (Some n) \<Rightarrow>
                   xbind (assert_that (0 < n)) (\<lambda>_.
                   let buf = drop n buf in
                   Done (s, Ok (if buf \<noteq> [] then RoundIncomplete (m\<lparr>mach_state := Writing buf\<rparr>)
                                else StageFinished (DoneWriting (mach_stream m)))))
               | Inr None \<Rightarrow> Done (s, Ok (RoundWouldBlock m)))))"

section \<open>The loop\<close>

record ('r, 's) MidHandshake =
  mid_role :: 'r
  mid_machine :: "'s HandshakeMachine"

datatype ('r, 's) HandshakeError = HandshakeInterrupted "('r, 's) MidHandshake" | Failure Error

datatype ('s, 'f) ProcessingResult = Continue "'s HandshakeMachine" | Finished 'f

type_synonym ('r, 'o, 's, 'f) stage =
  "'r \<Rightarrow> wstream \<Rightarrow> ('o, 's) StageResult \<Rightarrow> ('r \<times> (Error + ('s, 'f) ProcessingResult)) exec"

partial_function (option) handshake_loop ::
  "'o try_parse \<Rightarrow> ('r, 'o, 's, 'f) stage \<Rightarrow> 'r \<Rightarrow> wstream \<Rightarrow> 's HandshakeMachine \<Rightarrow>
   (wstream \<times> (('r, 's) HandshakeError + 'f)) exec option" where
  "handshake_loop try_parse stage_finished role s mach =
     (case single_round try_parse s mach of
        Panic \<Rightarrow> Some Panic
      | Done (s, ret) \<Rightarrow>
          (case ret of
             Inl e \<Rightarrow> Some (Done (s, Err (Failure e)))
           | Inr (RoundWouldBlock m) \<Rightarrow>
               Some (Done (s, Err (HandshakeInterrupted \<lparr>mid_role = role, mid_machine = m\<rparr>)))
           | Inr (RoundIncomplete m) \<Rightarrow> handshake_loop try_parse stage_finished role s m
           | Inr (StageFinished stage) \<Rightarrow>
               (case stage_finished role s stage of
                  Panic \<Rightarrow> Some Panic
                | Done (role, ret) \<Rightarrow>
                    (case ret of
                       Inl e \<Rightarrow> Some (Done (s, Err (Failure e)))
                     | Inr (Continue m) \<Rightarrow> handshake_loop try_parse stage_finished role s m
                     | Inr (Finished result) \<Rightarrow> Some (Done (s, Ok result))))))"

definition handshake ::
  "'o try_parse \<Rightarrow> ('r, 'o, 's, 'f) stage \<Rightarrow> wstream \<Rightarrow> ('r, 's) MidHandshake \<Rightarrow>
   (wstream \<times> (('r, 's) HandshakeError + 'f)) exec option" where
  "handshake try_parse stage_finished s mid =
     handshake_loop try_parse stage_finished (mid_role mid) s (mid_machine mid)"

section \<open>The client\<close>

record ClientHandshake =
  verify_data :: VerifyData
  client_config :: "WebSocketConfig option"

type_synonym 's client_mid = "(ClientHandshake, 's) MidHandshake"

definition ClientHandshake_start ::
  "'x http_crates_scheme \<Rightarrow> 's \<Rightarrow> unit HttpRequest \<Rightarrow> WebSocketConfig option \<Rightarrow> Error + 's client_mid" where
  "ClientHandshake_start h stream request config =
     (if req_method request \<noteq> ''GET'' then Err (Protocol WrongHttpMethod)
      else if req_version request < HTTP_11 then Err (Protocol WrongHttpVersion)
      else
        rbind (uri_mode (req_uri request)) (\<lambda>_.
        rbind (generate_request h request) (\<lambda>(request, key).
        Ok \<lparr>mid_role = \<lparr>verify_data = \<lparr>accept_key = derive_accept_key h (as_bytes key)\<rparr>, client_config = config\<rparr>,
            mid_machine = start_write stream request\<rparr>)))"

text \<open>The final result is the websocket, as the handle and the context with its socket, and the response.\<close>

definition client_stage_finished ::
  "'x http_crates_scheme \<Rightarrow> (ClientHandshake, Response, 's, 's \<times> WebSocket \<times> Response) stage" where
  "client_stage_finished h role s finish =
     (case finish of
        DoneWriting stream \<Rightarrow> Done (role, Ok (Continue (start_read stream)))
      | DoneReading result stream tail \<Rightarrow>
          (case verify_response h (verify_data role) result of
             Inr r \<Rightarrow>
               xbind (WebSocket_from_partially_read s tail Client (client_config role)) (\<lambda>websocket.
               Done (role, Ok (Finished (stream, websocket, r))))
           | Inl (Http e) \<Rightarrow> Done (role, Err (Http (e\<lparr>resp_body := Some tail\<rparr>)))
           | Inl e \<Rightarrow> Done (role, Err e)))"

definition client_handshake ::
  "'x http_crates_scheme \<Rightarrow> wstream \<Rightarrow> 's client_mid \<Rightarrow>
   (wstream \<times> ((ClientHandshake, 's) HandshakeError + 's \<times> WebSocket \<times> Response)) exec option" where
  "client_handshake h = handshake (Response_try_parse h) (client_stage_finished h)"

section \<open>The server\<close>

type_synonym ErrorResponse = "string option HttpResponse"
type_synonym Callback = "unit HttpRequest \<Rightarrow> unit HttpResponse \<Rightarrow> ErrorResponse + unit HttpResponse"

definition NoCallback :: Callback where
  "NoCallback request response = Ok response"

record ServerHandshake =
  callback :: "Callback option"
  server_ws_config :: "WebSocketConfig option"
  error_response :: "ErrorResponse option"

type_synonym 's server_mid = "(ServerHandshake, 's) MidHandshake"

definition ServerHandshake_start :: "'s \<Rightarrow> Callback \<Rightarrow> WebSocketConfig option \<Rightarrow> 's server_mid" where
  "ServerHandshake_start stream cb config =
     \<lparr>mid_role = \<lparr>callback = Some cb, server_ws_config = config, error_response = None\<rparr>,
      mid_machine = start_read stream\<rparr>"

definition server_stage_finished ::
  "'x http_crates_scheme \<Rightarrow> (ServerHandshake, unit HttpRequest, 's, 's \<times> WebSocket) stage" where
  "server_stage_finished h role s finish =
     (case finish of
        DoneReading result stream tail \<Rightarrow>
          if tail \<noteq> [] then Done (role, Err (Protocol JunkAfterRequest))
          else
            (case create_response h result of
               Inl e \<Rightarrow> Done (role, Err e)
             | Inr response \<Rightarrow>
                 let callback_result = (case callback role of Some cb \<Rightarrow> cb result response | None \<Rightarrow> Ok response);
                     role = role\<lparr>callback := None\<rparr> in
                 (case callback_result of
                    Inr response \<Rightarrow>
                      Done (role, rbind (write_response h response) (\<lambda>output.
                        Ok (Continue (start_write stream output))))
                  | Inl resp \<Rightarrow>
                      if is_success h (resp_status resp) then Done (role, Err (Protocol CustomResponseSuccessful))
                      else
                        let role = role\<lparr>error_response := Some resp\<rparr> in
                        Done (role, rbind (write_response h resp) (\<lambda>output.
                          Ok (Continue (start_write stream
                            (case resp_body resp of Some body \<Rightarrow> output @ as_bytes body | None \<Rightarrow> output)))))))
      | DoneWriting stream \<Rightarrow>
          (case error_response role of
             Some err \<Rightarrow>
               Done (role\<lparr>error_response := None\<rparr>,
                 Err (Http \<lparr>resp_status = resp_status err, resp_version = resp_version err,
                   resp_headers = resp_headers err, resp_body = map_option as_bytes (resp_body err)\<rparr>))
           | None \<Rightarrow>
               xbind (from_raw_socket s Server (server_ws_config role)) (\<lambda>websocket.
               Done (role, Ok (Finished (stream, websocket))))))"

definition server_handshake ::
  "'x http_crates_scheme \<Rightarrow> wstream \<Rightarrow> 's server_mid \<Rightarrow>
   (wstream \<times> ((ServerHandshake, 's) HandshakeError + 's \<times> WebSocket)) exec option" where
  "server_handshake h = handshake (Request_try_parse h) (server_stage_finished h)"

section \<open>Entry points\<close>

definition ws_accept_hdr_with_config ::
  "'x http_crates_scheme \<Rightarrow> wstream \<Rightarrow> 's \<Rightarrow> Callback \<Rightarrow> WebSocketConfig option \<Rightarrow>
   (wstream \<times> ((ServerHandshake, 's) HandshakeError + 's \<times> WebSocket)) exec option" where
  "ws_accept_hdr_with_config h s stream cb config = server_handshake h s (ServerHandshake_start stream cb config)"

definition ws_accept_with_config ::
  "'x http_crates_scheme \<Rightarrow> wstream \<Rightarrow> 's \<Rightarrow> WebSocketConfig option \<Rightarrow>
   (wstream \<times> ((ServerHandshake, 's) HandshakeError + 's \<times> WebSocket)) exec option" where
  "ws_accept_with_config h s stream config = ws_accept_hdr_with_config h s stream NoCallback config"

definition ws_accept_hdr ::
  "'x http_crates_scheme \<Rightarrow> wstream \<Rightarrow> 's \<Rightarrow> Callback \<Rightarrow>
   (wstream \<times> ((ServerHandshake, 's) HandshakeError + 's \<times> WebSocket)) exec option" where
  "ws_accept_hdr h s stream cb = ws_accept_hdr_with_config h s stream cb None"

definition ws_accept ::
  "'x http_crates_scheme \<Rightarrow> wstream \<Rightarrow> 's \<Rightarrow>
   (wstream \<times> ((ServerHandshake, 's) HandshakeError + 's \<times> WebSocket)) exec option" where
  "ws_accept h s stream = ws_accept_with_config h s stream None"

text \<open>\<open>request\<close> is the result of the conversion \<open>into_client_request\<close>.\<close>

definition ws_connect_with_config ::
  "'x http_crates_scheme \<Rightarrow> wstream \<Rightarrow> Error + unit HttpRequest \<Rightarrow> 's \<Rightarrow> WebSocketConfig option \<Rightarrow>
   (wstream \<times> ((ClientHandshake, 's) HandshakeError + 's \<times> WebSocket \<times> Response)) exec option" where
  "ws_connect_with_config h s request stream config =
     (case rbind request (\<lambda>request. ClientHandshake_start h stream request config) of
        Inl e \<Rightarrow> Some (Done (s, Err (Failure e)))
      | Inr mid \<Rightarrow> client_handshake h s mid)"

definition ws_connect ::
  "'x http_crates_scheme \<Rightarrow> wstream \<Rightarrow> Error + unit HttpRequest \<Rightarrow> 's \<Rightarrow>
   (wstream \<times> ((ClientHandshake, 's) HandshakeError + 's \<times> WebSocket \<times> Response)) exec option" where
  "ws_connect h s request stream = ws_connect_with_config h s request stream None"

section \<open>Connecting in blocking mode\<close>

text \<open>What \<open>std::net\<close> answers in one attempt: the addresses of a host, a connection, \<open>TCP_NODELAY\<close>.\<close>

record 'a std_net =
  to_socket_addrs :: "string \<Rightarrow> u16 \<Rightarrow> io_error + 'a list"
  TcpStream_connect :: "'a \<Rightarrow> io_error + wstream"
  stream_nodelay :: "io_error + unit"

fun connect_to_some :: "'a std_net \<Rightarrow> 'a list \<Rightarrow> Uri \<Rightarrow> Error + wstream" where
  "connect_to_some net [] uri = Err (Url (UnableToConnect (uri_text uri)))"
| "connect_to_some net (a # as) uri =
     (case TcpStream_connect net a of Inr s \<Rightarrow> Ok s | Inl _ \<Rightarrow> connect_to_some net as uri)"

text \<open>The brackets of an IPv6 host are cut off; the range of the slice is invalid for a lone bracket.\<close>

definition strip_brackets :: "string \<Rightarrow> string exec" where
  "strip_brackets host =
     (case host of
        CHR ''['' # rest \<Rightarrow> if rest = [] then Panic else Done (butlast rest)
      | _ \<Rightarrow> Done host)"

definition try_client_handshake ::
  "'x http_crates_scheme \<Rightarrow> 'a std_net \<Rightarrow> unit HttpRequest \<Rightarrow> WebSocketConfig option \<Rightarrow>
   (Error + WebSocket \<times> Response) exec option" where
  "try_client_handshake h net request config =
     (let uri = req_uri request in
      case rbind (uri_mode uri) (\<lambda>mode. rbind (ok_or (Url NoHostName) (uri_host uri)) (\<lambda>host. Ok (mode, host))) of
        Inl e \<Rightarrow> Some (Done (Err e))
      | Inr (mode, host) \<Rightarrow>
          (case strip_brackets host of
             Panic \<Rightarrow> Some Panic
           | Done host \<Rightarrow>
               let port = (case port_u16 uri of Some p \<Rightarrow> p | None \<Rightarrow> (case mode of Plain \<Rightarrow> 80 | Tls \<Rightarrow> 443)) in
               (case rbind (map_sum Io id (to_socket_addrs net host port)) (\<lambda>addrs.
                     rbind (connect_to_some net addrs uri) (\<lambda>s.
                     rbind (map_sum Io id (stream_nodelay net)) (\<lambda>_. Ok s))) of
                  Inl e \<Rightarrow> Some (Done (Err e))
                | Inr s \<Rightarrow>
                    obind (ws_connect_with_config h s (Ok request) () config) (\<lambda>(_, client).
                    Some (case client of
                      Inr (_, websocket, response) \<Rightarrow> Done (Ok (websocket, response))
                    | Inl (Failure f) \<Rightarrow> Done (Err f)
                    | Inl (HandshakeInterrupted _) \<Rightarrow> Panic)))))"

definition create_request :: "unit HttpRequest \<Rightarrow> Uri \<Rightarrow> unit HttpRequest" where
  "create_request parts uri = parts\<lparr>req_uri := uri\<rparr>"

fun redirect_loop ::
  "'x http_crates_scheme \<Rightarrow> (nat \<Rightarrow> 'a std_net) \<Rightarrow> unit HttpRequest \<Rightarrow> WebSocketConfig option \<Rightarrow> nat \<Rightarrow>
   nat list \<Rightarrow> Uri \<Rightarrow> (Error + WebSocket \<times> Response) exec option" where
  "redirect_loop h net parts config max_redirects [] uri = Some Panic"
| "redirect_loop h net parts config max_redirects (attempt # attempts) uri =
     (case try_client_handshake h (net attempt) (create_request parts uri) config of
        Some (Done (Inl (Http res))) \<Rightarrow>
          if is_redirection h (resp_status res) \<and> attempt < max_redirects
          then
            (case header_get ''Location'' (resp_headers res) of
               Some location \<Rightarrow>
                 (case rbind (ok_or Utf8 (value_to_str h location)) (\<lambda>t. ok_or HttpFormat (uri_parse h t)) of
                    Inl e \<Rightarrow> Some (Done (Err e))
                  | Inr uri \<Rightarrow> redirect_loop h net parts config max_redirects attempts uri)
             | None \<Rightarrow> Some (Done (Err (Http res))))
          else Some (Done (Err (Http res)))
      | other \<Rightarrow> other)"

text \<open>\<open>max_redirects + 1\<close> is an addition of \<open>u8\<close>: with overflow checks (\<open>debug\<close>) it panics at 255, without them it wraps.\<close>

definition connect_with_config ::
  "bool \<Rightarrow> 'x http_crates_scheme \<Rightarrow> (nat \<Rightarrow> 'a std_net) \<Rightarrow> Error + unit HttpRequest \<Rightarrow> WebSocketConfig option \<Rightarrow>
   u8 \<Rightarrow> (Error + WebSocket \<times> Response) exec option" where
  "connect_with_config debug h net request config max_redirects =
     (case request of
        Inl e \<Rightarrow> Some (Done (Err e))
      | Inr parts \<Rightarrow>
          if debug \<and> max_redirects = 255 then Some Panic
          else redirect_loop h net parts config (unat max_redirects) [0 ..< unat (max_redirects + 1)] (req_uri parts))"

definition ws_blocking_connect ::
  "bool \<Rightarrow> 'x http_crates_scheme \<Rightarrow> (nat \<Rightarrow> 'a std_net) \<Rightarrow> Error + unit HttpRequest \<Rightarrow>
   (Error + WebSocket \<times> Response) exec option" where
  "ws_blocking_connect debug h net request = connect_with_config debug h net request None 3"

section \<open>Rounds\<close>

lemma round_empty:
  "mach_state m = Reading [] ac \<Longrightarrow> single_round tp s m = Done (s, Ok (RoundWouldBlock m))"
  by (simp add: single_round_def)

lemma loop_empty:
  "mach_state m = Reading [] ac \<Longrightarrow>
   handshake_loop tp sf role s m = Some (Done (s, Err (HandshakeInterrupted \<lparr>mid_role = role, mid_machine = m\<rparr>)))"
  by (subst handshake_loop.simps) (simp add: round_empty)

text \<open>What is left to do in the current stage.\<close>

definition stage_work :: "'s HandshakeMachine \<Rightarrow> nat" where
  "stage_work m =
     (case mach_state m of Writing buf \<Rightarrow> length buf | Reading buf ac \<Rightarrow> Suc MAX_PACKETS - number_of_packets ac)"

definition is_writing :: "'s HandshakeMachine \<Rightarrow> bool" where
  "is_writing m = (case mach_state m of Writing _ \<Rightarrow> True | Reading _ _ \<Rightarrow> False)"

fun stage_stream :: "('o, 's) StageResult \<Rightarrow> 's" where
  "stage_stream (DoneWriting c) = c"
| "stage_stream (DoneReading _ c _) = c"

fun ends_writing :: "('o, 's) StageResult \<Rightarrow> bool" where
  "ends_writing (DoneWriting _) = True"
| "ends_writing (DoneReading _ _ _) = False"

lemma check_ok_packets:
  "check_incoming_packet_size ac len = (ac', Ok ()) \<Longrightarrow>
   number_of_packets ac' = Suc (number_of_packets ac) \<and> number_of_packets ac' \<le> MAX_PACKETS"
  by (auto simp: check_incoming_packet_size_def Let_def split: if_splits)

lemma round_cases:
  assumes "single_round tp s m = Done (s', Ok r)"
  shows "case r of
      RoundWouldBlock m' \<Rightarrow> m' = m
    | RoundIncomplete m' \<Rightarrow> stage_work m' < stage_work m \<and> is_writing m' = is_writing m \<and> mach_stream m' = mach_stream m
    | StageFinished st \<Rightarrow> ends_writing st = is_writing m \<and> stage_stream st = mach_stream m"
proof (cases "mach_state m")
  case (Reading buf ac)
  show ?thesis
  proof (cases "buf = []")
    case True
    then show ?thesis using assms Reading by (auto simp: round_empty)
  next
    case False
    obtain ac' ret where c: "check_incoming_packet_size ac (length buf) = (ac', ret)" by fastforce
    show ?thesis
    proof (cases ret)
      case (Inr u)
      with c have "check_incoming_packet_size ac (length buf) = (ac', Ok ())" by simp
      from check_ok_packets [OF this]
      have "number_of_packets ac' = Suc (number_of_packets ac)" "number_of_packets ac' \<le> MAX_PACKETS" by simp_all
      then show ?thesis
        using assms Reading False c Inr
        by (cases r) (auto simp: single_round_def result_simps stage_work_def is_writing_def split: option.splits)
    qed (use assms Reading False c in \<open>simp add: single_round_def\<close>)
  qed
next
  case (Writing buf)
  obtain s1 ret where w: "stream_write s buf = (s1, ret)" by fastforce
  show ?thesis
    using assms Writing w
    by (cases ret)
      (auto simp: single_round_def result_simps stage_work_def is_writing_def no_block_def into_non_blocking_def
        assert_that_def split: if_splits option.splits)
qed

text \<open>A stage ends: the loop has returned, or it goes on with what the role makes of the finished stage.\<close>

definition after_stage ::
  "'o try_parse \<Rightarrow> ('r, 'o, 's, 'f) stage \<Rightarrow> 'r \<Rightarrow> wstream \<Rightarrow> ('o, 's) StageResult \<Rightarrow>
   (wstream \<times> (('r, 's) HandshakeError + 'f)) exec option" where
  "after_stage tp sf role s st =
     (case sf role s st of
        Panic \<Rightarrow> Some Panic
      | Done (role, ret) \<Rightarrow>
          (case ret of
             Inl e \<Rightarrow> Some (Done (s, Err (Failure e)))
           | Inr (Continue m) \<Rightarrow> handshake_loop tp sf role s m
           | Inr (Finished result) \<Rightarrow> Some (Done (s, Ok result))))"

lemma after_stage_returns:
  assumes "\<And>role' m. sf role s st = Done (role', Ok (Continue m)) \<Longrightarrow> \<exists>r. handshake_loop tp sf role' s m = Some r"
  shows "\<exists>r. after_stage tp sf role s st = Some r"
  using assms by (auto simp: after_stage_def split: exec.splits sum.splits ProcessingResult.splits)

lemma loop_stage:
  obtains (returns) r where "handshake_loop tp sf role s m = Some r"
  | (stage) s' st where "ends_writing st = is_writing m"
      "handshake_loop tp sf role s m = after_stage tp sf role s' st"
proof -
  have "(\<exists>r. handshake_loop tp sf role s m = Some r) \<or>
    (\<exists>s' st. ends_writing st = is_writing m \<and> handshake_loop tp sf role s m = after_stage tp sf role s' st)"
  proof (induction "stage_work m" arbitrary: s m rule: less_induct)
    case less
    note loop = handshake_loop.simps [of tp sf role s m]
    show ?case
    proof (cases "single_round tp s m")
      case Panic
      then show ?thesis by (simp add: loop)
    next
      case (Done x)
      obtain s' ret where x: "x = (s', ret)" by fastforce
      show ?thesis
      proof (cases ret)
        case (Inl e)
        then show ?thesis using Done x by (simp add: loop)
      next
        case (Inr r)
        with Done x have "single_round tp s m = Done (s', Ok r)" by simp
        note cases = round_cases [OF this]
        show ?thesis
        proof (cases r)
          case (RoundIncomplete m')
          with cases have "stage_work m' < stage_work m" "is_writing m' = is_writing m" by auto
          from less [OF this(1), of s'] this(2) Done x Inr RoundIncomplete show ?thesis by (simp add: loop)
        next
          case (StageFinished st)
          with cases Done x Inr show ?thesis by (auto simp: loop after_stage_def)
        qed (use Done x Inr in \<open>simp add: loop\<close>)
      qed
    qed
  qed
  then show thesis using that by blast
qed

lemma client_stage_ends: "\<not> ends_writing st \<Longrightarrow> client_stage_finished h role s st \<noteq> Done (role', Ok (Continue m))"
  by (cases st) (auto simp: client_stage_finished_def result_simps split: sum.splits Error.splits)

lemma client_stage_reads: "ends_writing st \<Longrightarrow> \<exists>c. client_stage_finished h role s st = Done (role, Ok (Continue (start_read c)))"
  by (cases st) (auto simp: client_stage_finished_def)

lemma server_stage_ends: "ends_writing st \<Longrightarrow> server_stage_finished h role s st \<noteq> Done (role', Ok (Continue m))"
  by (cases st) (auto simp: server_stage_finished_def result_simps split: option.splits)

lemma server_stage_writes:
  "\<not> ends_writing st \<Longrightarrow> server_stage_finished h role s st = Done (role', Ok (Continue m)) \<Longrightarrow> is_writing m"
  by (cases st)
    (auto simp: server_stage_finished_def result_simps start_write_def is_writing_def Let_def
      split: option.splits sum.splits if_splits)

lemma client_loop_returns: "\<exists>r. handshake_loop tp (client_stage_finished h) role s m = Some r"
proof (cases rule: loop_stage [of tp "client_stage_finished h" role s m])
  case (stage s' st)
  have "\<exists>r. after_stage tp (client_stage_finished h) role s' st = Some r"
  proof (cases "ends_writing st")
    case True
    then obtain c where "client_stage_finished h role s' st = Done (role, Ok (Continue (start_read c)))"
      using client_stage_reads by blast
    then show ?thesis by (simp add: after_stage_def loop_empty [of _ AttackCheck_new] start_read_def)
  qed (auto intro: after_stage_returns dest: client_stage_ends)
  with stage(2) show ?thesis by simp
qed blast

lemma server_writing_returns:
  assumes "is_writing m"
  shows "\<exists>r. handshake_loop tp (server_stage_finished h) role s m = Some r"
proof (cases rule: loop_stage [of tp "server_stage_finished h" role s m])
  case (stage s' st)
  have "\<exists>r. after_stage tp (server_stage_finished h) role s' st = Some r"
    using stage(1) assms by (intro after_stage_returns) (auto dest: server_stage_ends)
  with stage(2) show ?thesis by simp
qed blast

lemma server_loop_returns: "\<exists>r. handshake_loop tp (server_stage_finished h) role s m = Some r"
proof (cases "is_writing m")
  case False
  show ?thesis
  proof (cases rule: loop_stage [of tp "server_stage_finished h" role s m])
    case (stage s' st)
    have "\<exists>r. after_stage tp (server_stage_finished h) role s' st = Some r"
      using stage(1) False
      by (intro after_stage_returns) (auto dest: server_stage_writes intro: server_writing_returns)
    with stage(2) show ?thesis by simp
  qed blast
qed (rule server_writing_returns)

section \<open>Invariants of a handshake\<close>

text \<open>
  What a role (the trait \<open>HandshakeRole\<close>) has to promise for a property of its machine to survive any
  number of calls: rounds and finished stages keep it, and the final result satisfies \<open>post\<close>.
\<close>

locale handshake_invariant =
  fixes try_parse :: "'o try_parse" and stage_finished :: "('r, 'o, 's, 'f) stage"
    and inv :: "'r \<Rightarrow> 's HandshakeMachine \<Rightarrow> bool" and post :: "'f \<Rightarrow> bool"
  assumes round_keeps: "inv role m \<Longrightarrow> single_round try_parse s m = Done (s', Ok (RoundIncomplete m')) \<Longrightarrow> inv role m'"
    and stage_keeps: "inv role m \<Longrightarrow> single_round try_parse s m = Done (s', Ok (StageFinished st)) \<Longrightarrow>
      stage_finished role s' st = Done (role', Ok (Continue m')) \<Longrightarrow> inv role' m'"
    and stage_post: "inv role m \<Longrightarrow> single_round try_parse s m = Done (s', Ok (StageFinished st)) \<Longrightarrow>
      stage_finished role s' st = Done (role', Ok (Finished f)) \<Longrightarrow> post f"
begin

definition result_ok :: "(('r, 's) HandshakeError + 'f) \<Rightarrow> bool" where
  "result_ok res =
     (case res of
        Inr f \<Rightarrow> post f
      | Inl (HandshakeInterrupted mid) \<Rightarrow> inv (mid_role mid) (mid_machine mid)
      | Inl (Failure e) \<Rightarrow> True)"

lemma loop_result:
  "handshake_loop tp sf role s m = Some r \<Longrightarrow>
   tp = try_parse \<and> sf = stage_finished \<longrightarrow> inv role m \<longrightarrow> (\<forall>s' res. r = Done (s', res) \<longrightarrow> result_ok res)"
proof (induction rule: handshake_loop.raw_induct [rotated, consumes 1, case_names turn])
  case (turn loop tp sf role s m r)
  show ?case
  proof (intro impI allI)
    fix sx resx
    assume eqs: "tp = try_parse \<and> sf = stage_finished" and inv: "inv role m" and r: "r = Done (sx, resx)"
    show "result_ok resx"
    proof (cases "single_round tp s m")
      case (Done x)
      obtain s' ret where x: "x = (s', ret)" by fastforce
      show ?thesis
      proof (cases ret)
        case (Inr rr)
        show ?thesis
        proof (cases rr)
          case (RoundIncomplete m')
          with turn Done x Inr have "loop tp sf role s' m' = Some r" by simp
          with turn eqs inv r Done x Inr RoundIncomplete show ?thesis by (blast intro: round_keeps)
        next
          case (StageFinished st)
          with inv eqs Done x Inr have rnd: "single_round try_parse s m = Done (s', Ok (StageFinished st))" by simp
          show ?thesis
          proof (cases "stage_finished role s' st")
            case Panic
            with turn rnd eqs r show ?thesis by simp
          next
            case (Done y)
            obtain role' ret' where y: "y = (role', ret')" by fastforce
            show ?thesis
            proof (cases ret')
              case (Inl e)
              with turn rnd eqs r Done y show ?thesis by (auto simp: result_ok_def)
            next
              case (Inr pr)
              with Done y turn rnd eqs r inv show ?thesis
                by (cases pr) (auto simp: result_ok_def dest: stage_keeps stage_post)
            qed
          qed
        qed (use turn eqs inv r Done x Inr in \<open>auto simp: result_ok_def round_cases dest: round_cases\<close>)
      qed (use turn eqs r Done x in \<open>auto simp: result_ok_def\<close>)
    qed (use turn r in simp)
  qed
qed

lemma handshake_keeps:
  assumes "handshake try_parse stage_finished s mid = Some (Done (s', res))"
    and "inv (mid_role mid) (mid_machine mid)"
  shows "result_ok res"
  using loop_result assms unfolding handshake_def by blast

end

text \<open>The handle of the stream stays the same, for a client and for a server.\<close>

lemma client_stage_stream:
  "client_stage_finished h role s st = Done (role', Ok (Continue m)) \<Longrightarrow> mach_stream m = stage_stream st"
  "client_stage_finished h role s st = Done (role', Ok (Finished (c, w, r))) \<Longrightarrow> c = stage_stream st"
  by (cases st; auto simp: client_stage_finished_def start_read_def result_simps split: sum.splits Error.splits)+

lemma server_stage_stream:
  "server_stage_finished h role s st = Done (role', Ok (Continue m)) \<Longrightarrow> mach_stream m = stage_stream st"
  "server_stage_finished h role s st = Done (role', Ok (Finished (c, w))) \<Longrightarrow> c = stage_stream st"
  by (cases st; auto simp: server_stage_finished_def start_write_def result_simps Let_def
      split: sum.splits option.splits if_splits)+

interpretation client_stream: handshake_invariant "Response_try_parse h" "client_stage_finished h"
  "\<lambda>_ m. mach_stream m = c" "\<lambda>f. fst f = c" for h :: "'x http_crates_scheme" and c :: 's
  by unfold_locales (auto dest!: round_cases client_stage_stream)

interpretation server_stream: handshake_invariant "Request_try_parse h" "server_stage_finished h"
  "\<lambda>_ m. mach_stream m = c" "\<lambda>f. fst f = c" for h :: "'x http_crates_scheme" and c :: 's
  by unfold_locales (auto dest!: round_cases server_stage_stream)

text \<open>A machine that has no bytes of the peer: writing, or reading with an empty buffer.\<close>

definition no_input :: "'s HandshakeMachine \<Rightarrow> bool" where
  "no_input m = (case mach_state m of Writing _ \<Rightarrow> True | Reading buf _ \<Rightarrow> buf = [])"

definition awaits_input :: "'s HandshakeMachine \<Rightarrow> bool" where
  "awaits_input m = (case mach_state m of Writing _ \<Rightarrow> False | Reading buf _ \<Rightarrow> buf = [])"

lemma round_no_input:
  assumes "no_input m" and "single_round tp s m = Done (s', Ok r)"
  shows "case r of
      RoundWouldBlock m' \<Rightarrow> True
    | RoundIncomplete m' \<Rightarrow> is_writing m'
    | StageFinished st \<Rightarrow> ends_writing st"
proof -
  have "is_writing m \<or> (\<exists>ac. mach_state m = Reading [] ac)"
    using assms(1) by (auto simp: no_input_def is_writing_def split: HandshakeState.splits)
  then show ?thesis
    using assms(2) round_cases [OF assms(2)] by (auto simp: round_empty split: RoundResult.splits)
qed

interpretation client_silent: handshake_invariant "Response_try_parse h" "client_stage_finished h"
  "\<lambda>_. no_input" "\<lambda>_. False" for h :: "'x http_crates_scheme"
proof unfold_locales
  fix role m s s' m'
  assume "no_input m" and "single_round (Response_try_parse h) s m = Done (s', Ok (RoundIncomplete m'))"
  from round_no_input [OF this] show "no_input m'"
    by (auto simp: is_writing_def no_input_def split: HandshakeState.splits)
next
  fix role m s s' and st :: "(Response, 's) StageResult" and role' m'
  assume "no_input m" and "single_round (Response_try_parse h) s m = Done (s', Ok (StageFinished st))"
    and next_stage: "client_stage_finished h role s' st = Done (role', Ok (Continue m'))"
  from round_no_input [OF this(1,2)] have "ends_writing st" by simp
  with client_stage_reads [of st h role s'] next_stage show "no_input m'"
    by (auto simp: start_read_def no_input_def)
next
  fix role m s s' and st :: "(Response, 's) StageResult" and role' f
  assume "no_input m" and "single_round (Response_try_parse h) s m = Done (s', Ok (StageFinished st))"
    and next_stage: "client_stage_finished h role s' st = Done (role', Ok (Finished f))"
  from round_no_input [OF this(1,2)] have "ends_writing st" by simp
  with client_stage_reads [of st h role s'] next_stage show False by auto
qed

interpretation server_silent: handshake_invariant "Request_try_parse h" "server_stage_finished h"
  "\<lambda>_. awaits_input" "\<lambda>_. False" for h :: "'x http_crates_scheme"
  by unfold_locales (auto simp: awaits_input_def round_empty split: HandshakeState.splits)

section \<open>Stages\<close>

text \<open>A message that is not complete is counted again in every round, until it counts as an attack.\<close>

lemma check_fails_only_attack: "check_incoming_packet_size ac n = (ac', Err e) \<Longrightarrow> e = AttackAttempt"
  by (auto simp: check_incoming_packet_size_def Let_def split: if_splits)

lemma loop_partial:
  assumes "mach_state m = Reading buf ac" and "buf \<noteq> []" and "tp buf = Done (Ok None)"
  shows "handshake_loop tp sf role s m = Some (Done (s, Err (Failure AttackAttempt)))"
  using assms
proof (induction "stage_work m" arbitrary: m ac rule: less_induct)
  case less
  obtain ac' ret where c: "check_incoming_packet_size ac (length buf) = (ac', ret)" by fastforce
  show ?case
  proof (cases ret)
    case (Inl e)
    with c less.prems check_fails_only_attack show ?thesis
      by (subst handshake_loop.simps) (simp add: single_round_def)
  next
    case (Inr u)
    let ?m = "m\<lparr>mach_state := Reading buf ac'\<rparr>"
    have rnd: "single_round tp s m = Done (s, Ok (RoundIncomplete ?m))"
      using less.prems c Inr by (simp add: single_round_def)
    with round_cases [OF rnd] have "stage_work ?m < stage_work m" by simp
    then have "handshake_loop tp sf role s ?m = Some (Done (s, Err (Failure AttackAttempt)))"
      using less.prems by (intro less.hyps) simp_all
    with rnd show ?thesis by (subst handshake_loop.simps) simp
  qed
qed

text \<open>A stream that never answers a write with zero bytes.\<close>

definition progresses :: "wstream \<Rightarrow> bool" where
  "progresses s \<longleftrightarrow> (\<forall>n bs. bs \<noteq> [] \<longrightarrow> next_writes s n bs \<noteq> Ok 0)"

lemma stream_write_facts:
  assumes "stream_write s bs = (s', ret)" and "write_contract s" and "progresses s" and "bs \<noteq> []"
  shows "write_contract s'" "progresses s'" "next_reads s' = next_reads s"
    "ret = Ok n \<Longrightarrow> 0 < n \<and> n \<le> length bs \<and> sent_bytes s' = sent_bytes s @ take n bs"
    "ret = Err e \<Longrightarrow> sent_bytes s' = sent_bytes s"
    "ret = Err e \<Longrightarrow> \<exists>n bs e. next_writes s n bs = Err e"
    "\<forall>n bs e. next_writes s n bs \<noteq> Err e \<Longrightarrow> next_writes s' k bs' \<noteq> Err e'"
  using assms
  by (auto simp: stream_write_def write_contract_def progresses_def Let_def split: sum.splits intro: gr0I)

definition write_outcome ::
  "'o try_parse \<Rightarrow> ('r, 'o, 's, 'f) stage \<Rightarrow> 'r \<Rightarrow> wstream \<Rightarrow> 's \<Rightarrow> bytes \<Rightarrow>
   (wstream \<times> (('r, 's) HandshakeError + 'f)) exec option \<Rightarrow> bool" where
  "write_outcome tp sf role s c buf result \<longleftrightarrow> (\<exists>s' p q. buf = p @ q \<and> sent_bytes s' = sent_bytes s @ p \<and>
     next_reads s' = next_reads s \<and> ((\<forall>n bs e. next_writes s n bs \<noteq> Err e) \<longrightarrow> q = []) \<and>
     (q \<noteq> [] \<and> result = Some (Done (s', Err (HandshakeInterrupted
          \<lparr>mid_role = role, mid_machine = \<lparr>mach_stream = c, mach_state = Writing q\<rparr>\<rparr>))) \<or>
      q \<noteq> [] \<and> (\<exists>e. e \<noteq> WouldBlock \<and> result = Some (Done (s', Err (Failure (Io e))))) \<or>
      q = [] \<and> result = after_stage tp sf role s' (DoneWriting c)))"

lemma write_stage:
  assumes "write_contract s" and "progresses s" and "buf \<noteq> []"
  shows "write_outcome tp sf role s c buf
    (handshake_loop tp sf role s \<lparr>mach_stream = c, mach_state = Writing buf\<rparr>)"
  using assms
proof (induction "length buf" arbitrary: buf s rule: less_induct)
  case less
  let ?m = "\<lambda>b. \<lparr>mach_stream = c, mach_state = Writing b\<rparr>"
  obtain s1 ret where w: "stream_write s buf = (s1, ret)" by fastforce
  note facts = stream_write_facts [OF w less.prems]
  note loop = handshake_loop.simps [of tp sf role s "?m buf"]
  show ?case
  proof (cases ret)
    case (Inl e)
    with w less.prems show ?thesis
      unfolding write_outcome_def
      by (intro exI [of _ s1] exI [of _ "[]"] exI [of _ buf])
        (auto simp: loop single_round_def no_block_def into_non_blocking_def facts(3,5,6))
  next
    case (Inr n)
    with facts(4) have n: "0 < n" "n \<le> length buf" "sent_bytes s1 = sent_bytes s @ take n buf" by auto
    show ?thesis
    proof (cases "drop n buf = []")
      case True
      with w Inr n less.prems have "handshake_loop tp sf role s (?m buf) = after_stage tp sf role s1 (DoneWriting c)"
        by (simp add: loop single_round_def no_block_def after_stage_def Let_def)
      with n True facts(3) show ?thesis
        unfolding write_outcome_def by (intro exI [of _ s1] exI [of _ buf] exI [of _ "[]"]) simp
    next
      case False
      with w Inr n less.prems have same: "handshake_loop tp sf role s (?m buf) = handshake_loop tp sf role s1 (?m (drop n buf))"
        by (simp add: loop single_round_def no_block_def Let_def)
      have "write_outcome tp sf role s1 c (drop n buf) (handshake_loop tp sf role s1 (?m (drop n buf)))"
        using less.hyps [of "drop n buf" s1] n False facts(1,2) by simp
      then obtain s' p q where "drop n buf = p @ q" "sent_bytes s' = sent_bytes s1 @ p" "next_reads s' = next_reads s1"
        and all: "(\<forall>n bs e. next_writes s1 n bs \<noteq> Err e) \<longrightarrow> q = []"
        and res: "q \<noteq> [] \<and> handshake_loop tp sf role s (?m buf) = Some (Done (s', Err (HandshakeInterrupted
            \<lparr>mid_role = role, mid_machine = ?m q\<rparr>))) \<or>
          q \<noteq> [] \<and> (\<exists>e. e \<noteq> WouldBlock \<and> handshake_loop tp sf role s (?m buf) = Some (Done (s', Err (Failure (Io e))))) \<or>
          q = [] \<and> handshake_loop tp sf role s (?m buf) = after_stage tp sf role s' (DoneWriting c)"
        unfolding write_outcome_def same by blast
      moreover from this(1) have "buf = (take n buf @ p) @ q" by (metis append.assoc append_take_drop_id)
      moreover have "(\<forall>n bs e. next_writes s n bs \<noteq> Err e) \<longrightarrow> q = []" using all facts(7) by blast
      ultimately show ?thesis
        unfolding write_outcome_def using n(3) facts(3)
        by (intro exI [of _ s'] exI [of _ "take n buf @ p"] exI [of _ q] conjI res) simp_all
    qed
  qed
qed

text \<open>A client that still has bytes to send.\<close>

definition client_outcome ::
  "'x http_crates_scheme \<Rightarrow> ClientHandshake \<Rightarrow> wstream \<Rightarrow> 's \<Rightarrow> bytes \<Rightarrow>
   (wstream \<times> ((ClientHandshake, 's) HandshakeError + 's \<times> WebSocket \<times> Response)) exec option \<Rightarrow> bool" where
  "client_outcome h role s c buf result \<longleftrightarrow> (\<exists>s' p q. buf = p @ q \<and> sent_bytes s' = sent_bytes s @ p \<and>
     next_reads s' = next_reads s \<and> ((\<forall>n bs e. next_writes s n bs \<noteq> Err e) \<longrightarrow> q = []) \<and>
     (result = Some (Done (s', Err (HandshakeInterrupted \<lparr>mid_role = role,
        mid_machine = (if q = [] then start_read c else start_write c q)\<rparr>))) \<or>
      q \<noteq> [] \<and> (\<exists>e. e \<noteq> WouldBlock \<and> result = Some (Done (s', Err (Failure (Io e)))))))"

lemma client_writes:
  assumes "write_contract s" and "progresses s" and "buf \<noteq> []"
  shows "client_outcome h role s c buf (client_handshake h s \<lparr>mid_role = role, mid_machine = start_write c buf\<rparr>)"
proof -
  have "after_stage (Response_try_parse h) (client_stage_finished h) role s' (DoneWriting c) =
      Some (Done (s', Err (HandshakeInterrupted \<lparr>mid_role = role, mid_machine = start_read c\<rparr>)))" for s'
    by (simp add: after_stage_def client_stage_finished_def loop_empty [of _ AttackCheck_new] start_read_def)
  moreover obtain s' p q where "buf = p @ q" "sent_bytes s' = sent_bytes s @ p" "next_reads s' = next_reads s"
    "(\<forall>n bs e. next_writes s n bs \<noteq> Err e) \<longrightarrow> q = []"
    and "q \<noteq> [] \<and> client_handshake h s \<lparr>mid_role = role, mid_machine = start_write c buf\<rparr> =
        Some (Done (s', Err (HandshakeInterrupted \<lparr>mid_role = role, mid_machine = start_write c q\<rparr>))) \<or>
      q \<noteq> [] \<and> (\<exists>e. e \<noteq> WouldBlock \<and> client_handshake h s \<lparr>mid_role = role, mid_machine = start_write c buf\<rparr> =
        Some (Done (s', Err (Failure (Io e))))) \<or>
      q = [] \<and> client_handshake h s \<lparr>mid_role = role, mid_machine = start_write c buf\<rparr> =
        after_stage (Response_try_parse h) (client_stage_finished h) role s' (DoneWriting c)"
    using write_stage [OF assms, of "Response_try_parse h" "client_stage_finished h" role c]
    unfolding write_outcome_def client_handshake_def handshake_def start_write_def MidHandshake.simps by blast
  ultimately show ?thesis
    unfolding client_outcome_def by (intro exI [of _ s'] exI [of _ p] exI [of _ q]) auto
qed

lemma server_awaits: "server_handshake h s (ServerHandshake_start c cb config) =
    Some (Done (s, Err (HandshakeInterrupted (ServerHandshake_start c cb config))))"
  by (simp add: server_handshake_def handshake_def loop_empty [of _ AttackCheck_new] start_read_def
      ServerHandshake_start_def)

text \<open>The next call of the handshake continues where an interruption left it, on a socket in any state.\<close>

definition resumes ::
  "(wstream \<Rightarrow> ('r, 's) MidHandshake \<Rightarrow> (wstream \<times> (('r, 's) HandshakeError + 'f)) exec option) \<Rightarrow>
   ('r, 's) MidHandshake \<Rightarrow> ('r, 's) MidHandshake \<Rightarrow> bool" where
  "resumes hs mid mid' \<longleftrightarrow> (\<exists>s s'. hs s mid = Some (Done (s', Err (HandshakeInterrupted mid'))))"

lemma start_no_input: "ClientHandshake_start h c req config = Ok mid \<Longrightarrow> no_input (mid_machine mid)"
  by (auto simp: ClientHandshake_start_def result_simps start_write_def no_input_def split: if_splits)

lemma resumed_no_input:
  assumes "(resumes (client_handshake h))\<^sup>*\<^sup>* mid mid'" and "no_input (mid_machine mid)"
  shows "no_input (mid_machine mid')"
  using assms
proof (induction rule: rtranclp_induct)
  case (step y z)
  then obtain s s' where "client_handshake h s y = Some (Done (s', Err (HandshakeInterrupted z)))"
    by (auto simp: resumes_def)
  from client_silent.handshake_keeps [OF this [unfolded client_handshake_def]] step show ?case
    by (simp add: client_silent.result_ok_def)
qed

lemma resumed_server:
  assumes "(resumes (server_handshake h))\<^sup>*\<^sup>* (ServerHandshake_start c cb config) mid'"
  shows "mid' = ServerHandshake_start c cb config"
  using assms
  by (induction rule: rtranclp_induct) (auto simp: resumes_def server_awaits)

lemma no_input_not_Ok:
  assumes "no_input (mid_machine mid)"
  shows "client_handshake h s mid \<noteq> Some (Done (s', Ok r))"
  using client_silent.handshake_keeps [of h s mid s' "Ok r"] assms
  by (auto simp: client_handshake_def client_silent.result_ok_def)

lemma ws_connect_not_Ok: "ws_connect_with_config h s request c config \<noteq> Some (Done (s', Ok r))"
proof (cases "rbind request (\<lambda>request. ClientHandshake_start h c request config)")
  case (Inr mid)
  then obtain req where "ClientHandshake_start h c req config = Ok mid" by (auto simp: result_simps)
  from no_input_not_Ok [OF start_no_input [OF this]] Inr show ?thesis by (simp add: ws_connect_with_config_def)
qed (simp add: ws_connect_with_config_def)

lemma try_not_Ok: "try_client_handshake h net request config \<noteq> Some (Done (Ok r))"
proof
  assume "try_client_handshake h net request config = Some (Done (Ok r))"
  then obtain s where "obind (ws_connect_with_config h s (Ok request) () config) (\<lambda>(_, client).
      Some (case client of
        Inr (_, websocket, response) \<Rightarrow> Done (Ok (websocket, response))
      | Inl (Failure f) \<Rightarrow> Done (Err f)
      | Inl (HandshakeInterrupted _) \<Rightarrow> Panic)) = Some (Done (Ok r))"
    by (auto simp: try_client_handshake_def Let_def split: sum.splits exec.splits)
  then obtain s' client where "ws_connect_with_config h s (Ok request) () config = Some (Done (s', client))"
    "(case client of
        Inr (_, websocket, response) \<Rightarrow> Done (Ok (websocket, response))
      | Inl (Failure f) \<Rightarrow> Done (Err f)
      | Inl (HandshakeInterrupted _) \<Rightarrow> Panic) = Done (Ok r)"
    by (auto simp: obind_eq_Done)
  then show False using ws_connect_not_Ok [of h s "Ok request" "()" config s'] by (cases client) (auto split: HandshakeError.splits)
qed

section \<open>A complete exchange\<close>

text \<open>A machine that holds bytes of its peer, as if a \<open>read\<close> had filled its buffer.\<close>

definition received :: "'s \<Rightarrow> bytes \<Rightarrow> 's HandshakeMachine" where
  "received c bs = \<lparr>mach_stream = c, mach_state = Reading bs AttackCheck_new\<rparr>"

lemma text_not_empty: "request_text h path v ls \<noteq> []" "response_text h v st ls \<noteq> []"
  by (simp_all add: request_text_def response_text_def as_bytes_def CRLF_def)

lemma received_round:
  assumes "bs \<noteq> []" and "length bs \<le> MAX_BYTES" and "tp bs = Done (Ok (Some (length bs, obj)))"
  shows "single_round tp s (received c bs) = Done (s, Ok (StageFinished (DoneReading obj c [])))"
  using assms
  by (simp add: single_round_def received_def check_incoming_packet_size_def AttackCheck_new_def MAX_PACKETS_def
      MIN_PACKET_CHECK_THRESHOLD_def Let_def)

lemma received_loop:
  assumes "bs \<noteq> []" and "length bs \<le> MAX_BYTES" and "tp bs = Done (Ok (Some (length bs, obj)))"
  shows "handshake_loop tp sf role s (received c bs) = after_stage tp sf role s (DoneReading obj c [])"
  by (subst handshake_loop.simps) (simp add: received_round [of bs tp obj] assms after_stage_def)

lemma new_sockets:
  "from_raw_socket s role None = Done \<lparr>ws_socket = s, ws_context = new_context role\<rparr>"
  "WebSocket_from_partially_read s [] role None = Done \<lparr>ws_socket = s, ws_context = new_context role\<rparr>"
  using new_context [of role]
  by (simp_all add: from_raw_socket_def WebSocket_from_partially_read_def WebSocketContext_from_partially_read_def
      WebSocketContext_new_def FrameCodec_new_def FrameCodec_from_partially_read_def)

text \<open>The URIs a client can connect to.\<close>

definition good_uri :: "Uri \<Rightarrow> string \<Rightarrow> string \<Rightarrow> bool" where
  "good_uri uri host path \<longleftrightarrow> scheme_str uri \<in> {Some ''ws'', Some ''wss''} \<and> host_of uri = Some host \<and> host \<noteq> [] \<and>
     printable host \<and> path_and_query uri = Some path"

definition client_role :: "'x http_crates_scheme \<Rightarrow> ClientHandshake" where
  "client_role h = \<lparr>verify_data = \<lparr>accept_key = derive_accept_key h (as_bytes (generate_key h))\<rparr>, client_config = None\<rparr>"

lemma good_uri_request:
  assumes "http_ok h" and "good_uri uri host path"
  shows "Uri_into_client_request h uri = Ok \<lparr>req_method = ''GET'', req_uri = uri, req_version = HTTP_11,
      req_headers = client_headers h host, req_body = ()\<rparr>"
  using assms by (intro client_request) (simp_all add: good_uri_def)

lemma good_uri_start:
  assumes "http_ok h" and "good_uri uri host path"
  shows "rbind (Uri_into_client_request h uri) (\<lambda>req. ClientHandshake_start h c req None) =
    Ok \<lparr>mid_role = client_role h, mid_machine = start_write c (request_text h path HTTP_11 (client_lines h host))\<rparr>"
proof -
  have "printable host" "path_and_query uri = Some path" "\<exists>mode. uri_mode uri = Ok mode"
    using assms(2) by (auto simp: good_uri_def uri_mode_def)
  then show ?thesis
    using client_generate [OF assms(1), of host uri path]
    by (auto simp: good_uri_request [OF assms] ClientHandshake_start_def less_Version_def client_role_def)
qed

lemma server_replies:
  assumes ok: "http_ok h" and uri: "good_uri uri host path" and "reads_request h path (client_lines h host)"
    and "uri_parse h path = Some u" and len: "length (request_text h path HTTP_11 (client_lines h host)) \<le> MAX_BYTES"
    and "write_contract s" and "progresses s" and eager: "\<forall>n bs e. next_writes s n bs \<noteq> Err e"
  shows "\<exists>s'. server_handshake h s \<lparr>mid_role = \<lparr>callback = Some NoCallback, server_ws_config = None, error_response = None\<rparr>,
        mid_machine = received c (request_text h path HTTP_11 (client_lines h host))\<rparr> =
      Some (Done (s', Ok (c, \<lparr>ws_socket = s', ws_context = new_context Server\<rparr>))) \<and>
    sent_bytes s' = sent_bytes s @ response_text h HTTP_11 101 (server_lines h (generate_key h)) \<and>
    next_reads s' = next_reads s"
proof -
  let ?tp = "Request_try_parse h" and ?sf = "server_stage_finished h :: (_, _, 's, _) stage"
  let ?reply = "response_text h HTTP_11 101 (server_lines h (generate_key h))"
  let ?role = "\<lparr>callback = Some NoCallback, server_ws_config = None, error_response = None\<rparr>"
  let ?role' = "\<lparr>callback = None, server_ws_config = None, error_response = None\<rparr>"
  have "printable host" using uri by (simp add: good_uri_def)
  then have parsed: "?tp (request_text h path HTTP_11 (client_lines h host)) =
      Done (Ok (Some (length (request_text h path HTTP_11 (client_lines h host)), \<lparr>req_method = ''GET'', req_uri = u,
        req_version = HTTP_11, req_headers = client_headers h host, req_body = ()\<rparr>)))"
    using assms by (intro request_parsed)
  have "handshake_loop ?tp ?sf ?role s (received c (request_text h path HTTP_11 (client_lines h host))) =
      handshake_loop ?tp ?sf ?role' s (start_write c ?reply)"
    by (subst received_loop [where tp = "Request_try_parse h", OF text_not_empty(1) len parsed])
      (simp add: after_stage_def server_stage_finished_def server_response [OF ok] NoCallback_def server_writes [OF ok])
  moreover have "write_outcome ?tp ?sf ?role' s c ?reply (handshake_loop ?tp ?sf ?role' s (start_write c ?reply))"
    unfolding start_write_def using assms(6,7) text_not_empty(2) by (rule write_stage)
  then obtain s' where "sent_bytes s' = sent_bytes s @ ?reply" "next_reads s' = next_reads s"
    "handshake_loop ?tp ?sf ?role' s (start_write c ?reply) = after_stage ?tp ?sf ?role' s' (DoneWriting c)"
    using eager unfolding write_outcome_def by auto
  moreover have "after_stage ?tp ?sf ?role' s' (DoneWriting c) =
      Some (Done (s', Ok (c, \<lparr>ws_socket = s', ws_context = new_context Server\<rparr>)))"
    by (simp add: after_stage_def server_stage_finished_def new_sockets)
  ultimately show ?thesis by (auto simp: server_handshake_def handshake_def)
qed

lemma client_accepts:
  assumes ok: "http_ok h" and reads: "reads_response h 101 (server_lines h (generate_key h))"
    and len: "length (response_text h HTTP_11 101 (server_lines h (generate_key h))) \<le> MAX_BYTES"
  shows "\<exists>resp. client_handshake h s \<lparr>mid_role = client_role h,
        mid_machine = received c (response_text h HTTP_11 101 (server_lines h (generate_key h)))\<rparr> =
      Some (Done (s, Ok (c, \<lparr>ws_socket = s, ws_context = new_context Client\<rparr>, resp)))"
proof -
  obtain resp where "Response_try_parse h (response_text h HTTP_11 101 (server_lines h (generate_key h))) =
      Done (Ok (Some (length (response_text h HTTP_11 101 (server_lines h (generate_key h))), resp)))"
    and ver: "verify_response h \<lparr>accept_key = derive_accept_key h (as_bytes (generate_key h))\<rparr> resp = Ok resp"
    using response_verified [OF ok reads] by blast
  then have "handshake_loop (Response_try_parse h) (client_stage_finished h) (client_role h) s
      (received c (response_text h HTTP_11 101 (server_lines h (generate_key h)))) =
    after_stage (Response_try_parse h) (client_stage_finished h) (client_role h) s (DoneReading resp c [])"
    using text_not_empty(2) len by (intro received_loop)
  with ver show ?thesis
    by (simp add: client_handshake_def handshake_def after_stage_def client_stage_finished_def client_role_def new_sockets)
qed

section \<open>Sequences of packets\<close>

text \<open>The attack check after each of a sequence of packets.\<close>

fun check_packets :: "AttackCheck \<Rightarrow> nat list \<Rightarrow> Error + AttackCheck" where
  "check_packets ac [] = Ok ac"
| "check_packets ac (n # ns) =
     (case check_incoming_packet_size ac n of
        (_, Inl e) \<Rightarrow> Err e
      | (ac, Inr _) \<Rightarrow> check_packets ac ns)"

definition within_limits :: "nat \<Rightarrow> nat \<Rightarrow> bool" where
  "within_limits packets bytes_in \<longleftrightarrow> bytes_in \<le> 65536 \<and> packets \<le> 512 \<and> (64 < packets \<longrightarrow> 128 * packets \<le> bytes_in)"

lemma check_limits:
  "check_incoming_packet_size ac n =
     (ac\<lparr>number_of_packets := Suc (number_of_packets ac), number_of_bytes := number_of_bytes ac + n\<rparr>,
      if within_limits (Suc (number_of_packets ac)) (number_of_bytes ac + n) then Ok () else Err AttackAttempt)"
  by (auto simp: check_incoming_packet_size_def within_limits_def MAX_BYTES_def MAX_PACKETS_def MIN_PACKET_SIZE_def
      MIN_PACKET_CHECK_THRESHOLD_def Let_def)

lemma all_upto_Suc: "(\<forall>k \<in> {1..Suc n}. P k) \<longleftrightarrow> P 1 \<and> (\<forall>k \<in> {1..n}. P (Suc k))"
proof -
  have "{1..Suc n} = insert 1 (Suc ` {1..n})" by (auto simp: image_iff)
  then show ?thesis by (simp only: ball_simps(7) ball_simps(9) ball_simps)
qed

lemma check_packets_from:
  "check_packets \<lparr>number_of_packets = p, number_of_bytes = b\<rparr> sizes =
     (if \<forall>k \<in> {1..length sizes}. within_limits (p + k) (b + sum_list (take k sizes))
      then Ok \<lparr>number_of_packets = p + length sizes, number_of_bytes = b + sum_list sizes\<rparr> else Err AttackAttempt)"
proof (induction sizes arbitrary: p b)
  case (Cons n sizes)
  show ?case
    using Cons.IH [of "Suc p" "b + n"]
    by (simp only: length_Cons all_upto_Suc) (simp add: check_limits add.assoc)
qed simp

text \<open>An attempt to connect returns, with an error or a panic.\<close>

definition fails :: "(Error + 'a) exec option \<Rightarrow> bool" where
  "fails r \<longleftrightarrow> (\<exists>e. r = Some (Done (Err e))) \<or> r = Some Panic"

lemma fails_simps [simp]: "fails (Some (Done (Err e)))" "fails (Some Panic)"
  by (simp_all add: fails_def)

lemma failsI: "r \<noteq> None \<Longrightarrow> (\<And>x. r \<noteq> Some (Done (Ok x))) \<Longrightarrow> fails r"
  unfolding fails_def by (metis exec.exhaust not_None_eq sumE)

lemma ws_connect_returns: "ws_connect_with_config h s request c config \<noteq> None"
proof -
  have "client_handshake h s mid \<noteq> None" for mid :: "'a client_mid"
    using client_loop_returns by (simp add: client_handshake_def handshake_def not_None_eq)
  then show ?thesis by (simp add: ws_connect_with_config_def split: sum.splits)
qed

lemma try_returns: "try_client_handshake h net request config \<noteq> None"
  by (auto simp: try_client_handshake_def Let_def obind_def ws_connect_returns split: sum.splits exec.splits option.splits)

lemma try_fails: "fails (try_client_handshake h net request config)"
  by (intro failsI try_returns try_not_Ok)

lemma redirect_fails: "fails (redirect_loop h net parts config n attempts uri)"
proof (induction attempts arbitrary: uri)
  case (Cons a as)
  have "(\<exists>e. try_client_handshake h (net a) (create_request parts uri) config = Some (Done (Err e))) \<or>
      try_client_handshake h (net a) (create_request parts uri) config = Some Panic"
    using try_fails by (simp add: fails_def)
  with Cons.IH show ?case by (auto split: sum.splits Error.splits option.splits)
qed simp

section \<open>Properties\<close>

lemma sample_uri_good: "good_uri sample_uri ''localhost:8080'' ''/chat''"
  by (simp add: good_uri_def sample_uri_def host_of_def printable_def)

lemma sample_stream_progresses: "progresses (sample_stream chunks)" "next_writes (sample_stream chunks) n bs \<noteq> Err e"
  by (simp_all add: progresses_def sample_stream_def)

text \<open>
  C28: Every call of the handshake, of a client or a server and in whatever state its machine is, returns
  (with a websocket, an interruption, a failure or a panic).
\<close>
theorem handshake_returns:
  "(\<exists>r. client_handshake h s cmid = Some r) \<and> (\<exists>r. server_handshake h s smid = Some r)"
  by (simp add: client_handshake_def server_handshake_def handshake_def client_loop_returns server_loop_returns)

text \<open>
  C15: No handshake ever completes. A machine in its reading state only looks at its own buffer, which
  nothing fills: however often the handshake of a client is resumed, and whatever the socket has
  received meanwhile, it never returns a websocket; that of a server returns at once, every time, with
  the socket untouched and the machine in its initial state. Even a buffer that held the first part of a
  message would not help: the same bytes are counted again in every round until they pass for an attack.
\<close>
theorem handshake_never_completes:
  "(ClientHandshake_start h c req config = Ok mid \<and> (resumes (client_handshake h))\<^sup>*\<^sup>* mid mid' \<longrightarrow>
     client_handshake h s mid' \<noteq> Some (Done (s', Ok r))) \<and>
   ((resumes (server_handshake h))\<^sup>*\<^sup>* (ServerHandshake_start c cb config) smid \<longrightarrow>
     server_handshake h s smid = Some (Done (s, Err (HandshakeInterrupted (ServerHandshake_start c cb config))))) \<and>
   (buf \<noteq> [] \<and> Request_try_parse h buf = Done (Ok None) \<longrightarrow>
     server_handshake h s (smid\<lparr>mid_machine := received c buf\<rparr>) = Some (Done (s, Err (Failure AttackAttempt))))"
proof (intro conjI impI)
  assume run: "ClientHandshake_start h c req config = Ok mid \<and> (resumes (client_handshake h))\<^sup>*\<^sup>* mid mid'"
  show "client_handshake h s mid' \<noteq> Some (Done (s', Ok r))"
    by (intro no_input_not_Ok resumed_no_input [OF conjunct2 [OF run]] start_no_input [OF conjunct1 [OF run]])
next
  assume "(resumes (server_handshake h))\<^sup>*\<^sup>* (ServerHandshake_start c cb config) smid"
  from resumed_server [OF this]
  show "server_handshake h s smid = Some (Done (s, Err (HandshakeInterrupted (ServerHandshake_start c cb config))))"
    by (simp add: server_awaits)
next
  assume "buf \<noteq> [] \<and> Request_try_parse h buf = Done (Ok None)"
  then show "server_handshake h s (smid\<lparr>mid_machine := received c buf\<rparr>) = Some (Done (s, Err (Failure AttackAttempt)))"
    by (simp add: server_handshake_def handshake_def received_def loop_partial [of _ buf AttackCheck_new])
qed

theorem handshake_never_completes_witness:
  "(\<forall>s' r. client_handshake sample_crates (sample_stream [[72, 84]])
      \<lparr>mid_role = client_role sample_crates, mid_machine = start_read (5::nat)\<rparr> \<noteq> Some (Done (s', Ok r))) \<and>
   server_handshake sample_crates (sample_stream [[71]]) (ServerHandshake_start 6 NoCallback None) =
     Some (Done (sample_stream [[71]], Err (HandshakeInterrupted (ServerHandshake_start (6::nat) NoCallback None)))) \<and>
   server_handshake sample_crates (sample_stream []) ((ServerHandshake_start (6::nat) NoCallback None)\<lparr>mid_machine := received 6 [71]\<rparr>) =
     Some (Done (sample_stream [], Err (Failure AttackAttempt)))"
proof -
  let ?text = "request_text sample_crates ''/chat'' HTTP_11 (client_lines sample_crates ''localhost:8080'')"
  let ?start = "\<lparr>mid_role = client_role sample_crates, mid_machine = start_write (5::nat) ?text\<rparr>"
  let ?after = "\<lparr>mid_role = client_role sample_crates, mid_machine = start_read (5::nat)\<rparr>"
  obtain req where start: "ClientHandshake_start sample_crates 5 req None = Ok ?start"
    using good_uri_start [OF sample_crates_ok sample_uri_good, of 5] by (auto simp: result_simps)
  have "client_outcome sample_crates (client_role sample_crates) (sample_stream []) 5 ?text
      (client_handshake sample_crates (sample_stream []) ?start)"
    by (intro client_writes sample_stream_ok(1) sample_stream_progresses(1) text_not_empty(1))
  then have "resumes (client_handshake sample_crates) ?start ?after"
    using sample_stream_progresses(2) unfolding client_outcome_def resumes_def by auto
  then have run: "(resumes (client_handshake sample_crates))\<^sup>*\<^sup>* ?start ?after" by (rule r_into_rtranclp)
  note never = handshake_never_completes [of sample_crates 5 req None ?start ?after "sample_stream [[72, 84]]"]
    handshake_never_completes [of sample_crates 6 req None ?start ?after "sample_stream [[71]]" _ _ NoCallback
      "ServerHandshake_start 6 NoCallback None"]
    handshake_never_completes [of sample_crates 6 req None ?start ?after "sample_stream []" _ _ NoCallback
      "ServerHandshake_start 6 NoCallback None" "[71]"]
  have "Request_try_parse sample_crates [71] = Done (Ok None)" by (simp add: Request_try_parse_def sample_crates_def)
  with never start run show ?thesis by simp
qed

text \<open>
  The first call of a client on a good URI sends the request, line for line: what the socket took is a
  prefix of it, all of it unless the socket refused or failed; an interrupted call keeps exactly the rest,
  and a client that has sent everything waits for the response with the accept key of its own key. It
  takes nothing from the socket.
\<close>
theorem ws_connect_sends:
  assumes "http_ok h" and "good_uri uri host path" and "write_contract s" and "progresses s"
  shows "client_outcome h (client_role h) s c (request_text h path HTTP_11 (client_lines h host))
    (ws_connect h s (Uri_into_client_request h uri) c)"
  using client_writes [OF assms(3,4) text_not_empty(1)]
  by (simp add: ws_connect_def ws_connect_with_config_def good_uri_start [OF assms(1,2)])

theorem ws_connect_sends_witness:
  "client_outcome sample_crates (client_role sample_crates) (sample_stream []) (5::nat)
     (request_text sample_crates ''/chat'' HTTP_11 (client_lines sample_crates ''localhost:8080''))
     (ws_connect sample_crates (sample_stream []) (Uri_into_client_request sample_crates sample_uri) 5)"
  by (rule ws_connect_sends [OF sample_crates_ok sample_uri_good sample_stream_ok(1) sample_stream_progresses(1)])

text \<open>
  C7: Were the buffers of the two machines filled with what the other side sent, the handshake would
  succeed: the request the client makes of a good URI passes the checks of the server, the server writes its
  whole response and has a fresh server websocket, and that response passes the checks of the client,
  whose accept key it carries, and gives it a fresh client websocket with nothing left over.
\<close>
theorem handshake_agrees:
  assumes "http_ok h" and "good_uri uri host path" and "reads_request h path (client_lines h host)"
    and "reads_response h 101 (server_lines h (generate_key h))" and "uri_parse h path = Some u"
    and "length (request_text h path HTTP_11 (client_lines h host)) \<le> MAX_BYTES"
    and "length (response_text h HTTP_11 101 (server_lines h (generate_key h))) \<le> MAX_BYTES"
    and "write_contract ss" and "progresses ss" and "\<forall>n bs e. next_writes ss n bs \<noteq> Err e"
  shows "\<exists>mid request reply ss' resp.
    rbind (Uri_into_client_request h uri) (\<lambda>req. ClientHandshake_start h c req None) = Ok mid \<and>
    mid_machine mid = start_write c request \<and>
    server_handshake h ss ((ServerHandshake_start x NoCallback None)\<lparr>mid_machine := received x request\<rparr>) =
      Some (Done (ss', Ok (x, \<lparr>ws_socket = ss', ws_context = new_context Server\<rparr>))) \<and>
    sent_bytes ss' = sent_bytes ss @ reply \<and>
    client_handshake h sc (mid\<lparr>mid_machine := received c reply\<rparr>) =
      Some (Done (sc, Ok (c, \<lparr>ws_socket = sc, ws_context = new_context Client\<rparr>, resp)))"
proof -
  from server_replies [OF assms(1-3,5,6,8-10), of x] obtain ss' where
    server: "server_handshake h ss ((ServerHandshake_start x NoCallback None)\<lparr>mid_machine :=
        received x (request_text h path HTTP_11 (client_lines h host))\<rparr>) =
      Some (Done (ss', Ok (x, \<lparr>ws_socket = ss', ws_context = new_context Server\<rparr>)))"
    and sent: "sent_bytes ss' = sent_bytes ss @ response_text h HTTP_11 101 (server_lines h (generate_key h))"
    by (auto simp: ServerHandshake_start_def)
  from client_accepts [OF assms(1,4,7), of sc c] obtain resp where
    "client_handshake h sc \<lparr>mid_role = client_role h,
        mid_machine = received c (response_text h HTTP_11 101 (server_lines h (generate_key h)))\<rparr> =
      Some (Done (sc, Ok (c, \<lparr>ws_socket = sc, ws_context = new_context Client\<rparr>, resp)))" by blast
  with server sent good_uri_start [OF assms(1,2), of c] show ?thesis
    by (intro exI [of _ "\<lparr>mid_role = client_role h,
        mid_machine = start_write c (request_text h path HTTP_11 (client_lines h host))\<rparr>"]) auto
qed

text \<open>The sample crates with parsers that know the two messages of the exchange.\<close>

definition parsing_crates :: http_crates where
  "parsing_crates = sample_crates\<lparr>
     parse_request := (\<lambda>_ bs. Ok (Some (length bs, \<lparr>raw_method = Some ''GET'', raw_path = Some ''/chat'',
       raw_req_version = Some 1, raw_req_headers = map (\<lambda>(n, v). (n, as_bytes v)) (client_lines sample_crates ''localhost:8080'')\<rparr>))),
     parse_response := (\<lambda>_ bs. Ok (Some (length bs, \<lparr>raw_resp_version = Some 1, raw_code = Some 101,
       raw_resp_headers = map (\<lambda>(n, v). (n, as_bytes v)) (server_lines sample_crates (generate_key sample_crates))\<rparr>)))\<rparr>"

lemma parsing_crates_same:
  "generate_key parsing_crates = ''c2FtcGxl''" "generate_key sample_crates = ''c2FtcGxl''"
  "derive_accept_key parsing_crates bs = ''c2FtcGxl''" "derive_accept_key sample_crates bs = ''c2FtcGxl''"
  "header_iter parsing_crates m = rev m" "header_iter sample_crates m = rev m"
  "value_to_str parsing_crates bs = Some (bytes_str bs)" "value_to_str sample_crates bs = Some (bytes_str bs)"
  "show_version parsing_crates v = ''HTTP/1.1''" "show_status parsing_crates n = ''101 Switching Protocols''"
  by (simp_all add: parsing_crates_def sample_crates_def generate_key_def derive_accept_key_def)

lemma parsing_crates_ok: "http_ok parsing_crates"
  using sample_crates_ok by (simp add: http_ok_def parsing_crates_def)

lemma parsing_crates_read:
  "reads_request parsing_crates ''/chat'' (client_lines parsing_crates ''localhost:8080'')"
  "reads_response parsing_crates 101 (server_lines parsing_crates (generate_key parsing_crates))"
  "uri_parse parsing_crates ''/chat'' = Some (sample_uri\<lparr>uri_text := ''/chat''\<rparr>)"
proof -
  have lines: "client_lines parsing_crates x = client_lines sample_crates x"
    "server_lines parsing_crates (generate_key parsing_crates) = server_lines sample_crates (generate_key sample_crates)" for x
    by (simp_all add: client_lines_def server_lines_def server_headers_def value_text_def parsing_crates_same)
  show "reads_request parsing_crates ''/chat'' (client_lines parsing_crates ''localhost:8080'')"
    "reads_response parsing_crates 101 (server_lines parsing_crates (generate_key parsing_crates))"
    unfolding reads_request_def reads_response_def lines by (simp_all add: parsing_crates_def)
qed (simp add: parsing_crates_def sample_crates_def sample_uri_def)

lemma parsing_crates_short:
  "length (request_text parsing_crates ''/chat'' HTTP_11 (client_lines parsing_crates ''localhost:8080'')) \<le> MAX_BYTES"
  "length (response_text parsing_crates HTTP_11 101 (server_lines parsing_crates (generate_key parsing_crates))) \<le> MAX_BYTES"
  by (simp_all add: request_text_def response_text_def client_lines_def server_lines_def server_headers_def
      value_text_def parsing_crates_same header_line_def CRLF_def MAX_BYTES_def as_bytes_def bytes_str_def)

theorem handshake_agrees_witness:
  "\<exists>mid request reply ss' resp.
    rbind (Uri_into_client_request parsing_crates sample_uri) (\<lambda>req. ClientHandshake_start parsing_crates (5::nat) req None) = Ok mid \<and>
    mid_machine mid = start_write 5 request \<and>
    server_handshake parsing_crates (sample_stream [])
      ((ServerHandshake_start (6::nat) NoCallback None)\<lparr>mid_machine := received 6 request\<rparr>) =
      Some (Done (ss', Ok (6, \<lparr>ws_socket = ss', ws_context = new_context Server\<rparr>))) \<and>
    sent_bytes ss' = sent_bytes (sample_stream []) @ reply \<and>
    client_handshake parsing_crates (sample_stream []) (mid\<lparr>mid_machine := received 5 reply\<rparr>) =
      Some (Done (sample_stream [], Ok (5, \<lparr>ws_socket = sample_stream [], ws_context = new_context Client\<rparr>, resp)))"
  using handshake_agrees [OF parsing_crates_ok sample_uri_good parsing_crates_read parsing_crates_short
      sample_stream_ok(1) sample_stream_progresses(1), of "[]" 5 6 "sample_stream []"] sample_stream_progresses(2)
  by blast

text \<open>
  C30: The attack check accepts a sequence of packets exactly if at no point it is more than 512 packets or
  65536 bytes and, past 64 packets, a packet has 128 bytes on average; the counters are then the number
  of packets and of bytes.
\<close>
theorem attack_check_exact:
  "check_packets AttackCheck_new sizes =
     (if \<forall>k \<in> {1..length sizes}. within_limits k (sum_list (take k sizes))
      then Ok \<lparr>number_of_packets = length sizes, number_of_bytes = sum_list sizes\<rparr> else Err AttackAttempt)"
  using check_packets_from [of 0 0 sizes] by (simp add: AttackCheck_new_def)

theorem attack_check_exact_witness:
  "check_packets AttackCheck_new [40000, 30000] = Err AttackAttempt \<and>
   check_packets AttackCheck_new [100, 200] = Ok \<lparr>number_of_packets = 2, number_of_bytes = 300\<rparr>"
  using attack_check_exact [of "[40000, 30000]"] attack_check_exact [of "[100, 200]"]
  by (simp add: within_limits_def all_upto_Suc [of "Suc 0", simplified] numeral_2_eq_2)

text \<open>
  C37: Connecting in blocking mode always returns and never gives a websocket: the call fails, or it panics
  because the handshake was interrupted. With \<open>max_redirects = 255\<close> it always panics once the request is built.
\<close>
theorem connect_never_opens:
  "((\<exists>e. connect_with_config debug h net request config max_redirects = Some (Done (Err e))) \<or>
     connect_with_config debug h net request config max_redirects = Some Panic) \<and>
   connect_with_config debug h net (Ok parts) config 255 = Some Panic"
proof -
  have "fails (connect_with_config debug h net request config max_redirects)"
    by (auto simp: connect_with_config_def redirect_fails split: sum.splits)
  then show ?thesis by (simp add: fails_def connect_with_config_def)
qed

end
