(* ===== verification/Ws_Adapter.thy ===== *)
theory Ws_Adapter
  imports Tcp Ws_Handshake
begin

text \<open>
  The websocket transport: \<open>src/src/adapters/ws/ws_adapter.rs\<close>, \<open>ws_remote.rs\<close> and the instance of the
  event processor in \<open>ws_driver.rs\<close>. A stream (\<open>ArcTcpStream\<close>) is the descriptor of its socket; what
  the socket does is the field \<open>sock\<close> of the record \<open>wsio\<close>, which extends the operating system of the TCP
  transport with the answers of \<open>peek\<close>, the crates of the handshake and of the protocol, and the
  crate \<open>url\<close>. A \<open>Url\<close> is its text.
\<close>

section \<open>The environment\<close>

record wsio = os +
  sock :: wstream
  peeks :: "nat \<Rightarrow> io_error + unit"
  crates :: http_crates
  ws_target :: target
  utf8 :: utf8_crate
  Url_parse :: "string \<Rightarrow> url option"
  url_scheme :: "url \<Rightarrow> string"
  url_socket_addrs :: "url \<Rightarrow> u16 option \<Rightarrow> io_error + SocketAddr list"
  ws_show_addr :: "SocketAddr \<Rightarrow> string"

section \<open>Remote resources\<close>

text \<open>
  The option around a pending handshake is emptied and filled again within one call of \<open>pending\<close>, so
  between calls the handshake is always there.
\<close>

datatype PendingHandshake =
    Pending_Connect url stream
  | Pending_Accept stream
  | Pending_Client "stream client_mid"
  | Pending_Server "stream server_mid"

datatype RemoteState =
    State_WebSocket stream WebSocketContext
  | State_Handshake PendingHandshake
  | State_Error stream

record WsRemote =
  ws_state :: RemoteState
  ws_keepalive_opt :: "keepalive option"

definition io_error_to_read_status :: "io_error \<Rightarrow> ReadStatus" where
  "io_error_to_read_status e =
     (if e = WouldBlock then WaitNextEvent
      else if e = ConnectionReset then ReadDisconnected
      else ReadDisconnected)"

definition state_source :: "RemoteState \<Rightarrow> source" where
  "state_source st =
     (case st of
        State_WebSocket stream _ \<Rightarrow> stream
      | State_Handshake (Pending_Connect _ stream) \<Rightarrow> stream
      | State_Handshake (Pending_Accept stream) \<Rightarrow> stream
      | State_Handshake (Pending_Client mid) \<Rightarrow> mach_stream (mid_machine mid)
      | State_Handshake (Pending_Server mid) \<Rightarrow> mach_stream (mid_machine mid)
      | State_Error stream \<Rightarrow> stream)"

definition ws_source :: "WsRemote \<Rightarrow> source" where
  "ws_source r = state_source (ws_state r)"

text \<open>The receive loop; \<open>n\<close> counts the calls of \<open>peek\<close>. The data are handed over before the answer of \<open>peek\<close> is used.\<close>

partial_function (option) ws_receive_loop ::
  "target \<Rightarrow> utf8_crate \<Rightarrow> (nat \<Rightarrow> io_error + unit) \<Rightarrow> WebSocket \<Rightarrow> nat \<Rightarrow> bytes list \<Rightarrow>
   (WebSocket \<times> nat \<times> bytes list \<times> ReadStatus) exec option" where
  "ws_receive_loop t u pk w n datas =
     (case WebSocket_read t u w of
        None \<Rightarrow> None
      | Some Panic \<Rightarrow> Some Panic
      | Some (Done (w, ret)) \<Rightarrow>
          (case ret of
             Inr (Msg_Binary data) \<Rightarrow>
               (case pk n of
                  Inl e \<Rightarrow> Some (Done (w, Suc n, datas @ [data], io_error_to_read_status e))
                | Inr _ \<Rightarrow> ws_receive_loop t u pk w (Suc n) (datas @ [data]))
           | Inr (Msg_Close _) \<Rightarrow> Some (Done (w, n, datas, ReadDisconnected))
           | Inr _ \<Rightarrow> ws_receive_loop t u pk w n datas
           | Inl (Io e) \<Rightarrow> Some (Done (w, n, datas, io_error_to_read_status e))
           | Inl _ \<Rightarrow> Some (Done (w, n, datas, ReadDisconnected))))"

definition ws_receive :: "wsio \<Rightarrow> WsRemote \<Rightarrow> (wsio \<times> WsRemote \<times> bytes list \<times> ReadStatus) exec option" where
  "ws_receive io r =
     (case ws_state r of
        State_WebSocket stream c \<Rightarrow>
          obind (ws_receive_loop (ws_target io) (utf8 io) (peeks io) \<lparr>ws_socket = sock io, ws_context = c\<rparr> 0 [])
            (\<lambda>(w, n, datas, status).
              Some (Done (io\<lparr>sock := ws_socket w, peeks := \<lambda>k. peeks io (n + k)\<rparr>,
                r\<lparr>ws_state := State_WebSocket stream (ws_context w)\<rparr>, datas, status)))
      | State_Handshake _ \<Rightarrow> Some Panic
      | State_Error _ \<Rightarrow> Some Panic)"

text \<open>The send loop: as long as the socket refuses, \<open>flush\<close> is called again.\<close>

partial_function (option) ws_flush_loop ::
  "target \<Rightarrow> WebSocket \<Rightarrow> Error + unit \<Rightarrow> (WebSocket \<times> SendStatus) exec option" where
  "ws_flush_loop t w result =
     (case result of
        Inr _ \<Rightarrow> Some (Done (w, Sent))
      | Inl e \<Rightarrow>
          if e = Io WouldBlock then
            (case WebSocket_flush t w of
               Panic \<Rightarrow> Some Panic
             | Done (w, result) \<Rightarrow> ws_flush_loop t w result)
          else
            (case e of
               Capacity _ \<Rightarrow> Some (Done (w, MaxPacketSizeExceeded))
             | _ \<Rightarrow> Some (Done (w, ResourceNotFound))))"

definition ws_send :: "wsio \<Rightarrow> WsRemote \<Rightarrow> bytes \<Rightarrow> (wsio \<times> WsRemote \<times> SendStatus) exec option" where
  "ws_send io r data =
     (case ws_state r of
        State_WebSocket stream c \<Rightarrow>
          (case WebSocket_send (ws_target io) \<lparr>ws_socket = sock io, ws_context = c\<rparr> (Msg_Binary data) of
             Panic \<Rightarrow> Some Panic
           | Done (w, result) \<Rightarrow>
               obind (ws_flush_loop (ws_target io) w result) (\<lambda>(w, status).
               Some (Done (io\<lparr>sock := ws_socket w\<rparr>, r\<lparr>ws_state := State_WebSocket stream (ws_context w)\<rparr>, status))))
      | State_Handshake _ \<Rightarrow> Some Panic
      | State_Error _ \<Rightarrow> Some Panic)"

text \<open>
  What the result of a handshake makes of the remote: \<open>backup\<close> is the clone of the stream kept for the
  poll. The two failure arms of the source differ in the log only.
\<close>

definition client_settled ::
  "wsio \<Rightarrow> WsRemote \<Rightarrow> stream \<Rightarrow>
   wstream \<times> ((ClientHandshake, stream) HandshakeError + stream \<times> WebSocket \<times> Response) \<Rightarrow>
   wsio \<times> WsRemote \<times> PendingStatus" where
  "client_settled io r backup result =
     (case result of (s, res) \<Rightarrow>
        (case res of
           Inr (stream, w, _) \<Rightarrow>
             (io\<lparr>sock := ws_socket w\<rparr>, r\<lparr>ws_state := State_WebSocket stream (ws_context w)\<rparr>, Ready)
         | Inl (HandshakeInterrupted mid) \<Rightarrow>
             (io\<lparr>sock := s\<rparr>, r\<lparr>ws_state := State_Handshake (Pending_Client mid)\<rparr>, Incomplete)
         | Inl (Failure _) \<Rightarrow> (io\<lparr>sock := s\<rparr>, r\<lparr>ws_state := State_Error backup\<rparr>, PendingDisconnected)))"

definition server_settled ::
  "wsio \<Rightarrow> WsRemote \<Rightarrow> stream \<Rightarrow> wstream \<times> ((ServerHandshake, stream) HandshakeError + stream \<times> WebSocket) \<Rightarrow>
   wsio \<times> WsRemote \<times> PendingStatus" where
  "server_settled io r backup result =
     (case result of (s, res) \<Rightarrow>
        (case res of
           Inr (stream, w) \<Rightarrow>
             (io\<lparr>sock := ws_socket w\<rparr>, r\<lparr>ws_state := State_WebSocket stream (ws_context w)\<rparr>, Ready)
         | Inl (HandshakeInterrupted mid) \<Rightarrow>
             (io\<lparr>sock := s\<rparr>, r\<lparr>ws_state := State_Handshake (Pending_Server mid)\<rparr>, Incomplete)
         | Inl (Failure _) \<Rightarrow> (io\<lparr>sock := s\<rparr>, r\<lparr>ws_state := State_Error backup\<rparr>, PendingDisconnected)))"

definition ws_pending :: "wsio \<Rightarrow> WsRemote \<Rightarrow> (wsio \<times> WsRemote \<times> PendingStatus) exec option" where
  "ws_pending io r =
     (case ws_state r of
        State_WebSocket _ _ \<Rightarrow> Some (Done (io, r, Ready))
      | State_Handshake (Pending_Connect url stream) \<Rightarrow>
          let tcp_status = check_tcp_stream_ready io in
          if tcp_status \<noteq> Ready then Some (Done (io, r, tcp_status))
          else
            obind (ws_connect (crates io) (sock io) (str_into_client_request (crates io) url) stream)
              (\<lambda>result. Some (Done (client_settled io r stream result)))
      | State_Handshake (Pending_Accept stream) \<Rightarrow>
          obind (ws_accept (crates io) (sock io) stream)
            (\<lambda>result. Some (Done (server_settled io r stream result)))
      | State_Handshake (Pending_Client mid) \<Rightarrow>
          obind (client_handshake (crates io) (sock io) mid)
            (\<lambda>result. Some (Done (client_settled io r (mach_stream (mid_machine mid)) result)))
      | State_Handshake (Pending_Server mid) \<Rightarrow>
          obind (server_handshake (crates io) (sock io) mid)
            (\<lambda>result. Some (Done (server_settled io r (mach_stream (mid_machine mid)) result)))
      | State_Error _ \<Rightarrow> Some Panic)"

section \<open>Local resources and connecting\<close>

record WsLocal =
  ws_listener :: source
  ws_listener_keepalive_opt :: "keepalive option"

definition ws_listen_with :: "wsio \<Rightarrow> ListenConfig \<Rightarrow> SocketAddr \<Rightarrow> (io_error + WsLocal \<times> SocketAddr) exec" where
  "ws_listen_with io config a =
     (case listening_socket io config a of
        Inl e \<Rightarrow> Done (Err e)
      | Inr listener \<Rightarrow>
          xbind (unwrap (stream_local io)) (\<lambda>local_addr.
          Done (Ok (\<lparr>ws_listener = listener, ws_listener_keepalive_opt = listen_keepalive_opt config\<rparr>, local_addr))))"

definition ws_adapter_accept :: "wsio \<Rightarrow> WsLocal \<Rightarrow> (wsio \<times> AcceptedType list) option" where
  "ws_adapter_accept io l =
     map_option (\<lambda>accepted. (io, accepted))
       (accept_loop (accepts io) (WsAcceptPayload (ws_listener_keepalive_opt l)) 0 [])"

definition ws_remote_connect_with ::
  "'x os_scheme \<Rightarrow> ConnectConfig \<Rightarrow> SocketAddr \<Rightarrow> io_error + ConnectionInfo" where
  "ws_remote_connect_with io config peer =
     rbind (socket_new io (domain_of peer)) (\<lambda>socket.
     rbind (set_nonblocking io) (\<lambda>_.
     rbind (set_nodelay io) (\<lambda>_.
     rbind (case source_address_opt config of None \<Rightarrow> Ok () | Some a \<Rightarrow> bind_socket io a) (\<lambda>_.
     rbind (bind_device_if io (conn_bind_device_opt config)) (\<lambda>_.
     rbind (case connect_socket io peer of
              Inl e \<Rightarrow> if e \<noteq> InProgress then Err e else Ok ()
            | Inr _ \<Rightarrow> Ok ()) (\<lambda>_.
     rbind (stream_local io) (\<lambda>local_addr.
     Ok \<lparr>ci_stream = socket, ci_local_addr = local_addr, ci_peer_addr = peer,
         ci_keepalive_opt = conn_keepalive_opt config, ci_domain_opt = None\<rparr>)))))))"

text \<open>The peer address and the URL of a remote address.\<close>

definition default_port :: "string \<Rightarrow> u16 option" where
  "default_port scheme = (if scheme = ''ws'' then Some 80 else if scheme = ''wss'' then Some 443 else None)"

definition ws_peer :: "wsio \<Rightarrow> RemoteAddr \<Rightarrow> (SocketAddr \<times> url) exec" where
  "ws_peer io raddr =
     (case raddr of
        Socket a \<Rightarrow>
          xbind (expect (Url_parse io (''ws://'' @ ws_show_addr io a @ ''/message-io-default''))) (\<lambda>url.
          Done (a, url))
      | Str path \<Rightarrow>
          xbind (expect (Url_parse io path)) (\<lambda>url.
          xbind (unwrap (url_socket_addrs io url (default_port (url_scheme io url)))) (\<lambda>addrs.
          case addrs of [] \<Rightarrow> Panic | a # _ \<Rightarrow> Done (a, url))))"

definition ws_connect_with :: "wsio \<Rightarrow> ConnectConfig \<Rightarrow> RemoteAddr \<Rightarrow>
    (io_error + stream \<times> SocketAddr \<times> SocketAddr \<times> payload) exec" where
  "ws_connect_with io config raddr =
     xbind (ws_peer io raddr) (\<lambda>(peer, url).
     Done (rbind (ws_remote_connect_with io config peer) (\<lambda>info.
       Ok (ci_stream info, ci_local_addr info, ci_peer_addr info,
           WsConnectPayload url (ci_keepalive_opt info)))))"

definition ws_accepted_resource :: "stream \<Rightarrow> payload \<Rightarrow> WsRemote exec" where
  "ws_accepted_resource stream boxed =
     xbind (downcast_unchecked as_WsAcceptPayload boxed) (\<lambda>k.
     Done \<lparr>ws_state = State_Handshake (Pending_Accept stream), ws_keepalive_opt = k\<rparr>)"

definition ws_connected_resource :: "wsio \<Rightarrow> stream \<Rightarrow> payload \<Rightarrow> WsRemote exec" where
  "ws_connected_resource io stream boxed =
     xbind (downcast_unchecked as_WsConnectPayload boxed) (\<lambda>(url, k).
     Done \<lparr>ws_state = State_Handshake (Pending_Connect url stream), ws_keepalive_opt = k\<rparr>)"

section \<open>The adapter\<close>

definition WsAdapter :: "(WsRemote, WsLocal, wsio) adapter" where
  "WsAdapter = \<lparr>
     remote_source = ws_source, local_source = ws_listener,
     receive = ws_receive, send = ws_send, adapter.pending = ws_pending,
     ready_to_write = ready_to_write_default,
     accept = ws_adapter_accept, send_to = send_to_default,
     listener_addr = (\<lambda>io _. stream_local io),
     listen_with = ws_listen_with,
     accepted_resource = ws_accepted_resource, connected_resource = ws_connected_resource,
     sent_wire = (\<lambda>io. sent_bytes (sock io)), connect_with = ws_connect_with\<rparr>"

section \<open>The driver\<close>

text \<open>
  \<open>WsDriver\<close> is the event processor of \<open>Driver\<close> over this adapter; its handlers differ from those of
  \<open>TcpDriver\<close> in the resources they build and in how they connect, which are fields of the adapter.
\<close>

type_synonym ws_driver = "(WsRemote, WsLocal) driver"

definition ws_driver_new :: "ResourceIdGenerator \<Rightarrow> ws_driver" where
  "ws_driver_new = driver_new"

definition ws_next_remote_id :: "bool \<Rightarrow> ws_driver \<Rightarrow> u8 \<Rightarrow> (ResourceId \<times> ws_driver) exec" where
  "ws_next_remote_id = next_remote_id"

definition ws_resolve_pending_remote ::
  "mio \<Rightarrow> wsio \<Rightarrow> ws_driver \<Rightarrow> (WsRemote, RemoteProperties) Register \<Rightarrow> Endpoint \<Rightarrow>
   (wsio \<times> ws_driver \<times> (WsRemote, RemoteProperties) Register \<times> effect list) exec option" where
  "ws_resolve_pending_remote = resolve_pending_remote WsAdapter"

definition ws_write_to_remote :: "wsio \<Rightarrow> (WsRemote, RemoteProperties) Register \<Rightarrow> Endpoint \<Rightarrow> effect list" where
  "ws_write_to_remote = write_to_remote WsAdapter"

definition ws_read_from_remote ::
  "mio \<Rightarrow> wsio \<Rightarrow> ws_driver \<Rightarrow> (WsRemote, RemoteProperties) Register \<Rightarrow> Endpoint \<Rightarrow>
   (ws_driver \<times> (WsRemote, RemoteProperties) Register \<times> effect list) exec option" where
  "ws_read_from_remote = read_from_remote WsAdapter"

definition ws_read_from_local ::
  "bool \<Rightarrow> wsio \<Rightarrow> ws_driver \<Rightarrow> WsLocal \<Rightarrow> ResourceId \<Rightarrow> (ws_driver \<times> effect list) exec option" where
  "ws_read_from_local = read_from_local WsAdapter"

definition ws_process_read ::
  "mio \<Rightarrow> bool \<Rightarrow> wsio \<Rightarrow> ws_driver \<Rightarrow> ResourceId \<Rightarrow> (ws_driver \<times> effect list) exec option" where
  "ws_process_read = process_read WsAdapter"

definition ws_process_write ::
  "mio \<Rightarrow> wsio \<Rightarrow> ws_driver \<Rightarrow> ResourceId \<Rightarrow> (ws_driver \<times> effect list) exec option" where
  "ws_process_write = process_write WsAdapter"

definition ws_process_accept_register_remote ::
  "mio \<Rightarrow> ws_driver \<Rightarrow> ResourceId \<times> SocketAddr \<Rightarrow> ResourceId \<times> SocketAddr \<Rightarrow> stream \<Rightarrow> payload \<Rightarrow> callback \<Rightarrow>
   (ws_driver \<times> effect list) exec" where
  "ws_process_accept_register_remote = process_accept_register_remote WsAdapter"

definition ws_process_connect_register_remote ::
  "mio \<Rightarrow> wsio \<Rightarrow> ws_driver \<Rightarrow> SocketAddr \<Rightarrow> ResourceId \<times> SocketAddr \<Rightarrow> stream \<Rightarrow> payload \<Rightarrow> callback \<Rightarrow>
   (ws_driver \<times> effect list) exec" where
  "ws_process_connect_register_remote = process_connect_register_remote WsAdapter"

definition ws_process_listen ::
  "mio \<Rightarrow> wsio \<Rightarrow> ws_driver \<Rightarrow> ListenConfig \<Rightarrow> ResourceId \<Rightarrow> SocketAddr \<Rightarrow> callback \<Rightarrow>
   (ws_driver \<times> effect list) exec" where
  "ws_process_listen = process_listen WsAdapter"

definition ws_process_connect ::
  "wsio \<Rightarrow> ws_driver \<Rightarrow> ConnectConfig \<Rightarrow> ResourceId \<Rightarrow> RemoteAddr \<Rightarrow> callback \<Rightarrow> (ws_driver \<times> effect list) exec" where
  "ws_process_connect = process_connect WsAdapter"

definition ws_process_send ::
  "wsio \<Rightarrow> ws_driver \<Rightarrow> Endpoint \<Rightarrow> bytes \<Rightarrow> (wsio \<times> ws_driver \<times> SendStatus) exec option" where
  "ws_process_send = process_send WsAdapter"

definition ws_process_close ::
  "mio \<Rightarrow> ws_driver \<Rightarrow> ResourceId \<Rightarrow> callback \<Rightarrow> (ws_driver \<times> effect list) exec" where
  "ws_process_close = process_close WsAdapter"

definition ws_process_is_ready :: "ws_driver \<Rightarrow> ResourceId \<Rightarrow> callback \<Rightarrow> effect list" where
  "ws_process_is_ready = process_is_ready"

lemmas ws_driver_defs = ws_process_read_def ws_process_write_def ws_process_accept_register_remote_def
  ws_process_connect_register_remote_def ws_process_listen_def ws_process_connect_def ws_process_send_def
  ws_process_close_def ws_process_is_ready_def

section \<open>The poll source of a remote\<close>

lemma client_settled_source:
  assumes "client_handshake h s mid = Some (Done result)" and "mach_stream (mid_machine mid) = stream"
    and "client_settled io r stream result = (io', r', st)"
  shows "ws_source r' = stream"
proof -
  obtain s' res where result: "result = (s', res)" by fastforce
  with client_stream.handshake_keeps [of h s mid s' res stream] assms(1,2) have "client_stream.result_ok stream res"
    by (simp add: client_handshake_def)
  with assms(3) result show ?thesis
    by (auto simp: client_settled_def client_stream.result_ok_def ws_source_def state_source_def
        split: sum.splits HandshakeError.splits)
qed

lemma server_settled_source:
  assumes "server_handshake h s mid = Some (Done result)" and "mach_stream (mid_machine mid) = stream"
    and "server_settled io r stream result = (io', r', st)"
  shows "ws_source r' = stream"
proof -
  obtain s' res where result: "result = (s', res)" by fastforce
  with server_stream.handshake_keeps [of h s mid s' res stream] assms(1,2) have "server_stream.result_ok stream res"
    by (simp add: server_handshake_def)
  with assms(3) result show ?thesis
    by (auto simp: server_settled_def server_stream.result_ok_def ws_source_def state_source_def
        split: sum.splits HandshakeError.splits)
qed

lemma connect_settled_source:
  assumes "ws_connect h s request stream = Some (Done result)" and "client_settled io r stream result = (io', r', st)"
  shows "ws_source r' = stream"
proof (cases "rbind request (\<lambda>request. ClientHandshake_start h stream request None)")
  case (Inl e)
  then show ?thesis
    using assms by (auto simp: ws_connect_def ws_connect_with_config_def client_settled_def ws_source_def state_source_def)
next
  case (Inr mid)
  then have "mach_stream (mid_machine mid) = stream"
    by (auto simp: result_simps ClientHandshake_start_def start_write_def split: if_splits)
  moreover have "client_handshake h s mid = Some (Done result)"
    using assms(1) Inr by (simp add: ws_connect_def ws_connect_with_config_def)
  ultimately show ?thesis using assms(2) client_settled_source by blast
qed

lemma ws_pending_source:
  assumes "ws_pending io r = Some (Done (io', r', st))"
  shows "ws_source r' = ws_source r"
proof (cases "ws_state r")
  case (State_Handshake p)
  show ?thesis
  proof (cases p)
    case (Pending_Connect url stream)
    show ?thesis
    proof (cases "check_tcp_stream_ready io = Ready")
      case True
      with assms State_Handshake Pending_Connect obtain result where
        "ws_connect (crates io) (sock io) (str_into_client_request (crates io) url) stream = Some (Done result)"
        "client_settled io r stream result = (io', r', st)"
        by (auto simp: ws_pending_def obind_eq_Done)
      from connect_settled_source [OF this] State_Handshake Pending_Connect show ?thesis
        by (simp add: ws_source_def state_source_def)
    qed (use assms State_Handshake Pending_Connect in \<open>auto simp: ws_pending_def\<close>)
  next
    case (Pending_Accept stream)
    with assms State_Handshake obtain result where
      "server_handshake (crates io) (sock io) (ServerHandshake_start stream NoCallback None) = Some (Done result)"
      "server_settled io r stream result = (io', r', st)"
      by (auto simp: ws_pending_def obind_eq_Done ws_accept_def ws_accept_with_config_def ws_accept_hdr_with_config_def)
    from server_settled_source [OF this(1) _ this(2)] State_Handshake Pending_Accept show ?thesis
      by (simp add: ws_source_def state_source_def ServerHandshake_start_def start_read_def)
  next
    case (Pending_Client mid)
    with assms State_Handshake obtain result where
      "client_handshake (crates io) (sock io) mid = Some (Done result)"
      "client_settled io r (mach_stream (mid_machine mid)) result = (io', r', st)"
      by (auto simp: ws_pending_def obind_eq_Done)
    from client_settled_source [OF this(1) refl this(2)] State_Handshake Pending_Client show ?thesis
      by (simp add: ws_source_def state_source_def)
  next
    case (Pending_Server mid)
    with assms State_Handshake obtain result where
      "server_handshake (crates io) (sock io) mid = Some (Done result)"
      "server_settled io r (mach_stream (mid_machine mid)) result = (io', r', st)"
      by (auto simp: ws_pending_def obind_eq_Done)
    from server_settled_source [OF this(1) refl this(2)] State_Handshake Pending_Server show ?thesis
      by (simp add: ws_source_def state_source_def)
  qed
qed (use assms in \<open>auto simp: ws_pending_def\<close>)

lemma ws_receive_source: "ws_receive io r = Some (Done (io', r', ds, st)) \<Longrightarrow> ws_source r' = ws_source r"
  by (auto simp: ws_receive_def obind_eq_Done ws_source_def state_source_def split: RemoteState.splits)

lemma ws_send_source: "ws_send io r data = Some (Done (io', r', st)) \<Longrightarrow> ws_source r' = ws_source r"
  by (auto simp: ws_send_def obind_eq_Done ws_source_def state_source_def split: RemoteState.splits exec.splits)

interpretation ws: stream_adapter WsAdapter
  by unfold_locales
    (auto simp: WsAdapter_def ws_accepted_resource_def ws_connected_resource_def ws_source_def state_source_def
      ready_to_write_default_def result_simps
      dest: ws_receive_source ws_send_source ws_pending_source)

section \<open>Transports that never open a connection\<close>

text \<open>
  A contract a transport should not meet: its remotes start in a state (\<open>unopened\<close>) that \<open>pending\<close> keeps and
  never reports as ready. Then no remote ever becomes ready, and the only event the user sees about one is
  a failed connection.
\<close>

locale stalled_adapter = stream_adapter A for A :: "('r, 'l, 'io) adapter" +
  fixes unopened :: "'r \<Rightarrow> bool"
  assumes accepted_unopened: "accepted_resource A stream p = Done r \<Longrightarrow> unopened r"
    and connected_unopened: "connected_resource A io stream p = Done r \<Longrightarrow> unopened r"
    and pending_unopened: "unopened r \<Longrightarrow> adapter.pending A io r = Some (Done (io', r', st)) \<Longrightarrow> unopened r' \<and> st \<noteq> Ready"
begin

definition stalled :: "('r, 'l) driver \<Rightarrow> bool" where
  "stalled d \<longleftrightarrow> (\<forall>i r. remote_registry d i = Some r \<longrightarrow> unopened (resource r) \<and> \<not> ready (properties r))"

definition silent :: "effect list \<Rightarrow> bool" where
  "silent effs \<longleftrightarrow> (\<forall>i. resource_type i = Remote \<longrightarrow> (\<forall>e \<in> set (events_of i effs). \<exists>a. e = Connected (Endpoint_new i a) False))"

lemma silent_simps [simp]:
  "silent []" "silent (xs @ ys) \<longleftrightarrow> silent xs \<and> silent ys" "silent (map Poll_Call cs)"
  by (auto simp: silent_def)

lemma resolve_stalled:
  assumes "resolve_pending_remote A mio io d remote (Endpoint_new i a) = Some (Done (io', d', remote', effs))"
    and "stalled d" and "unopened (resource remote)" and "\<not> ready (properties remote)"
  shows "stalled d' \<and> silent effs \<and> \<not> ready (properties remote')"
proof -
  obtain io1 res st where p: "adapter.pending A io (resource remote) = Some (Done (io1, res, st))"
    using assms(1) by (auto simp: resolve_pending_remote_def result_simps)
  from pending_unopened [OF assms(3) p] have "unopened res" "st \<noteq> Ready" by auto
  with p assms show ?thesis
    by (cases st)
      (auto simp: resolve_pending_remote_def stalled_def silent_def registry_shared_def registry_deregister_def
        Let_def result_simps split: if_splits option.splits)
qed

lemma drop_clone_silent: "drop_clone A mio d i remote = Done effs \<Longrightarrow> silent effs"
  by (drule drop_clone_Done) (simp add: silent_def)

lemma read_stalled:
  assumes "process_read A mio debug io d i = Some (Done (d', effs))" and "stalled d"
  shows "stalled d' \<and> silent effs"
proof (cases "resource_type i")
  case Remote
  show ?thesis
  proof (cases "remote_registry d i")
    case (Some remote)
    with assms(2) have r: "unopened (resource remote)" "\<not> ready (properties remote)" by (auto simp: stalled_def)
    with assms(1) Remote Some obtain io' d1 remote' effs1 where
      res: "resolve_pending_remote A mio io d remote (Endpoint_new i (peer_addr (properties remote))) =
        Some (Done (io', d1, remote', effs1))"
      by (auto simp: process_read_def registry_get_def Let_def result_simps)
    note st = resolve_stalled [OF res assms(2) r]
    with assms(1) Remote Some r res show ?thesis
      by (auto simp: process_read_def registry_get_def Let_def result_simps dest: drop_clone_silent)
  qed (use assms Remote in \<open>auto simp: process_read_def registry_get_def\<close>)
next
  case Local
  show ?thesis
  proof (cases "local_registry d i")
    case (Some loc)
    with Local assms(1) obtain io' as where "post_accepted A debug io' d (resource loc) i as = Done (d', effs)"
      by (auto simp: process_read_def registry_get_def read_from_local_def split: option.splits)
    from post_accepted_effects [OF this] obtain g where
      "d' = d\<lparr>remote_id_generator := g\<rparr>" and others: "\<forall>j. j \<noteq> i \<longrightarrow> events_of j effs = []" by blast
    moreover have "events_of j effs = []" if "resource_type j = Remote" for j
      using others Local that by (cases "j = i") auto
    ultimately show ?thesis using assms(2) by (simp add: stalled_def silent_def)
  qed (use assms Local in \<open>auto simp: process_read_def registry_get_def\<close>)
qed

lemma write_stalled:
  assumes "process_write A mio io d i = Some (Done (d', effs))" and "stalled d"
  shows "stalled d' \<and> silent effs"
proof (cases "resource_type i")
  case Remote
  show ?thesis
  proof (cases "remote_registry d i")
    case (Some remote)
    with assms(2) have r: "unopened (resource remote)" "\<not> ready (properties remote)" by (auto simp: stalled_def)
    with assms(1) Remote Some obtain io' d1 remote' effs1 where
      res: "resolve_pending_remote A mio io d remote (Endpoint_new i (peer_addr (properties remote))) =
        Some (Done (io', d1, remote', effs1))"
      by (auto simp: process_write_def registry_get_def Let_def result_simps)
    note st = resolve_stalled [OF res assms(2) r]
    with assms(1) Remote Some r res show ?thesis
      by (auto simp: process_write_def registry_get_def Let_def result_simps dest: drop_clone_silent)
  qed (use assms Remote in \<open>auto simp: process_write_def registry_get_def\<close>)
qed (use assms in \<open>auto simp: process_write_def\<close>)

lemma registered_stalled:
  assumes "registry_register mio src (remote_registry d) i res (RemoteProperties_new a l) w = Done (reg, calls)"
    and "stalled d" and "unopened res"
  shows "stalled (d\<lparr>remote_registry := reg\<rparr>)"
  using assms
  by (auto simp: stalled_def registry_register_def PollRegistry_add_def Register_new_def RemoteProperties_new_def
      Let_def result_simps split: option.splits if_splits)

lemma step_stalled:
  assumes "driver_step A mio s effs s'" and "stalled (snd s)"
  shows "stalled (snd s') \<and> silent effs"
  using assms
proof (induction rule: driver_step.induct)
  case (Read debug io d i d' effs used)
  then show ?case using read_stalled by simp
next
  case (Write io d i d' effs used)
  then show ?case using write_stalled by simp
next
  case (Accept_Register d local_pair i a stream payload cb d' effs used)
  then show ?case
    by (auto simp: process_accept_register_remote_def Let_def result_simps silent_def
        intro!: registered_stalled dest: accepted_unopened)
next
  case (Connect_Register io d la i a stream payload cb d' effs used)
  then show ?case
    by (auto simp: process_connect_register_remote_def Let_def result_simps silent_def
        intro!: registered_stalled dest: connected_unopened)
next
  case (Listen io d config l a cb d' effs used)
  then obtain ret where "listen_with A io config a = Done ret" by (auto simp: process_listen_def result_simps)
  with Listen show ?case
    by (cases ret) (auto simp: process_listen_def result_simps stalled_def silent_def split: prod.splits)
next
  case (Connect io d config i ra cb d' effs used)
  then obtain ret where "connect_with A io config ra = Done ret" by (auto simp: process_connect_def result_simps)
  with Connect show ?case
    by (cases ret) (auto simp: process_connect_def stalled_def silent_def split: prod.splits)
next
  case (Send io d e data io' d' status effs bs effs' cb used)
  then have "d' = d"
    by (auto simp: process_send_def Let_def registry_get_def stalled_def result_simps
        split: ResourceType.splits option.splits if_splits)
  with Send show ?case by (auto simp: silent_def)
next
  case (Close d i cb d' effs used)
  then show ?case
    by (cases "resource_type i")
      (auto simp: process_close_def result_simps registry_deregister_def stalled_def silent_def
        split: option.splits if_splits)
next
  case (Is_Ready used d i cb)
  then show ?case
    by (auto simp: process_is_ready_def silent_def Let_def split: ResourceType.splits option.splits)
next
  case (Shared used d g)
  then show ?case by (simp add: stalled_def silent_def)
qed

lemma run_stalled:
  "driver_run A mio (driver_new g) effs s \<Longrightarrow> stalled (snd s) \<and> silent effs"
proof (induction rule: driver_run.induct)
  case Start
  then show ?case by (simp add: stalled_def driver_new_def registry_new_def)
next
  case (Step effs s effs' s')
  then show ?case using step_stalled by auto
qed

end

section \<open>The websocket transport never opens a connection\<close>

definition ws_unopened :: "WsRemote \<Rightarrow> bool" where
  "ws_unopened r =
     (case ws_state r of
        State_WebSocket _ _ \<Rightarrow> False
      | State_Handshake (Pending_Client mid) \<Rightarrow> no_input (mid_machine mid)
      | State_Handshake (Pending_Server mid) \<Rightarrow> awaits_input (mid_machine mid)
      | _ \<Rightarrow> True)"

lemma client_settled_unopened:
  assumes "client_handshake h s mid = Some (Done result)" and "no_input (mid_machine mid)"
    and "client_settled io r stream result = (io', r', st)"
  shows "ws_unopened r' \<and> st \<noteq> Ready"
proof -
  obtain s' res where result: "result = (s', res)" by fastforce
  with client_silent.handshake_keeps [of h s mid s' res] assms(1,2) have "client_silent.result_ok res"
    by (simp add: client_handshake_def)
  with assms(3) result show ?thesis
    by (auto simp: client_settled_def client_silent.result_ok_def ws_unopened_def split: sum.splits HandshakeError.splits)
qed

lemma server_settled_unopened:
  assumes "server_handshake h s mid = Some (Done result)" and "awaits_input (mid_machine mid)"
    and "server_settled io r stream result = (io', r', st)"
  shows "ws_unopened r' \<and> st \<noteq> Ready"
proof -
  obtain s' res where result: "result = (s', res)" by fastforce
  with server_silent.handshake_keeps [of h s mid s' res] assms(1,2) have "server_silent.result_ok res"
    by (simp add: server_handshake_def)
  with assms(3) result show ?thesis
    by (auto simp: server_settled_def server_silent.result_ok_def ws_unopened_def split: sum.splits HandshakeError.splits)
qed

lemma connect_settled_unopened:
  assumes "ws_connect h s request stream = Some (Done result)" and "client_settled io r stream result = (io', r', st)"
  shows "ws_unopened r' \<and> st \<noteq> Ready"
proof (cases "rbind request (\<lambda>request. ClientHandshake_start h stream request None)")
  case (Inl e)
  then show ?thesis
    using assms by (auto simp: ws_connect_def ws_connect_with_config_def client_settled_def ws_unopened_def)
next
  case (Inr mid)
  then have "no_input (mid_machine mid)" using start_no_input by (auto simp: result_simps)
  moreover have "client_handshake h s mid = Some (Done result)"
    using assms(1) Inr by (simp add: ws_connect_def ws_connect_with_config_def)
  ultimately show ?thesis using assms(2) client_settled_unopened by blast
qed

lemma ws_pending_unopened:
  assumes "ws_unopened r" and "ws_pending io r = Some (Done (io', r', st))"
  shows "ws_unopened r' \<and> st \<noteq> Ready"
proof (cases "ws_state r")
  case (State_Handshake p)
  show ?thesis
  proof (cases p)
    case (Pending_Connect url stream)
    show ?thesis
    proof (cases "check_tcp_stream_ready io = Ready")
      case True
      with assms State_Handshake Pending_Connect obtain result where
        "ws_connect (crates io) (sock io) (str_into_client_request (crates io) url) stream = Some (Done result)"
        "client_settled io r stream result = (io', r', st)"
        by (auto simp: ws_pending_def obind_eq_Done)
      then show ?thesis by (rule connect_settled_unopened)
    qed (use assms State_Handshake Pending_Connect in \<open>auto simp: ws_pending_def\<close>)
  next
    case (Pending_Accept stream)
    with assms State_Handshake obtain result where
      "server_handshake (crates io) (sock io) (ServerHandshake_start stream NoCallback None) = Some (Done result)"
      "server_settled io r stream result = (io', r', st)"
      by (auto simp: ws_pending_def obind_eq_Done ws_accept_def ws_accept_with_config_def ws_accept_hdr_with_config_def)
    from server_settled_unopened [OF this(1) _ this(2)] show ?thesis
      by (simp add: awaits_input_def ServerHandshake_start_def start_read_def)
  next
    case (Pending_Client mid)
    with assms State_Handshake obtain result where "client_handshake (crates io) (sock io) mid = Some (Done result)"
      "no_input (mid_machine mid)" "client_settled io r (mach_stream (mid_machine mid)) result = (io', r', st)"
      by (auto simp: ws_pending_def obind_eq_Done ws_unopened_def)
    then show ?thesis by (rule client_settled_unopened)
  next
    case (Pending_Server mid)
    with assms State_Handshake obtain result where "server_handshake (crates io) (sock io) mid = Some (Done result)"
      "awaits_input (mid_machine mid)" "server_settled io r (mach_stream (mid_machine mid)) result = (io', r', st)"
      by (auto simp: ws_pending_def obind_eq_Done ws_unopened_def)
    then show ?thesis by (rule server_settled_unopened)
  qed
qed (use assms in \<open>auto simp: ws_pending_def ws_unopened_def\<close>)

interpretation wsn: stalled_adapter WsAdapter ws_unopened
  by unfold_locales
    (auto simp: WsAdapter_def ws_accepted_resource_def ws_connected_resource_def result_simps
      dest: ws_pending_unopened, auto simp: ws_unopened_def)

section \<open>Properties\<close>

text \<open>
  C14: In every run of the websocket event processor, whatever the sockets deliver, no remote becomes
  ready: the user gets neither \<open>Accepted\<close> nor \<open>Connected\<close> with success nor any message, only failed
  connections, and everything sent to a remote is refused without effect. The poll watches exactly the resources in the
  tables.
\<close>
theorem ws_never_opens:
  assumes "driver_run WsAdapter mio (driver_new g) effs (used, d)"
  shows "(\<forall>i e. resource_type i = Remote \<longrightarrow> e \<in> set (events_of i effs) \<longrightarrow> (\<exists>a. e = Connected (Endpoint_new i a) False)) \<and>
    (\<forall>io endpoint data. resource_type (resource_id endpoint) = Remote \<longrightarrow>
      ws_process_send io d endpoint data = Some (Done (io, d,
        if remote_registry d (resource_id endpoint) = None then ResourceNotFound else ResourceNotAvailable))) \<and>
    watch {} (poll_calls effs) = (\<lambda>r. ws_source (resource r)) ` ran (remote_registry d) \<union>
      (ws_listener \<circ> resource) ` ran (local_registry d)"
proof -
  note run = wsn.run_stalled [OF assms] ws.run_watched [OF assms]
  have "\<not> ready (properties r)" if "remote_registry d i = Some r" for i r
    using run(1) that by (auto simp: wsn.stalled_def)
  then have "ws_process_send io d endpoint data = Some (Done (io, d,
      if remote_registry d (resource_id endpoint) = None then ResourceNotFound else ResourceNotAvailable))"
    if "resource_type (resource_id endpoint) = Remote" for io endpoint data
    using that by (auto simp: ws_process_send_def process_send_def registry_get_def Let_def split: option.splits)
  then show ?thesis
    using run by (auto simp: wsn.silent_def watched_def WsAdapter_def sources_ran image_image)
qed

text \<open>An environment in which the first bytes of a request have arrived.\<close>

definition wsio_demo :: wsio where
  "wsio_demo = os.extend os_demo (wsio.fields (sample_stream [[71, 69, 84]]) (\<lambda>_. Ok ()) sample_crates sample_target
     ascii_utf8 (\<lambda>s. Some s) (\<lambda>_. ''ws'') (\<lambda>_ _. Ok [V4 7 80]) (\<lambda>_. ''10.0.0.1:80''))"

definition demo_ws :: "PendingHandshake \<Rightarrow> (WsRemote, WsLocal) driver" where
  "demo_ws p = (driver_new (ResourceIdGenerator_new Remote))\<lparr>remote_registry :=
     [demo_id \<mapsto> \<lparr>resource = \<lparr>ws_state = State_Handshake p, ws_keepalive_opt = None\<rparr>,
       properties = \<lparr>peer_addr = V4 7 80, local = Some demo_listener, ready = False\<rparr>\<rparr>]\<rparr>"

theorem ws_never_opens_witness:
  "\<exists>effs used. driver_run WsAdapter mio_ok (driver_new (ResourceIdGenerator_new Remote)) effs
      (used, demo_ws (Pending_Server (ServerHandshake_start 10 NoCallback None))) \<and>
    watch {} (poll_calls effs) = {10}"
proof -
  let ?g = "ResourceIdGenerator_new Remote"
  let ?e1 = "map Poll_Call [Registered 10 (Token_from_id demo_id) READABLE_WRITABLE] @
    [Call_Connect 0 (Ok (Endpoint_new demo_id (V4 7 80), V4 1 99))]"
  let ?p = "Pending_Server (ServerHandshake_start 10 NoCallback None)"
  have step1: "driver_step WsAdapter mio_ok ({}, driver_new ?g) ?e1 (insert demo_id {}, demo_ws (Pending_Accept 10))"
    by (rule driver_step.Accept_Register [where local_pair = "(demo_listener, V4 1 99)" and a = "V4 7 80"
          and stream = 10 and payload = "WsAcceptPayload None" and cb = 0])
      (simp_all add: process_accept_register_remote_def WsAdapter_def ws_accepted_resource_def
        registry_register_def PollRegistry_add_def mio_ok_def demo_ws_def driver_new_def registry_new_def
        Register_new_def RemoteProperties_new_def demo_ids watched_def sources_def ws_source_def state_source_def Let_def)
  have step2: "driver_step WsAdapter mio_ok ({demo_id}, demo_ws (Pending_Accept 10)) [] ({demo_id}, demo_ws ?p)"
    by (rule driver_step.Read [where debug = True and io = wsio_demo and i = demo_id])
      (simp add: process_read_def registry_get_def demo_ids resolve_pending_remote_def WsAdapter_def demo_ws_def
        ws_pending_def ws_accept_def ws_accept_with_config_def ws_accept_hdr_with_config_def server_awaits
        server_settled_def registry_shared_def drop_clone_def Let_def)
  have run: "driver_run WsAdapter mio_ok (driver_new ?g) (([] @ ?e1) @ []) ({demo_id}, demo_ws ?p)"
    by (intro driver_run.Step [OF _ step2] driver_run.Step [OF _ step1] driver_run.Start)
  have "(\<lambda>r. ws_source (resource r)) ` ran (remote_registry (demo_ws ?p)) \<union>
      (ws_listener \<circ> resource) ` ran (local_registry (demo_ws ?p)) = {10}"
    by (simp add: demo_ws_def driver_new_def registry_new_def ws_source_def state_source_def ServerHandshake_start_def start_read_def)
  with ws_never_opens [OF run] run show ?thesis by (intro exI conjI) (assumption, simp)
qed

end
