(* ===== verification/Ws_Data.thy ===== *)
theory Ws_Data
  imports Ws_Exchange Ws_Adapter
begin

text \<open>
  Data over an open websocket of the transport: what \<open>send\<close> of \<open>ws_adapter.rs\<close> puts on the wire through the
  protocol of \<open>ws/protocol\<close>, and what \<open>receive\<close> of the peer makes of it.
\<close>

section \<open>Sending\<close>

text \<open>
  The outcome of an operation on a context that is open: only the bytes waiting in the buffer change, and
  with those already sent they are \<open>all\<close>; success means that nothing waits.
\<close>

definition queues :: "WebSocketContext \<Rightarrow> bytes \<Rightarrow> unit step \<Rightarrow> bool" where
  "queues c all r \<longleftrightarrow> (\<exists>out s ret. r = Done (c\<lparr>ctx_frame := (ctx_frame c)\<lparr>out_buffer := out\<rparr>\<rparr>, s, ret) \<and>
     write_contract s \<and> sent_bytes s @ out = all \<and> (ret = Ok () \<longrightarrow> out = []))"

lemma flush_queues:
  assumes "sending c" and "write_contract s"
  shows "queues c (queued (c, s)) (ctx_flush t c s)"
proof -
  have c: "additional_send c = None" "can_read (ctx_state c)" using assms(1) by (simp_all add: sending_def can_read_def)
  obtain out s1 ret where "ctx_write_out_buffer c s = Done (c\<lparr>ctx_frame := (ctx_frame c)\<lparr>out_buffer := out\<rparr>\<rparr>, s1, ret)"
    "write_contract s1" "sent_bytes s1 @ out = queued (c, s)" "ret = Ok () \<longleftrightarrow> out = []"
    by (rule ctx_write_out_buffer_effect [OF assms(2), of c]) blast
  then show ?thesis
    by (cases ret)
      (auto simp: queues_def ctx_flush_def raw_write_idle [OF c] wbind_def stream_flush_def write_contract_def)
qed

lemma sending_out: "sending (c\<lparr>ctx_frame := k\<rparr>) \<longleftrightarrow> sending c"
  by (simp add: sending_def)

lemma send_queues:
  assumes "sending c" and "write_contract s" and "is_data m"
    and "ctx_send t c s m = Done (c', s', ret)" and "\<And>x. ret \<noteq> Err (WriteBufferFull x)"
  shows "queues c (queued (c, s) @ Frame_format t (frame_out c s (message_frame m))) (ctx_send t c s m)"
proof -
  have c: "additional_send c = None" "can_read (ctx_state c)" using assms(1) by (simp_all add: sending_def can_read_def)
  have wr: "ctx_send t c s m = wbind (write_frame t c s (message_frame m)) (\<lambda>c s _. ctx_flush t c s)"
    using assms(1,3) by (simp add: ctx_send_def ctx_write_def sending_def check_not_terminated_def is_active_def is_data_def
        message_frame_def split: Message.splits)
  show ?thesis
  proof (cases rule: buffer_frame_effect [OF assms(2), of t c "message_frame m"])
    case (1 s1)
    with assms(4,5) wr show ?thesis by (auto simp: write_frame_def raw_write_def wbind_def)
  next
    case (2 out s1 ret1)
    let ?c = "c\<lparr>ctx_frame := (ctx_frame c)\<lparr>out_buffer := out\<rparr>\<rparr>"
    show ?thesis
    proof (cases ret1)
      case (Inl e)
      with 2(1) wr have "ctx_send t c s m = Done (?c, s1, Err e)" by (simp add: write_frame_def raw_write_def wbind_def)
      with 2(3,5) show ?thesis unfolding queues_def by blast
    next
      case (Inr x)
      with 2 c have "write_frame t c s (message_frame m) = Done (?c, s1, Ok ())"
        by (simp add: write_frame_def raw_write_def write_additional_def wbind_def)
      then have "ctx_send t c s m = ctx_flush t ?c s1" by (simp add: wr wbind_def)
      moreover have "queues ?c (queued (?c, s1)) (ctx_flush t ?c s1)"
        by (rule flush_queues) (use assms(1) 2(3) in \<open>simp_all add: sending_def\<close>)
      ultimately show ?thesis using 2(5) by (simp add: queues_def queued_def)
    qed
  qed
qed

text \<open>The loop that flushes until the socket takes everything.\<close>

definition open_at :: "WebSocketContext \<Rightarrow> bytes \<Rightarrow> WebSocket \<Rightarrow> bool" where
  "open_at c all w \<longleftrightarrow> (\<exists>out. ws_context w = c\<lparr>ctx_frame := (ctx_frame c)\<lparr>out_buffer := out\<rparr>\<rparr> \<and>
     write_contract (ws_socket w) \<and> sent_bytes (ws_socket w) @ out = all)"

lemma flush_loop_sent:
  "ws_flush_loop t w ret = Some r \<Longrightarrow> sending c \<longrightarrow> open_at c all w \<longrightarrow>
   (ret = Ok () \<longrightarrow> out_buffer (ctx_frame (ws_context w)) = []) \<longrightarrow>
   (\<forall>w'. r = Done (w', Sent) \<longrightarrow> open_at c all w' \<and> out_buffer (ctx_frame (ws_context w')) = [])"
proof (induction rule: ws_flush_loop.raw_induct [rotated, consumes 1, case_names turn])
  case (turn loop t w ret r)
  show ?case
  proof (intro impI allI)
    fix w'
    assume c: "sending c" and at: "open_at c all w" and "r = Done (w', Sent)"
      and empty: "ret = Ok () \<longrightarrow> out_buffer (ctx_frame (ws_context w)) = []"
    show "open_at c all w' \<and> out_buffer (ctx_frame (ws_context w')) = []"
    proof (cases "ret = Err (Io WouldBlock)")
      case True
      from at obtain out where out: "ws_context w = c\<lparr>ctx_frame := (ctx_frame c)\<lparr>out_buffer := out\<rparr>\<rparr>"
        "write_contract (ws_socket w)" "sent_bytes (ws_socket w) @ out = all" by (auto simp: open_at_def)
      then have "queues (ws_context w) all (ctx_flush t (ws_context w) (ws_socket w))"
        using flush_queues [of "ws_context w" "ws_socket w" t] c by (simp add: sending_out queued_def)
      then obtain w1 ret1 where fl: "WebSocket_flush t w = Done (w1, ret1)" and w1: "open_at c all w1"
        "ret1 = Ok () \<longrightarrow> out_buffer (ctx_frame (ws_context w1)) = []"
        by (auto simp: queues_def WebSocket_flush_def put_back_def open_at_def out(1))
      with turn(2) True have "loop t w1 ret1 = Some r" by simp
      from turn(1) [OF this] c w1 \<open>r = Done (w', Sent)\<close> show ?thesis by simp
    next
      case False
      with turn \<open>r = Done (w', Sent)\<close> at empty show ?thesis
        by (cases ret) (auto split: Error.splits if_splits)
    qed
  qed
qed

lemma ws_send_wire:
  assumes r: "ws_state r = State_WebSocket a c" and c: "sending c" "out_buffer (ctx_frame c) = []" "write_contract (sock io)"
    and sent: "ws_send io r data = Some (Done (io', r', Sent))"
  shows "\<exists>g. carried (ctx_role c) (message_frame (Msg_Binary data)) g \<and>
      sent_bytes (sock io') = sent_bytes (sock io) @ Frame_format (ws_target io) g"
    and "ws_state r' = State_WebSocket a c" and "write_contract (sock io')" and "ws_target io' = ws_target io"
proof -
  let ?t = "ws_target io" and ?m = "Msg_Binary data"
  let ?all = "sent_bytes (sock io) @ Frame_format ?t (frame_out c (sock io) (message_frame ?m))"
  obtain c1 s1 ret where run: "ctx_send ?t c (sock io) ?m = Done (c1, s1, ret)"
    using sent r by (cases "ctx_send ?t c (sock io) ?m") (auto simp: ws_send_def WebSocket_send_def put_back_def)
  obtain w' where loop: "ws_flush_loop ?t \<lparr>ws_socket = s1, ws_context = c1\<rparr> ret = Some (Done (w', Sent))"
    and after: "io' = io\<lparr>sock := ws_socket w'\<rparr>" "r' = r\<lparr>ws_state := State_WebSocket a (ws_context w')\<rparr>"
    using sent r run by (auto simp: ws_send_def WebSocket_send_def put_back_def obind_eq_Done)
  have "ret \<noteq> Err (WriteBufferFull x)" for x using loop by (auto simp: ws_flush_loop.simps)
  then have "queues c ?all (ctx_send ?t c (sock io) ?m)"
    using send_queues [OF c(1,3) _ run] c(2) by (simp add: is_data_def queued_def)
  with run have "open_at c ?all \<lparr>ws_socket = s1, ws_context = c1\<rparr>" "ret = Ok () \<longrightarrow> out_buffer (ctx_frame c1) = []"
    by (auto simp: queues_def open_at_def)
  with flush_loop_sent [OF loop] c(1) have "open_at c ?all w'" "out_buffer (ctx_frame (ws_context w')) = []" by simp_all
  then have "ws_context w' = c" "write_contract (ws_socket w')" "sent_bytes (ws_socket w') = ?all"
    using c(2) by (auto simp: open_at_def)
  with after show "ws_state r' = State_WebSocket a c" "write_contract (sock io')" "ws_target io' = ws_target io"
    "\<exists>g. carried (ctx_role c) (message_frame ?m) g \<and> sent_bytes (sock io') = sent_bytes (sock io) @ Frame_format ?t g"
    by (auto intro!: exI [of _ "frame_out c (sock io) (message_frame ?m)"] frame_out_carried)
qed

fun ws_send_all :: "wsio \<Rightarrow> WsRemote \<Rightarrow> bytes list \<Rightarrow> (wsio \<times> WsRemote \<times> SendStatus list) exec option" where
  "ws_send_all io r [] = Some (Done (io, r, []))"
| "ws_send_all io r (data # datas) =
     obind (ws_send io r data) (\<lambda>(io, r, st).
     obind (ws_send_all io r datas) (\<lambda>(io, r, sts). Some (Done (io, r, st # sts))))"

lemma ws_send_all_wire:
  assumes "ws_state r = State_WebSocket a c" and "sending c" and "out_buffer (ctx_frame c) = []" and "write_contract (sock io)"
    and "ws_send_all io r datas = Some (Done (io', r', replicate (length datas) Sent))"
  shows "\<exists>gs. list_all2 (carried (ctx_role c)) (map (\<lambda>x. message_frame (Msg_Binary x)) datas) gs \<and>
    sent_bytes (sock io') = sent_bytes (sock io) @ concat (map (Frame_format (ws_target io)) gs)"
  using assms
proof (induction datas arbitrary: io r)
  case (Cons data datas)
  from Cons.prems(5) obtain io1 r1 where one: "ws_send io r data = Some (Done (io1, r1, Sent))"
    and rest: "ws_send_all io1 r1 datas = Some (Done (io', r', replicate (length datas) Sent))"
    by (auto simp: obind_eq_Done)
  note w = ws_send_wire [OF Cons.prems(1-4) one]
  from w(1) obtain g where "carried (ctx_role c) (message_frame (Msg_Binary data)) g"
    "sent_bytes (sock io1) = sent_bytes (sock io) @ Frame_format (ws_target io) g" by blast
  moreover from Cons.IH [OF w(2) Cons.prems(2,3) w(3) rest] obtain gs where
    "list_all2 (carried (ctx_role c)) (map (\<lambda>x. message_frame (Msg_Binary x)) datas) gs"
    "sent_bytes (sock io') = sent_bytes (sock io1) @ concat (map (Frame_format (ws_target io)) gs)"
    using w(4) by auto
  ultimately show ?case by (intro exI [of _ "g # gs"]) simp
qed simp

section \<open>Receiving\<close>

lemma idle_codec: "idle c \<Longrightarrow> in_buffer (ctx_frame c) = [] \<and> codec_header (ctx_frame c) = None"
  by (auto simp: idle_def unread_def header_format_def Let_def split: option.splits)

lemma read_blocked:
  "idle c \<Longrightarrow> next_reads s 0 = Err WouldBlock \<Longrightarrow> ctx_read t u c s = Some (Done (c, after_reads 1 s, Err (Io WouldBlock)))"
  using idle_codec [of c] read_refused [of c s WouldBlock t u]
  by (simp add: idle_def can_read_def check_connection_reset_def)

text \<open>
  How many of \<open>l\<close> messages one call of \<open>receive\<close> hands over, and how it ends: after each message the
  stream is peeked, and the first refusal ends the call (\<open>n\<close> is the number of the next \<open>peek\<close>).
\<close>

fun handed_over :: "(nat \<Rightarrow> io_error + unit) \<Rightarrow> nat \<Rightarrow> nat \<Rightarrow> nat \<times> ReadStatus" where
  "handed_over pk n 0 = (0, WaitNextEvent)"
| "handed_over pk n (Suc l) =
     (case pk n of
        Inl e \<Rightarrow> (1, io_error_to_read_status e)
      | Inr _ \<Rightarrow> (case handed_over pk (Suc n) l of (m, st) \<Rightarrow> (Suc m, st)))"

lemma handed_over_all: "(\<And>n. pk n = Ok ()) \<Longrightarrow> handed_over pk n l = (l, WaitNextEvent)"
  by (induction l arbitrary: n) simp_all

lemma handed_over_le: "fst (handed_over pk n l) \<le> l"
  by (induction l arbitrary: n) (auto split: sum.splits prod.splits intro: order_trans, metis fst_conv)

text \<open>
  The reader has taken every message before \<open>datas\<close>, and the frames of \<open>datas\<close>, as the peer sends them, are what it
  holds and what the socket is about to deliver; then the socket has nothing more.
\<close>

definition awaits :: "target \<Rightarrow> utf8_crate \<Rightarrow> Role \<Rightarrow> bytes list \<Rightarrow> wstream \<Rightarrow> WebSocketContext \<Rightarrow> bool" where
  "awaits t u r datas s c \<longleftrightarrow>
     ctx_state c = Active \<and> additional_send c = None \<and> ctx_incomplete c = None \<and> codec_ok (ctx_frame c) \<and> ctx_role c \<noteq> r \<and>
     (\<forall>data \<in> set datas. admits u (ctx_config c) (Msg_Binary data)) \<and>
     (\<exists>gs chunks. list_all2 (carried r) (map (\<lambda>x. message_frame (Msg_Binary x)) datas) gs \<and>
        unread (ctx_frame c) @ concat chunks = concat (map (Frame_format t) gs) \<and> delivers s chunks \<and>
        next_reads s (length chunks) = Err WouldBlock)"

lemma awaits_Nil:
  assumes "awaits t u r [] s c"
  shows "idle c" and "next_reads s 0 = Err WouldBlock"
proof -
  from assms obtain chunks where c: "unread (ctx_frame c) = []" "concat chunks = []" "delivers s chunks"
    "next_reads s (length chunks) = Err WouldBlock" by (auto simp: awaits_def)
  then have "chunks = []" by (cases chunks) (auto simp: delivers_def)
  with c assms show "idle c" "next_reads s 0 = Err WouldBlock" by (auto simp: awaits_def idle_def)
qed

lemma awaits_Cons:
  assumes "target_ok t" and "awaits t u r (data # datas) s c"
  shows "\<exists>s' c'. ctx_read t u c s = Some (Done (c', s', Ok (Msg_Binary data))) \<and> awaits t u r datas s' c'"
proof -
  from assms(2) obtain g gs chunks where g: "carried r (message_frame (Msg_Binary data)) g"
    "list_all2 (carried r) (map (\<lambda>x. message_frame (Msg_Binary x)) datas) gs"
    and c: "unread (ctx_frame c) @ concat chunks = concat (map (Frame_format t) (g # gs))" "delivers s chunks"
      "next_reads s (length chunks) = Err WouldBlock"
    by (auto simp: awaits_def list_all2_Cons1)
  obtain k j where "j \<le> length chunks" "unread k @ concat (drop j chunks) = concat (map (Frame_format t) gs)" "codec_ok k"
    "ctx_read t u c s = Some (Done (c\<lparr>ctx_frame := k\<rparr>, after_reads j s, Ok (Msg_Binary data)))"
    using read_message [OF assms(1) g(1), of c u chunks "concat (map (Frame_format t) gs)" s] assms(2) c
    by (auto simp: awaits_def)
  with assms(2) g(2) c(2,3) delivers_drop [of s chunks j] show ?thesis
    by (fastforce simp: awaits_def after_reads_def intro!: exI [of _ gs] exI [of _ "drop j chunks"])
qed

lemma receive_awaited:
  assumes "target_ok t" and "awaits t u r datas s c" and "handed_over pk n (length datas) = (m, st)"
  shows "\<exists>s' c'. ws_receive_loop t u pk \<lparr>ws_socket = s, ws_context = c\<rparr> n acc =
      Some (Done (\<lparr>ws_socket = s', ws_context = c'\<rparr>, n + m, acc @ take m datas, st)) \<and>
    ((\<forall>i < length datas. pk (n + i) = Ok ()) \<longrightarrow> m = length datas \<and> idle c') \<and>
    ((\<exists>i < length datas. pk (n + i) \<noteq> Ok ()) \<longrightarrow> awaits t u r (drop m datas) s' c')"
  using assms(2,3)
proof (induction datas arbitrary: c s n m acc)
  case Nil
  with awaits_Nil [OF Nil.prems(1)] read_blocked [of c s t u] show ?case
    by (subst ws_receive_loop.simps) (simp add: WebSocket_read_def put_back_def io_error_to_read_status_def)
next
  case (Cons data datas)
  obtain s1 c1 where one: "ctx_read t u c s = Some (Done (c1, s1, Ok (Msg_Binary data)))" "awaits t u r datas s1 c1"
    using awaits_Cons [OF assms(1) Cons.prems(1)] by blast
  have turn: "ws_receive_loop t u pk \<lparr>ws_socket = s, ws_context = c\<rparr> n acc =
      (case pk n of
         Inl e \<Rightarrow> Some (Done (\<lparr>ws_socket = s1, ws_context = c1\<rparr>, Suc n, acc @ [data], io_error_to_read_status e))
       | Inr _ \<Rightarrow> ws_receive_loop t u pk \<lparr>ws_socket = s1, ws_context = c1\<rparr> (Suc n) (acc @ [data]))"
    by (subst ws_receive_loop.simps) (simp add: WebSocket_read_def put_back_def one(1))
  show ?case
  proof (cases "pk n")
    case (Inl e)
    with turn Cons.prems(2) one(2) show ?thesis by auto
  next
    case (Inr x)
    then have ok: "pk n = Ok ()" by simp
    with Cons.prems(2) obtain m' where m: "m = Suc m'" "handed_over pk (Suc n) (length datas) = (m', st)"
      by (auto split: prod.splits)
    from Cons.IH [OF one(2) m(2), of "acc @ [data]"] show ?thesis
      by (simp add: turn ok m(1) All_less_Suc2 Ex_less_Suc2)
  qed
qed

section \<open>Sockets that take everything or nothing\<close>

lemma send_takes_all:
  assumes "sending c" and "takes_all s" and "fits c (frame_out c s (message_frame m))" and "is_data m"
  shows "\<exists>s'. ctx_send t c s m = Done (c\<lparr>ctx_frame := (ctx_frame c)\<lparr>out_buffer := []\<rparr>\<rparr>, s', Ok ()) \<and>
    sent_bytes s' = queued (c, s) @ Frame_format t (frame_out c s (message_frame m))"
proof -
  have c: "additional_send c = None" "can_read (ctx_state c)" using assms(1) by (simp_all add: sending_def can_read_def)
  obtain out s1 where b: "buffer_frame t c s (message_frame m) = Done (c\<lparr>ctx_frame := (ctx_frame c)\<lparr>out_buffer := out\<rparr>\<rparr>, s1, Ok ())"
    "takes_all s1" "sent_bytes s1 @ out = queued (c, s) @ Frame_format t (frame_out c s (message_frame m))"
    by (rule buffer_frame_takes_all [OF assms(2,3)]) blast
  let ?c = "c\<lparr>ctx_frame := (ctx_frame c)\<lparr>out_buffer := out\<rparr>\<rparr>"
  obtain s2 where "write_out_buffer (ctx_frame ?c) s1 = Done ((ctx_frame ?c)\<lparr>out_buffer := []\<rparr>, s2, Ok ())" "takes_all s2"
    "sent_bytes s2 = sent_bytes s1 @ out_buffer (ctx_frame ?c)"
    by (rule write_out_takes_all [OF b(2)]) blast
  with b c assms(1,4) show ?thesis
    by (simp add: ctx_send_def ctx_write_def sending_def check_not_terminated_def is_active_def is_data_def message_frame_def
        write_frame_def raw_write_def write_additional_def wbind_def ctx_flush_def ctx_write_out_buffer_def takes_all_flush
        split: Message.splits)
qed

definition blocked :: "wstream \<Rightarrow> bool" where
  "blocked s \<longleftrightarrow> next_writes s = (\<lambda>_ _. Err WouldBlock)"

lemma write_out_blocked:
  assumes "blocked s" and "out_buffer k \<noteq> []"
  shows "write_out_buffer k s = Done (k, s, Err (Io WouldBlock))"
proof -
  have "s\<lparr>next_writes := \<lambda>n. next_writes s (Suc n)\<rparr> = s" using assms(1) by (cases s) (simp add: blocked_def)
  with assms have "stream_write s (out_buffer k) = (s, Err WouldBlock)" by (simp add: stream_write_def blocked_def)
  with assms(2) have "write_out_loop (out_buffer k) s = Done (out_buffer k, s, Err (Io WouldBlock))"
    by (simp add: write_out_loop.simps)
  then show ?thesis by (simp add: write_out_buffer_def)
qed

lemma flush_blocked:
  assumes "sending c" and "blocked s" and "out_buffer (ctx_frame c) \<noteq> []"
  shows "ctx_flush t c s = Done (c, s, Err (Io WouldBlock))"
proof -
  have c: "additional_send c = None" "can_read (ctx_state c)" using assms(1) by (simp_all add: sending_def can_read_def)
  show ?thesis
    by (simp add: ctx_flush_def raw_write_idle [OF c] wbind_def ctx_write_out_buffer_def
        write_out_blocked [OF assms(2,3)])
qed

lemma send_blocked:
  assumes "sending c" and "blocked s" and "fits c (frame_out c s (message_frame m))" and "is_data m"
  shows "\<exists>c' s'. ctx_send t c s m = Done (c', s', Err (Io WouldBlock)) \<and> sending c' \<and> blocked s' \<and>
    out_buffer (ctx_frame c') \<noteq> []"
proof -
  let ?f = "frame_out c s (message_frame m)"
  let ?k = "(ctx_frame c)\<lparr>out_buffer := out_buffer (ctx_frame c) @ Frame_format t ?f\<rparr>"
  let ?c = "c\<lparr>ctx_frame := ?k\<rparr>"
  obtain s1 where s1: "(case ctx_role c of Server \<Rightarrow> (s, message_frame m)
      | Client \<Rightarrow> (case generate_mask s of (s, mk) \<Rightarrow> (s, set_random_mask mk (message_frame m)))) = (s1, ?f)" "blocked s1"
    using assms(2) by (cases "ctx_role c") (auto simp: frame_out_def generate_mask_def blocked_def)
  have k: "out_buffer ?k \<noteq> []" "sending ?c" using Frame_format_nonempty assms(1) by (simp_all add: sending_def)
  have wr: "ctx_send t c s m = wbind (write_frame t c s (message_frame m)) (\<lambda>c s _. ctx_flush t c s)"
    using assms(1,4) by (simp add: ctx_send_def ctx_write_def sending_def check_not_terminated_def is_active_def is_data_def
        message_frame_def split: Message.splits)
  have "buffer_frame t c s (message_frame m) = Done (?c, s1, Err (Io WouldBlock)) \<or>
      buffer_frame t c s (message_frame m) = Done (?c, s1, Ok ())"
    using s1(1) assms(1,3) write_out_blocked [OF s1(2) k(1)]
    by (simp add: buffer_frame_def codec_buffer_frame_def fits_def check_connection_reset_def Let_def)
  moreover have "additional_send ?c = None" "can_read (ctx_state ?c)" using assms(1) by (simp_all add: sending_def can_read_def)
  ultimately have "ctx_send t c s m = Done (?c, s1, Err (Io WouldBlock))"
    using flush_blocked [OF k(2) s1(2), of t] k(1)
    by (auto simp: wr write_frame_def raw_write_def write_additional_def wbind_def)
  with k s1(2) show ?thesis by auto
qed

lemma flush_loop_blocked:
  "ws_flush_loop t w ret = Some r \<Longrightarrow> ret = Err (Io WouldBlock) \<longrightarrow> sending (ws_context w) \<longrightarrow> blocked (ws_socket w) \<longrightarrow>
   out_buffer (ctx_frame (ws_context w)) = []"
proof (induction rule: ws_flush_loop.raw_induct [rotated, consumes 1, case_names turn])
  case (turn loop t w ret r)
  show ?case
  proof (intro impI, rule ccontr)
    assume *: "ret = Err (Io WouldBlock)" "sending (ws_context w)" "blocked (ws_socket w)"
      "out_buffer (ctx_frame (ws_context w)) \<noteq> []"
    then have "WebSocket_flush t w = Done (w, ret)" by (simp add: WebSocket_flush_def put_back_def flush_blocked)
    with turn(2) * have "loop t w ret = Some r" by simp
    from turn(1) [OF this] * show False by simp
  qed
qed

section \<open>Sending checks no size\<close>

text \<open>No operation that writes answers a capacity error: the limit on messages is one of the reader.\<close>

definition no_capacity :: "'a step \<Rightarrow> bool" where
  "no_capacity r \<longleftrightarrow> (\<forall>c s x. r \<noteq> Done (c, s, Err (Capacity x)))"

lemma no_capacity_Done [simp]: "no_capacity (Done (c, s, ret)) \<longleftrightarrow> (\<forall>x. ret \<noteq> Err (Capacity x))"
  by (auto simp: no_capacity_def)

lemma no_capacity_wbind: "no_capacity r \<Longrightarrow> (\<And>c s x. no_capacity (f c s x)) \<Longrightarrow> no_capacity (wbind r f)"
  by (auto simp: no_capacity_def wbind_def xbind_def split: exec.splits sum.splits)

lemma write_out_loop_no_capacity: "write_out_loop out s \<noteq> Done (out', s', Err (Capacity x))"
proof (induction out s rule: write_out_loop.induct)
  case (1 out s)
  then show ?case by (subst write_out_loop.simps) (auto split: prod.splits sum.splits)
qed

lemma ctx_write_out_buffer_no_capacity: "no_capacity (ctx_write_out_buffer c s)"
  using write_out_loop_no_capacity
  by (auto simp: no_capacity_def ctx_write_out_buffer_def write_out_buffer_def xbind_def split: exec.splits)

lemma buffer_frame_no_capacity: "no_capacity (buffer_frame t c s f)"
  using write_out_loop_no_capacity
  by (fastforce simp: no_capacity_def buffer_frame_def codec_buffer_frame_def write_out_buffer_def xbind_def Let_def
      check_connection_reset_def split: exec.splits prod.splits sum.splits Error.splits if_splits)

lemma write_additional_no_capacity: "no_capacity (write_additional t c s)"
  using buffer_frame_no_capacity
  by (fastforce simp: no_capacity_def write_additional_def xbind_def
      split: option.splits exec.splits sum.splits Error.splits Message.splits)

lemma raw_write_no_capacity: "no_capacity (raw_write t c s data)"
  unfolding raw_write_def
  by (intro no_capacity_wbind)
    (auto simp: buffer_frame_no_capacity write_additional_no_capacity ctx_write_out_buffer_no_capacity
      intro!: no_capacity_wbind split: option.splits)

lemma ctx_flush_no_capacity: "no_capacity (ctx_flush t c s)"
  unfolding ctx_flush_def
  by (intro no_capacity_wbind raw_write_no_capacity ctx_write_out_buffer_no_capacity) (auto split: prod.splits sum.splits)

lemma write_frame_no_capacity: "no_capacity (write_frame t c s f)"
  unfolding write_frame_def
  by (intro no_capacity_wbind raw_write_no_capacity) (simp add: ctx_flush_no_capacity)

lemma ctx_send_no_capacity: "no_capacity (ctx_send t c s m)"
  unfolding ctx_send_def
  by (intro no_capacity_wbind ctx_flush_no_capacity)
    (auto simp: ctx_write_def check_not_terminated_def ctx_close_def write_frame_no_capacity ctx_flush_no_capacity
      raw_write_no_capacity intro!: no_capacity_wbind split: sum.splits Message.splits)

lemma flush_loop_no_capacity:
  "ws_flush_loop t w ret = Some r \<Longrightarrow> (\<forall>x. ret \<noteq> Err (Capacity x)) \<longrightarrow> (\<forall>w'. r \<noteq> Done (w', MaxPacketSizeExceeded))"
proof (induction rule: ws_flush_loop.raw_induct [rotated, consumes 1, case_names turn])
  case (turn loop t w ret r)
  have fl: "WebSocket_flush t w = Done (w1, ret1) \<Longrightarrow> ret1 \<noteq> Err (Capacity x)" for w1 ret1 x
    using ctx_flush_no_capacity [of t "ws_context w" "ws_socket w"]
    by (auto simp: no_capacity_def WebSocket_flush_def put_back_def xbind_def split: exec.splits)
  show ?case
  proof (cases "ret = Err (Io WouldBlock)")
    case True
    show ?thesis
    proof (cases "WebSocket_flush t w")
      case Panic
      with turn(2) True show ?thesis by auto
    next
      case (Done y)
      obtain w1 ret1 where y: "y = (w1, ret1)" by force
      with turn(2) True Done have "loop t w1 ret1 = Some r" by simp
      from turn(1) [OF this] fl [of w1 ret1] Done y show ?thesis by simp
    qed
  next
    case False
    with turn(2) show ?thesis by (cases ret) (auto split: Error.splits if_splits)
  qed
qed

lemma ws_send_no_limit: "ws_send io r data \<noteq> Some (Done (io', r', MaxPacketSizeExceeded))"
proof (cases "ws_state r")
  case (State_WebSocket a c)
  have "no_capacity (ctx_send (ws_target io) c (sock io) (Msg_Binary data))" by (rule ctx_send_no_capacity)
  with State_WebSocket show ?thesis
    by (auto simp: no_capacity_def ws_send_def WebSocket_send_def put_back_def xbind_def obind_eq_Done
        split: exec.splits prod.splits dest!: flush_loop_no_capacity)
qed (simp_all add: ws_send_def)

section \<open>Properties\<close>

text \<open>
  C6: Data arrives unchanged, whole and in order over an open websocket of the transport, whatever \<open>peek\<close>
  answers: of what one side sends with every \<open>send\<close> answered \<open>Sent\<close>, however often it had to flush and however
  the bytes were cut on the way, one call of \<open>receive\<close> on the other side hands over the messages up to the first
  refused \<open>peek\<close>: all of them when none is refused, but only the first one when the socket is drained
  after it. What it has not handed over is not lost, but no event of the socket announces it: the next call of
  \<open>receive\<close> goes on with exactly the rest.
\<close>
theorem ws_data_arrives:
  assumes "target_ok (ws_target io)" and "ws_state r = State_WebSocket a c" and "sending c"
    and "out_buffer (ctx_frame c) = []" and "write_contract (sock io)"
    and "ws_send_all io r datas = Some (Done (io', r', replicate (length datas) Sent))"
    and "ws_state q = State_WebSocket b d" and "idle d" and "ctx_role d \<noteq> ctx_role c"
    and "\<forall>data \<in> set datas. admits (utf8 jo) (ctx_config d) (Msg_Binary data)"
    and "delivers (sock jo) chunks" and "next_reads (sock jo) (length chunks) = Err WouldBlock"
    and "sent_bytes (sock io') = sent_bytes (sock io) @ concat chunks"
    and "ws_target jo = ws_target io" and "handed_over (peeks jo) 0 (length datas) = (m, st)"
  shows "\<exists>jo' q' d'. ws_receive jo q = Some (Done (jo', q', take m datas, st)) \<and> ws_state q' = State_WebSocket b d' \<and>
    ((\<forall>i < length datas. peeks jo i = Ok ()) \<longrightarrow> m = length datas \<and> idle d') \<and>
    ((\<exists>i < length datas. peeks jo i \<noteq> Ok ()) \<longrightarrow>
       (\<forall>pk m' st'. handed_over pk 0 (length datas - m) = (m', st') \<longrightarrow>
          (\<exists>jo'' q''. ws_receive (jo'\<lparr>peeks := pk\<rparr>) q' = Some (Done (jo'', q'', take m' (drop m datas), st')))))"
proof -
  from ws_send_all_wire [OF assms(2-6)] assms(13) obtain gs where
    "list_all2 (carried (ctx_role c)) (map (\<lambda>x. message_frame (Msg_Binary x)) datas) gs"
    "concat chunks = concat (map (Frame_format (ws_target io)) gs)" by auto
  with assms(8-12) have "awaits (ws_target io) (utf8 jo) (ctx_role c) datas (sock jo) d"
    by (auto simp: awaits_def idle_def)
  from receive_awaited [OF assms(1) this assms(15)] obtain s' d' where first:
    "ws_receive_loop (ws_target io) (utf8 jo) (peeks jo) \<lparr>ws_socket = sock jo, ws_context = d\<rparr> 0 [] =
      Some (Done (\<lparr>ws_socket = s', ws_context = d'\<rparr>, m, take m datas, st))"
    and all: "(\<forall>i < length datas. peeks jo i = Ok ()) \<longrightarrow> m = length datas \<and> idle d'"
    and rest: "(\<exists>i < length datas. peeks jo i \<noteq> Ok ()) \<longrightarrow>
      awaits (ws_target io) (utf8 jo) (ctx_role c) (drop m datas) s' d'"
    by force
  let ?q = "q\<lparr>ws_state := State_WebSocket b d'\<rparr>" and ?jo = "jo\<lparr>sock := s', peeks := \<lambda>k. peeks jo (m + k)\<rparr>"
  have "ws_receive jo q = Some (Done (?jo, ?q, take m datas, st))"
    using first assms(7,14) by (simp add: ws_receive_def)
  moreover have "\<exists>jo'' q''. ws_receive (?jo\<lparr>peeks := pk\<rparr>) ?q = Some (Done (jo'', q'', take m' (drop m datas), st'))"
    if "\<exists>i < length datas. peeks jo i \<noteq> Ok ()" "handed_over pk 0 (length datas - m) = (m', st')" for pk m' st'
    using receive_awaited [OF assms(1) rest [rule_format, OF that(1)], of pk 0 m' st' "[]"] that(2) assms(14)
    by (auto simp: ws_receive_def)
  ultimately show ?thesis using all by (intro exI [of _ ?jo] exI [of _ ?q] exI [of _ d']) simp
qed

definition open_remote :: "Role \<Rightarrow> WsRemote" where
  "open_remote role = \<lparr>ws_state = State_WebSocket 10 (new_context role), ws_keepalive_opt = None\<rparr>"

lemma wsio_demo_simps:
  "sock wsio_demo = sample_stream [[71, 69, 84]]" "ws_target wsio_demo = sample_target" "utf8 wsio_demo = ascii_utf8"
  "peeks wsio_demo = (\<lambda>_. Ok ())"
  by (simp_all add: wsio_demo_def os.defs wsio.defs)

lemma demo_ws_send:
  "\<exists>io' r'. ws_send_all (wsio_demo\<lparr>sock := sample_stream []\<rparr>) (open_remote Client) [[1, 2, 3], [9]] =
     Some (Done (io', r', [Sent, Sent])) \<and> sent_bytes (sock io') \<noteq> []"
  by (simp add: ws_send_def open_remote_def wsio_demo_simps WebSocket_send_def put_back_def ws_flush_loop.simps
      ctx_send_def ctx_write_def write_frame_def raw_write_def write_additional_def buffer_frame_def
      codec_buffer_frame_def new_context_def wbind_def check_not_terminated_def is_active_def Frame_message_def generate_mask_def
      Frame_len_def header_len_def usize_MAX_def for_length_def extra_bytes_def length_Frame_format [OF target_ok_sample]
      set_random_mask_def header_set_random_mask_def check_connection_reset_def FrameHeader_default_def
      ctx_flush_def ctx_write_out_buffer_def write_out_buffer_def write_out_loop.simps stream_flush_def stream_write_def sample_stream_def
      can_read_def Frame_format_nonempty)

lemma handed_over_demo:
  "handed_over (\<lambda>n. if n = 0 then Err WouldBlock else Ok ()) 0 2 = (1, WaitNextEvent)"
  "handed_over (\<lambda>n. Ok ()) 0 2 = (2, WaitNextEvent)"
  "handed_over (\<lambda>n. Ok ()) 0 1 = (1, WaitNextEvent)"
  by (simp_all add: numeral_2_eq_2 io_error_to_read_status_def)

theorem ws_data_arrives_witness:
  "\<exists>io' r' jo' q' jo'' q'' jo3 q3. ws_send_all (wsio_demo\<lparr>sock := sample_stream []\<rparr>) (open_remote Client) [[1, 2, 3], [9]] =
      Some (Done (io', r', [Sent, Sent])) \<and>
    ws_receive (wsio_demo\<lparr>sock := sample_stream [sent_bytes (sock io')], peeks := \<lambda>n. if n = 0 then Err WouldBlock else Ok ()\<rparr>)
      (open_remote Server) = Some (Done (jo', q', [[1, 2, 3]], WaitNextEvent)) \<and>
    ws_receive (jo'\<lparr>peeks := \<lambda>_. Ok ()\<rparr>) q' = Some (Done (jo'', q'', [[9]], WaitNextEvent)) \<and>
    ws_receive (wsio_demo\<lparr>sock := sample_stream [sent_bytes (sock io')]\<rparr>) (open_remote Server) =
      Some (Done (jo3, q3, [[1, 2, 3], [9]], WaitNextEvent))"
proof -
  let ?io = "wsio_demo\<lparr>sock := sample_stream []\<rparr>"
  obtain io' r' where sent: "ws_send_all ?io (open_remote Client) [[1, 2, 3], [9]] = Some (Done (io', r', [Sent, Sent]))"
    "sent_bytes (sock io') \<noteq> []" using demo_ws_send by blast
  let ?jo = "wsio_demo\<lparr>sock := sample_stream [sent_bytes (sock io')]\<rparr>"
  have all: "ws_send_all ?io (open_remote Client) [[1, 2, 3], [9]] =
      Some (Done (io', r', replicate (length [[1, 2, 3], [9 :: u8]]) Sent))" using sent(1) by simp
  have hyps: "target_ok (ws_target ?io)" "ws_state (open_remote Client) = State_WebSocket 10 (new_context Client)"
    "sending (new_context Client)" "out_buffer (ctx_frame (new_context Client)) = []" "write_contract (sock ?io)"
    "ws_state (open_remote Server) = State_WebSocket 10 (new_context Server)" "idle (new_context Server)"
    "ctx_role (new_context Server) \<noteq> ctx_role (new_context Client)"
    by (simp_all add: wsio_demo_simps target_ok_sample open_remote_def new_context_idle sample_stream_ok,
        simp_all add: new_context_def)
  have at: "\<forall>data \<in> set [[1, 2, 3], [9]]. admits (utf8 (?jo\<lparr>peeks := pk\<rparr>)) (ctx_config (new_context Server)) (Msg_Binary data)"
    "delivers (sock (?jo\<lparr>peeks := pk\<rparr>)) [sent_bytes (sock io')]"
    "next_reads (sock (?jo\<lparr>peeks := pk\<rparr>)) (length [sent_bytes (sock io')]) = Err WouldBlock"
    "sent_bytes (sock io') = sent_bytes (sock ?io) @ concat [sent_bytes (sock io')]"
    "ws_target (?jo\<lparr>peeks := pk\<rparr>) = ws_target ?io" for pk
    using sent(2) by (simp_all add: wsio_demo_simps sample_stream_ok admits_def part_ok_def message_limit_def,
        simp_all add: new_context_def WebSocketConfig_default_def sample_stream_def)
  let ?pk = "\<lambda>n. if n = 0 then Err WouldBlock else Ok ()"
  note arrives = ws_data_arrives [OF hyps(1-5) all hyps(6-8) at]
  have first: "handed_over (peeks (?jo\<lparr>peeks := ?pk\<rparr>)) 0 (length [[1, 2, 3], [9 :: u8]]) = (1, WaitNextEvent)"
    and full: "handed_over (peeks (?jo\<lparr>peeks := \<lambda>_. Ok ()\<rparr>)) 0 (length [[1, 2, 3], [9 :: u8]]) = (2, WaitNextEvent)"
    by (simp_all add: io_error_to_read_status_def)
  have same: "?jo\<lparr>peeks := \<lambda>_. Ok ()\<rparr> = ?jo" by (simp add: wsio_demo_def os.defs wsio.defs)
  from arrives [OF first] obtain jo' q' where
    "ws_receive (?jo\<lparr>peeks := ?pk\<rparr>) (open_remote Server) = Some (Done (jo', q', [[1, 2, 3]], WaitNextEvent))"
    and rest: "(\<exists>i < length [[1, 2, 3], [9 :: u8]]. peeks (?jo\<lparr>peeks := ?pk\<rparr>) i \<noteq> Ok ()) \<longrightarrow>
      (\<forall>pk m' st'. handed_over pk 0 (length [[1, 2, 3], [9 :: u8]] - 1) = (m', st') \<longrightarrow>
        (\<exists>jo'' q''. ws_receive (jo'\<lparr>peeks := pk\<rparr>) q' = Some (Done (jo'', q'', take m' (drop 1 [[1, 2, 3], [9]]), st'))))"
    by auto
  moreover have "\<exists>i < length [[1, 2, 3], [9 :: u8]]. peeks (?jo\<lparr>peeks := ?pk\<rparr>) i \<noteq> Ok ()" by (intro exI [of _ 0]) simp
  note rest [rule_format, OF this, of "\<lambda>_. Ok ()" 1 WaitNextEvent]
  then obtain jo'' q'' where "ws_receive (jo'\<lparr>peeks := \<lambda>_. Ok ()\<rparr>) q' = Some (Done (jo'', q'', [[9]], WaitNextEvent))"
    using handed_over_demo(3) by auto
  moreover from arrives [OF full] same obtain jo3 q3 where
    "ws_receive ?jo (open_remote Server) = Some (Done (jo3, q3, [[1, 2, 3], [9]], WaitNextEvent))" by auto
  ultimately show ?thesis using sent(1) by (simp del: ws_send_all.simps)
qed

text \<open>
  C29: \<open>send\<close> on an open websocket with room in its buffer: a socket that takes everything has the whole
  frame when it answers \<open>Sent\<close>; with a socket that refuses every write, the call never returns, and it holds the
  lock of the resource meanwhile. Before the handshake is over it panics. The size of the message is not checked against
  \<open>max_message_size\<close>, as the documentation of \<open>write\<close> and of the capacity error says it is: no \<open>send\<close>, of whatever
  size, answers \<open>MaxPacketSizeExceeded\<close>.
\<close>
theorem ws_send_outcome:
  assumes "ws_state r = State_WebSocket a c" and "sending c"
    and "fits c (frame_out c (sock io) (message_frame (Msg_Binary data)))"
  shows "(takes_all (sock io) \<longrightarrow> (\<exists>io' r'. ws_send io r data = Some (Done (io', r', Sent)) \<and>
      sent_bytes (sock io') = queued (c, sock io) @
        Frame_format (ws_target io) (frame_out c (sock io) (message_frame (Msg_Binary data))))) \<and>
    (next_writes (sock io) = (\<lambda>_ _. Err WouldBlock) \<longrightarrow> ws_send io r data = None) \<and>
    ws_send io (r\<lparr>ws_state := State_Handshake p\<rparr>) data = Some Panic \<and>
    (\<forall>io r data io' r'. ws_send io r data \<noteq> Some (Done (io', r', MaxPacketSizeExceeded)))"
proof (intro conjI impI)
  let ?m = "Msg_Binary data"
  assume "takes_all (sock io)"
  from send_takes_all [OF assms(2) this assms(3), of "ws_target io"] obtain s' where
    "ctx_send (ws_target io) c (sock io) ?m = Done (c\<lparr>ctx_frame := (ctx_frame c)\<lparr>out_buffer := []\<rparr>\<rparr>, s', Ok ())"
    "sent_bytes s' = queued (c, sock io) @ Frame_format (ws_target io) (frame_out c (sock io) (message_frame ?m))"
    by (auto simp: is_data_def)
  with assms(1) show "\<exists>io' r'. ws_send io r data = Some (Done (io', r', Sent)) \<and>
      sent_bytes (sock io') = queued (c, sock io) @ Frame_format (ws_target io) (frame_out c (sock io) (message_frame ?m))"
    by (simp add: ws_send_def WebSocket_send_def put_back_def ws_flush_loop.simps)
next
  let ?m = "Msg_Binary data"
  assume "next_writes (sock io) = (\<lambda>_ _. Err WouldBlock)"
  then have "blocked (sock io)" by (simp add: blocked_def)
  from send_blocked [OF assms(2) this assms(3), of "ws_target io"] obtain c' s' where
    send: "ctx_send (ws_target io) c (sock io) ?m = Done (c', s', Err (Io WouldBlock))"
    and "sending c'" "blocked s'" "out_buffer (ctx_frame c') \<noteq> []" by (auto simp: is_data_def)
  then have "ws_flush_loop (ws_target io) \<lparr>ws_socket = s', ws_context = c'\<rparr> (Err (Io WouldBlock)) = None"
    using flush_loop_blocked [of "ws_target io" "\<lparr>ws_socket = s', ws_context = c'\<rparr>" "Err (Io WouldBlock)"]
    by (cases "ws_flush_loop (ws_target io) \<lparr>ws_socket = s', ws_context = c'\<rparr> (Err (Io WouldBlock))") auto
  with assms(1) send show "ws_send io r data = None" by (simp add: ws_send_def WebSocket_send_def put_back_def)
qed (simp_all add: ws_send_def [of _ "r\<lparr>ws_state := _\<rparr>"] ws_send_no_limit)

theorem ws_send_outcome_witness:
  "ws_send (wsio_demo\<lparr>sock := (sample_stream [])\<lparr>next_writes := \<lambda>_ _. Err WouldBlock\<rparr>\<rparr>) (open_remote Server) [1] = None"
proof -
  let ?io = "wsio_demo\<lparr>sock := (sample_stream [])\<lparr>next_writes := \<lambda>_ _. Err WouldBlock\<rparr>\<rparr>"
  have "fits (new_context Server) (frame_out (new_context Server) (sock ?io) (message_frame (Msg_Binary [1])))"
    by (simp add: fits_def frame_out_def new_context_def message_frame_def Frame_message_def Frame_len_def header_len_def
        for_length_def extra_bytes_def FrameHeader_default_def usize_MAX_def)
  with ws_send_outcome [of "open_remote Server" 10 "new_context Server" ?io "[1]" "Pending_Accept 10"] new_context_idle(2)
  show ?thesis by (simp add: open_remote_def)
qed

end
