(* ===== verification/Ws_Debug.thy ===== *)
theory Ws_Debug
  imports Ws_Handshake
begin

text \<open>
  The hand-written \<open>Debug\<close> and \<open>Display\<close> implementations of the websocket module (\<open>error.rs\<close>, \<open>protocol/message.rs\<close>,
  \<open>protocol/frame/mod.rs\<close>, \<open>frame.rs\<close> and \<open>coding.rs\<close>, \<open>handshake/machine.rs\<close>, \<open>handshake/mod.rs\<close>), as the text they write. Three of
  them format \<open>other\<close>, the value itself, in their last arm; they are partial functions, \<open>None\<close> when they
  do not return.
\<close>

partial_function (option) Error_fmt :: "Error \<Rightarrow> string option" where
  "Error_fmt e =
     Option.bind (case e of Http _ \<Rightarrow> Some ''Http'' | other \<Rightarrow> Error_fmt e)
       (\<lambda>text. Some (''Error::'' @ text))"

partial_function (option) Message_fmt :: "Message \<Rightarrow> string option" where
  "Message_fmt m =
     Option.bind
       (case m of
          Msg_Binary buffer \<Rightarrow> Some (''Binary:'' @ show_nat (length buffer))
        | Msg_Ping buffer \<Rightarrow> Some (''Ping:'' @ show_nat (length buffer))
        | Msg_Pong buffer \<Rightarrow> Some (''Pong:'' @ show_nat (length buffer))
        | other \<Rightarrow> Message_fmt m)
       (\<lambda>text. Some (''Message::'' @ text))"

partial_function (option) IncompleteMessageCollector_fmt :: "IncompleteMessage \<Rightarrow> string option" where
  "IncompleteMessageCollector_fmt c =
     Option.bind
       (case c of
          Collect_Binary buffer \<Rightarrow> Some (''Binary:'' @ show_nat (length buffer))
        | other \<Rightarrow> IncompleteMessageCollector_fmt c)
       (\<lambda>text. Some (''IncompleteMessageCollector::'' @ text))"

definition Frame_fmt :: "Frame \<Rightarrow> string" where
  "Frame_fmt f = ''Frame::'' @ show_nat (length (payload f))"

definition StageResult_fmt :: "('o, 's) StageResult \<Rightarrow> string" where
  "StageResult_fmt st =
     ''StageResult::'' @
     (case st of
        DoneReading _ _ tail \<Rightarrow> ''DoneReading::(tail='' @ show_nat (length tail) @ '')''
      | DoneWriting _ \<Rightarrow> ''DoneWriting'')"

definition HandshakeState_fmt :: "HandshakeState \<Rightarrow> string" where
  "HandshakeState_fmt st =
     ''HandshakeState::'' @
     (case st of
        Reading buffer _ \<Rightarrow> ''Reading::('' @ show_nat (length buffer) @ '')''
      | Writing buffer \<Rightarrow> ''Writing::('' @ show_nat (length buffer) @ '')'')"

definition HandshakeError_fmt :: "('r, 's) HandshakeError \<Rightarrow> string option" where
  "HandshakeError_fmt e =
     (case e of
        HandshakeInterrupted _ \<Rightarrow> Some ''HandshakeError::Interrupted(...)''
      | Failure e \<Rightarrow> Option.bind (Error_fmt e) (\<lambda>t. Some (''HandshakeError::Failure('' @ t @ '')'')))"

definition FrameCodec_fmt :: "FrameCodec \<Rightarrow> string" where
  "FrameCodec_fmt codec =
     ''FrameCodec::(out_buffer: '' @ show_nat (out_buffer_write_len codec) @ ''/'' @ show_nat (max_out_buffer_len codec) @ '')''"

section \<open>Display\<close>

definition Data_display :: "Data \<Rightarrow> string" where
  "Data_display d =
     (case d of
        Data_Continue \<Rightarrow> ''CONTINUE''
      | Data_Text \<Rightarrow> ''TEXT''
      | Data_Binary \<Rightarrow> ''BINARY''
      | Data_Reserved x \<Rightarrow> ''RESERVED_DATA_'' @ show_nat (unat x))"

definition Control_display :: "Control \<Rightarrow> string" where
  "Control_display c =
     (case c of
        Ctl_Close \<Rightarrow> ''CLOSE''
      | Ctl_Ping \<Rightarrow> ''PING''
      | Ctl_Pong \<Rightarrow> ''PONG''
      | Ctl_Reserved x \<Rightarrow> ''RESERVED_CONTROL_'' @ show_nat (unat x))"

definition OpCode_display :: "OpCode \<Rightarrow> string" where
  "OpCode_display opc = (case opc of OpData d \<Rightarrow> Data_display d | OpControl c \<Rightarrow> Control_display c)"

definition CloseCode_display :: "CloseCode \<Rightarrow> string" where
  "CloseCode_display cc = show_nat (unat (u16_from_CloseCode cc))"

text \<open>A string is the list of its bytes, so taking bytes for a string changes nothing but the type.\<close>

definition from_utf8_unchecked :: "bytes \<Rightarrow> string" where
  "from_utf8_unchecked bs = map (\<lambda>b. char_of (unat b)) bs"

definition CloseFrame_display :: "CloseFrame \<Rightarrow> string" where
  "CloseFrame_display f = from_utf8_unchecked (reason f) @ '' ('' @ CloseCode_display (code f) @ '')''"

definition CloseFrame_fmt :: "CloseFrame \<Rightarrow> string" where
  "CloseFrame_fmt f =
     ''CloseFrame::'' @ from_utf8_unchecked (reason f) @ '' ('' @ CloseCode_display (code f) @ '')''"

definition digit_value :: "char \<Rightarrow> nat" where
  "digit_value c = of_char c - 48"

lemma show_nat_value: "foldl (\<lambda>v c. 10 * v + digit_value c) 0 (show_nat n) = n"
proof (induction n rule: show_nat.induct)
  case (1 n)
  then show ?case by (subst show_nat.simps) (auto simp: digit_value_def of_char_of)
qed

lemma show_nat_inject [simp]: "show_nat m = show_nat n \<longleftrightarrow> m = n"
  by (metis show_nat_value)

lemma unat_eq_iff: "unat a = unat b \<longleftrightarrow> a = b"
  using unsigned_word_eqI by blast

lemma Data_display_inject: "Data_display d = Data_display d' \<longleftrightarrow> d = d'"
  by (cases d; cases d') (simp_all add: Data_display_def unat_eq_iff)

lemma Control_display_inject: "Control_display c = Control_display c' \<longleftrightarrow> c = c'"
  by (cases c; cases c') (simp_all add: Control_display_def unat_eq_iff)

text \<open>The text of an op code tells the op codes apart; that of a close code tells exactly the numbers apart.\<close>

lemma OpCode_display_inject: "OpCode_display c = OpCode_display c' \<longleftrightarrow> c = c'"
proof -
  have "Data_display d \<noteq> Control_display k" for d k
    by (cases d; cases k) (simp_all add: Data_display_def Control_display_def)
  from this this [symmetric] show ?thesis
    by (cases c; cases c') (simp_all add: OpCode_display_def Data_display_inject Control_display_inject)
qed

lemma CloseCode_display_inject:
  "CloseCode_display k = CloseCode_display k' \<longleftrightarrow> u16_from_CloseCode k = u16_from_CloseCode k'"
  by (simp add: CloseCode_display_def unat_eq_iff)

section \<open>The arm that formats itself\<close>

fun is_http :: "Error \<Rightarrow> bool" where
  "is_http (Http _) = True"
| "is_http _ = False"

lemma Error_fmt_returns: "Error_fmt e = Some t \<Longrightarrow> is_http e"
proof (induction rule: Error_fmt.raw_induct [rotated, consumes 1, case_names turn])
  case (turn f e t)
  then show ?case by (cases e) (fastforce simp: bind_eq_Some_conv)+
qed

fun is_buffer :: "Message \<Rightarrow> bool" where
  "is_buffer (Msg_Binary _) = True"
| "is_buffer (Msg_Ping _) = True"
| "is_buffer (Msg_Pong _) = True"
| "is_buffer _ = False"

lemma Message_fmt_returns: "Message_fmt m = Some t \<Longrightarrow> is_buffer m"
proof (induction rule: Message_fmt.raw_induct [rotated, consumes 1, case_names turn])
  case (turn f m t)
  then show ?case by (cases m) (fastforce simp: bind_eq_Some_conv)+
qed

fun is_binary :: "IncompleteMessage \<Rightarrow> bool" where
  "is_binary (Collect_Binary _) = True"
| "is_binary _ = False"

lemma Collector_fmt_returns: "IncompleteMessageCollector_fmt c = Some t \<Longrightarrow> is_binary c"
proof (induction rule: IncompleteMessageCollector_fmt.raw_induct [rotated, consumes 1, case_names turn])
  case (turn f c t)
  then show ?case by (cases c) (fastforce simp: bind_eq_Some_conv)+
qed

lemma Error_fmt_http: "Error_fmt (Http r) = Some ''Error::Http''"
  by (subst Error_fmt.simps) simp

lemma Message_fmt_buffer:
  "Message_fmt (Msg_Binary bs) = Some (''Message::Binary:'' @ show_nat (length bs))"
  "Message_fmt (Msg_Ping bs) = Some (''Message::Ping:'' @ show_nat (length bs))"
  "Message_fmt (Msg_Pong bs) = Some (''Message::Pong:'' @ show_nat (length bs))"
  by (subst Message_fmt.simps; simp)+

lemma Collector_fmt_binary:
  "IncompleteMessageCollector_fmt (Collect_Binary bs) =
     Some (''IncompleteMessageCollector::Binary:'' @ show_nat (length bs))"
  by (subst IncompleteMessageCollector_fmt.simps) simp

text \<open>
  C38: Formatting for \<open>Debug\<close> returns for an error exactly if it is an HTTP response, for a message exactly if
  it is binary, a ping or a pong, and for a message in the making exactly if it is binary; in every other
  case the implementation calls itself on the same value. So does, through it, the formatting of
  a failed handshake.
\<close>
theorem debug_fmt_recursion:
  "(\<exists>t. Error_fmt e = Some t) = is_http e \<and> (\<exists>t. Message_fmt m = Some t) = is_buffer m \<and>
   (\<exists>t. IncompleteMessageCollector_fmt c = Some t) = is_binary c \<and>
   (\<exists>t. HandshakeError_fmt (Failure e :: ('r, 's) HandshakeError) = Some t) = is_http e"
proof (intro conjI)
  show http: "(\<exists>t. Error_fmt e = Some t) = is_http e"
    using Error_fmt_returns Error_fmt_http by (cases e) fastforce+
  show "(\<exists>t. Message_fmt m = Some t) = is_buffer m"
    using Message_fmt_returns Message_fmt_buffer by (cases m) fastforce+
  show "(\<exists>t. IncompleteMessageCollector_fmt c = Some t) = is_binary c"
    using Collector_fmt_returns Collector_fmt_binary by (cases c) fastforce+
  from http show "(\<exists>t. HandshakeError_fmt (Failure e :: ('r, 's) HandshakeError) = Some t) = is_http e"
    by (auto simp: HandshakeError_fmt_def bind_eq_Some_conv)
qed

end
