(* ===== verification/Spec2Isabelle.thy ===== *)
theory Spec2Isabelle
  imports Encoding Node_Connect Node_Task Udp Ws_Data Ws_Debug
begin

text \<open>
  A verification of \<^emph>\<open>message-io\<close>, an event-driven network library (Rust, sources under \<open>src/src\<close>).

  \<^bold>\<open>The program.\<close> A \<open>NodeHandler\<close> (\<open>node.rs\<close>) is the user's side: connect, listen, send, close and so on
  put commands into the queue of a worker thread and wake its poll. There is one master worker for
  the commands that create connections and listeners, and a number of workers among which the
  connections are divided by their resource id. A worker (\<open>network.rs\<close>) waits for poll events and
  for its waker; a waker event drains the command queue, any other event goes to the event processor
  of the transport that the resource id names (\<open>network/loader.rs\<close>). An event processor
  (\<open>adapters/tcp/tcp_driver.rs\<close>, \<open>ssl/ssl_driver.rs\<close>, \<open>ws/ws_driver.rs\<close>) keeps the tables of the live remotes and listeners
  (\<open>network/registry.rs\<close>), calls the adapter of its transport to accept, connect, read and write, and
  emits the events \<open>Connected\<close>, \<open>Accepted\<close>, \<open>Message\<close> and \<open>Disconnected\<close>. Beside the node stand the framing of
  messages over a byte stream (\<open>util/encoding.rs\<close>) and the websocket transport (\<open>adapters/ws\<close>): a protocol machine over a byte stream,
  the HTTP upgrade that opens it, and the adapter that puts both under an event processor.

  \<^bold>\<open>Conventions.\<close> A Rust \<open>Result\<close> is a sum, with \<open>Ok\<close> for its right and \<open>Err\<close> for its left side; a panic is
  the value \<open>Panic\<close> of the type \<open>exec\<close>; a loop that need not end is a \<open>partial_function\<close> into \<open>option\<close>, and
  then a theorem says when it returns. Machine integers whose width matters are words. What the code
  asks of the operating system or of another crate is answered by the fields of a record that the
  operation takes as an argument, one answer per call where the answers of successive calls may
  differ; no property of the answers is assumed unless a theorem names it. Every operation returns
  the state it leaves, also when it fails.

  \<^bold>\<open>The theories,\<close> each with the sources it models and what its lemmas show.
  \<^item> \<open>Prelude\<close>: results, panics, lemmas on words and prefixes.
  \<^item> \<open>Resource_Id\<close> (\<open>network/resource_id.rs\<close>, \<open>network/poll.rs\<close>): the bit layout of ids, the generator, poll
    tokens; ids are distinct while the 48-bit counter lasts, and fields and tokens are read back.
  \<^item> \<open>Encoding\<close> (\<open>util/encoding.rs\<close>): the size prefix and the incremental decoder. The varint crate is the
    locale \<open>varint_codec\<close>, interpreted on the LEB128 coding it documents; decoding any chunks gives
    back exactly the messages that are complete.
  \<^item> \<open>Net_Types\<close> (\<open>network/remote_addr.rs\<close>, \<open>endpoint.rs\<close>, \<open>transport.rs\<close>, \<open>driver.rs\<close>, \<open>net_event.rs\<close>), \<open>Registry\<close>
    (\<open>network/registry.rs\<close>, locale \<open>resource_table\<close>): the data of the network layer and the tables of live
    resources, where dropping the last reference of a resource is a step of its own.
  \<^item> \<open>Driver\<close> (\<open>tcp_driver.rs\<close>, which \<open>ssl_driver.rs\<close> and \<open>ws_driver.rs\<close> repeat over other resources, and
    \<open>waker_command.rs\<close>): the handlers of the event processor, written over the record \<open>adapter\<close> of the
    traits \<open>Remote\<close> and \<open>Local\<close>. A handler returns its effects in order. The boxes that travel with a command
    are a datatype and the unchecked downcast (\<open>util/unsafe_any.rs\<close>) is an operation on it; a cast to another
    type than the one in the box, undefined in Rust, is \<open>Panic\<close>.
  \<^item> \<open>Lifecycle\<close>: the step relation of an event processor and the locale \<open>stream_adapter\<close> of what it needs of
    a transport. The abstract specification is the life of one connection, a machine with the phases pending, live and gone;
    in every run the events about an id are a path of it and the poll watches exactly the tables.
  \<^item> \<open>Tcp\<close> (\<open>adapters/tcp\<close>) and \<open>Ssl\<close> (\<open>adapters/ssl\<close>): the two transports, their loops, and the
    interpretations of \<open>stream_adapter\<close>.
  \<^item> \<open>Udp\<close> (\<open>adapters/udp.rs\<close>): the UDP transport, which the build leaves out, by itself. The locale
    \<open>datagram_loop\<close> is what its three loops share; the calls a listener makes on its socket are exact.
  \<^item> \<open>Network\<close> (\<open>network.rs\<close>, \<open>network/poll.rs\<close>, \<open>loader.rs\<close>, \<open>transport.rs\<close>, \<open>events.rs\<close>, \<open>node_event.rs\<close>): the worker:
    processor table, poll loop, command queue, commands.
  \<^item> \<open>Worker_Commands\<close>, \<open>Node\<close> (\<open>node.rs\<close>), \<open>Node_Invariant\<close>, \<open>Node_Runs\<close>: the node as an interleaving of the
    user's calls, the commands handled and the poll events of all workers. The invariant ties the
    queues, the tables and the ids used to the workers; the properties are the life of a connection
    over all threads, the routing of commands, the types of the ids in the tables and the wake-ups. A worker is \<open>in_batch\<close>
    from the moment \<open>launch_thread\<close> has seen the node running until all events of that wait are handled.
  \<^item> \<open>Node_Queues\<close>: what the threads post to each other, over the same runs. The queue of a thread implements a
    first-in first-out channel, so data sent to an endpoint reaches its transport in order. The effect \<open>Handed\<close> observes
    each send: the status, and the bytes by which \<open>sent_wire\<close>, what the sockets of the transport took, has grown; the
    locale \<open>sending_adapter\<close> is what a transport promises of them. The locale \<open>boxing_adapter\<close> is what a transport promises of the boxes it posts, from which the unchecked casts are sound
    as long as the user does not post commands of his own.
  \<^item> \<open>Node_Connect\<close>: the blocking connect (\<open>connect_sync_with\<close>) over the same runs. Its callback is queued, called or dropped, and
    exactly one of these; the value of its promise is what the callback was called with.
  \<^item> \<open>Node_Task\<close> (\<open>node_listener_for_each_async\<close>, \<open>launch_thread\<close> and \<open>NodeTask\<close> of \<open>node.rs\<close>, \<open>Multiplexor\<close> of
    \<open>network/loader.rs\<close>, \<open>util/thread.rs\<close>): starting the threads, as a step relation of the caller, the threads
    and a user who stops the node. The start is a barrier, which a thread that panics early blocks
    forever; the outcome of a wait is exact.
  \<^item> \<open>Ws_Coding\<close>, \<open>Ws_Mask\<close>, \<open>Ws_Frame\<close> (\<open>ws/protocol/frame/coding.rs\<close>, \<open>mask.rs\<close>, \<open>frame.rs\<close>, \<open>ws/error.rs\<close>): opcodes,
    close codes, masking, headers and frames; the word-wise masking equals the byte-wise one.
  \<^item> \<open>Ws_Codec\<close> (\<open>frame/mod.rs\<close>), \<open>Ws_Message\<close> (\<open>protocol/message.rs\<close>), \<open>Ws_Context\<close> (\<open>protocol/mod.rs\<close>, \<open>ws/util.rs\<close>):
    the codec that cuts a stream into frames, the assembly of messages, and the protocol machine.
  \<^item> \<open>Ws_Protocol\<close>: the locale \<open>context_relation\<close> lifts a relation kept by the primitive changes of the
    machine to every call and every run; it is interpreted for the order of the states, for the
    bytes sent and for the bounds.
  \<^item> \<open>Ws_Returns\<close>: every call returns; the properties of runs. \<open>Ws_Exchange\<close>: two machines that talk to each
    other: messages, fragments and the closing handshake.
  \<^item> \<open>Ws_Http\<close>: what the upgrade uses of the crates http, httparse, sha1, data_encoding and rand, as the record
    \<open>http_crates\<close>, and header maps. \<open>Ws_Upgrade\<close> (\<open>handshake/headers.rs\<close>, \<open>client.rs\<close>, \<open>server.rs\<close>, \<open>mod.rs\<close>, \<open>ws/client.rs\<close>):
    building, printing, parsing and checking requests and responses; the printed request is exact.
  \<^item> \<open>Ws_Handshake\<close> (\<open>handshake/machine.rs\<close>, \<open>mod.rs\<close>, \<open>client.rs\<close>, \<open>server.rs\<close>, \<open>ws/client.rs\<close>, \<open>ws/server.rs\<close>): the handshake
    machine, the two roles, the entry points and the blocking connect. The locale \<open>handshake_invariant\<close> lifts what
    a stage keeps to the whole loop. Every call returns; the messages of the two roles fit each other; but the
    machine never reads from the stream, so that no handshake completes.
  \<^item> \<open>Ws_Adapter\<close> (\<open>ws_adapter.rs\<close>, \<open>ws_remote.rs\<close>, \<open>ws_driver.rs\<close>): the resources of the transport and its event
    processor. It is an interpretation of \<open>stream_adapter\<close>, so the life of its connections is that of \<open>Lifecycle\<close>, and
    one of the locale \<open>stalled_adapter\<close>, whose remotes never become ready. \<open>Ws_Data\<close>: what \<open>send\<close> and \<open>receive\<close> do
    once a websocket is open: data arrive unchanged and in order, but messages that are already buffered wait for the next
    event when \<open>peek\<close> finds the socket drained, and \<open>send\<close> spins on a blocked socket.
  \<^item> \<open>Ws_Debug\<close>: the \<open>Debug\<close> and \<open>Display\<close> implementations of the websocket code written by hand, when the former
    never return, and what the latter tell apart.

  \<^bold>\<open>Bounds.\<close> The numbers in the model are those of the source: 1000 attempts of a TCP send, 1000 queries of
  a blocking connect, 1024 commands per wake-up, 4 workers by default. No fuel is added. \<open>usize\<close> has 64
  bits. Lengths of buffers are natural numbers: a buffer in memory is shorter than \<open>2\<^sup>6\<^sup>4\<close>.

  \<^bold>\<open>Assumptions named in theorems.\<close> \<open>varint_codec\<close> (the varint crate), \<open>mio_accepts\<close> and \<open>new_source\<close> (the poll
  takes a registration, and the system hands out no source that is still registered), \<open>write_contract\<close>
  (a \<open>write\<close> takes at most what it is given), \<open>target_ok\<close> (alignment splits a buffer within its length, and
  \<open>read_u16\<close> undoes \<open>prepend_u16\<close>), \<open>utf8_sizes\<close> (decoding text does not lengthen it), \<open>pauses_at\<close> (a stream does not
  deliver data without end), \<open>http_ok\<close> (header names of less than 65536 characters and header values round trip and the header map iterates over its entries),
  \<open>reads_request\<close> and \<open>reads_response\<close> (httparse reads back the lines it is given), \<open>good_uri\<close> (a URI with scheme, host and
  path), \<open>progresses\<close> (a \<open>write\<close> that succeeds takes something), and for UDP that a socket has the address it was bound to,
  for the blocking connect that a promise whose callback is never called returns no value (the crate pinky_swear: the wait
  blocks or panics),
  and for the start of a node that the system makes the threads asked for. Each has an instance in the witness of the theorem that uses it.

  \<^bold>\<open>Where the source does not build.\<close> With the feature \<open>websocket\<close> the crate has type errors; the model
  reads \<open>in_buffer\<close> for \<open>in_buffer_opt\<close>, takes \<open>Frame::into_data\<close> as the payload and \<open>set_additional(None)\<close> as no
  change, and so says what the code means there.

  \<^bold>\<open>Not modelled.\<close> The node model mounts the processors of a build with the features \<open>tcp\<close> (the default) and \<open>ssl\<close>; with
  the feature \<open>websocket\<close> the table would have the processor of \<open>Ws_Adapter\<close> as well, which is modelled by itself. A callback that
  sends on the websocket it is called for, between two rounds of the receive loop, is left out.
  \<open>ws_stream.rs\<close> and the wrappers \<open>ArcTcpStream\<close> and \<open>FrameSocket\<close> pass calls on. \<open>adapters/udp.rs\<close> is commented out of the
  build and written for older traits, so \<open>Udp\<close> is no event processor. \<open>adapters/template.rs\<close> is a skeleton of
  \<open>todo!()\<close>. Of \<open>util/unsafe_any.rs\<close> the downcasts of references and the copies for other trait objects are left
  out, which nothing in the program calls. The user's calls in a run are those of the handler; the public \<open>post\<close> and
  \<open>post_to_master\<close> are among them with the commands that carry no box and make no resource (greet, close, query, stop). With
  the others the user can break the invariants: \<open>Node_Queues\<close> shows this for the casts. Waking a poll is taken to succeed, so
  the panic of \<open>waker.wake().unwrap()\<close> is left out. Logging, derived formatting and the \<open>Display\<close> of ids, of endpoints and of whole frames are left out.
\<close>

end
